(* ===== verification/CL_Prelude.thy ===== *)
theory CL_Prelude
  imports Main "HOL-Library.Word" "HOL-Library.Multiset"
begin

text \<open>
  Shared vocabulary of the development.

  \<^item> \<open>long\<close> is the 64-bit signed integer of the sources, kept at its width: \<open>sint\<close> reads it.
  \<^item> \<open>exn\<close> is the type of the C++ exceptions that leave a modelled function; a function that
    may throw returns \<open>exn + 'a\<close>, \<open>Inl\<close> for the exception.
  \<^item> \<open>push_new\<close> is the idiom ``\<open>if (std::find(v.begin(), v.end(), x) == v.end())
    v.emplace_back(x)\<close>'' of the engine and of the monitors, for the equality \<open>eq\<close> that the
    call of \<open>std::find\<close> resolves to.
  \<^item> \<open>subset_vec\<close> is the loop ``every element of the left vector is found in the right one''
    of the comparison operators.

  The collection \<open>engine_frame\<close> gathers what an operation leaves alone; it is filled by
  the theories of the components.
\<close>

named_theorems engine_frame "what an operation of the engine leaves unchanged"
named_theorems wf_intros "preservation of the well-formedness invariants"

subsection \<open>Machine integers\<close>

type_synonym long = "64 word"

lemma sint_long_range: "- (2 ^ 63) \<le> sint (a :: long)" "sint (a :: long) < 2 ^ 63"
  using sint_greater_eq [of a] sint_less [of a] by simp_all

lemma sint_add_in_range:
  fixes a b :: long
  assumes "- (2 ^ 63) \<le> sint a + sint b" and "sint a + sint b < 2 ^ 63"
  shows "sint (a + b) = sint a + sint b"
  using assms by (simp add: sint_word_ariths signed_take_bit_int_eq_self)

lemma sint_of_int_in_range:
  "- (2 ^ 63) \<le> i \<Longrightarrow> i < 2 ^ 63 \<Longrightarrow> sint (word_of_int i :: long) = i"
  by (simp add: sint_sbintrunc' signed_take_bit_int_eq_self)

lemma word_of_sint [simp]: "(word_of_int (sint a) :: long) = a"
  by simp

subsection \<open>Exceptions\<close>

datatype exn =
    InvalidArgument string
  | OutOfRange
  | JsonException
  | ParserException string
  | SerializerException string
  | MonitorException string
  | ConfigurationException string
  | FilesystemError string

fun rbind :: "exn + 'a \<Rightarrow> ('a \<Rightarrow> exn + 'b) \<Rightarrow> exn + 'b" where
  "rbind (Inl e) f = Inl e"
| "rbind (Inr x) f = f x"

lemma rbind_Inr_iff: "rbind m f = Inr y \<longleftrightarrow> (\<exists>x. m = Inr x \<and> f x = Inr y)"
  by (cases m) auto

lemma rbind_Inr_right [simp]: "rbind m Inr = m"
  by (cases m) auto

lemma rbind_assoc: "rbind (rbind m f) g = rbind m (\<lambda>x. rbind (f x) g)"
  by (cases m) auto

text \<open>A range-for loop whose body may throw: the exception leaves the loop.\<close>

fun rfold :: "('a \<Rightarrow> 's \<Rightarrow> exn + 's) \<Rightarrow> 'a list \<Rightarrow> 's \<Rightarrow> exn + 's" where
  "rfold f [] s = Inr s"
| "rfold f (x # xs) s = rbind (f x s) (rfold f xs)"

lemma rfold_append: "rfold f (xs @ ys) s = rbind (rfold f xs s) (rfold f ys)"
proof (induction xs arbitrary: s)
  case (Cons x xs)
  then show ?case by (cases "f x s") simp_all
qed simp

lemma rfold_none [simp]: "rfold f [] = Inr"
  by (rule ext) simp

lemma rfold_map: "rfold f (map g xs) = rfold (\<lambda>x. f (g x)) xs"
proof (induction xs)
  case (Cons x xs)
  show ?case by (rule ext) (simp add: Cons.IH)
qed simp

lemma rfold_Inr_fold: "(\<And>x s. f x s = Inr (g x s)) \<Longrightarrow> rfold f xs s = Inr (fold g xs s)"
  by (induction xs arbitrary: s) auto

lemma rfold_invariant:
  assumes "rfold f xs s = Inr s'" and "I s"
    and "\<And>x s s'. x \<in> set xs \<Longrightarrow> I s \<Longrightarrow> f x s = Inr s' \<Longrightarrow> I s'"
  shows "I s'"
  using assms by (induction xs arbitrary: s) (auto simp: rbind_Inr_iff)

lemma rfold_total:
  "(\<And>x s. x \<in> set xs \<Longrightarrow> \<exists>s'. f x s = Inr s') \<Longrightarrow> \<exists>s'. rfold f xs s = Inr s'"
proof (induction xs arbitrary: s)
  case (Cons x xs)
  obtain s1 where "f x s = Inr s1" using Cons.prems [of x s] by auto
  with Cons.IH [of s1] Cons.prems show ?case by simp
qed simp

text \<open>What every round of a loop respects, the whole loop does; and the round of one element splits it.\<close>

lemma rfold_relation:
  assumes "rfold f xs s = Inr s'" and "reflp R" and "transp R"
    and "\<And>x s s'. x \<in> set xs \<Longrightarrow> f x s = Inr s' \<Longrightarrow> R s s'"
  shows "R s s'"
proof (rule rfold_invariant [where I = "R s", OF assms(1)])
  show "R s s" using assms(2) by (rule reflpD)
  show "R s b" if "x \<in> set xs" "R s a" "f x a = Inr b" for x a b
    using assms(3) that(2) assms(4) [OF that(1,3)] by (rule transpD)
qed

lemma rfold_round:
  assumes "rfold f xs s = Inr s'" and "reflp R" and "transp R"
    and "\<And>x s s'. x \<in> set xs \<Longrightarrow> f x s = Inr s' \<Longrightarrow> R s s'" and "x \<in> set xs"
  shows "\<exists>s1 s2. R s s1 \<and> f x s1 = Inr s2 \<and> R s2 s'"
proof -
  obtain ys zs where xs: "xs = ys @ x # zs" using split_list [OF assms(5)] by blast
  then obtain s1 s2 where "rfold f ys s = Inr s1" "f x s1 = Inr s2" "rfold f zs s2 = Inr s'"
    using assms(1) by (auto simp: rfold_append rbind_Inr_iff)
  moreover have "R s s1" by (rule rfold_relation [OF calculation(1) assms(2,3)]) (use assms(4) xs in auto)
  moreover have "R s2 s'" by (rule rfold_relation [OF calculation(3) assms(2,3)]) (use assms(4) xs in auto)
  ultimately show ?thesis by blast
qed

lemma fold_invariant:
  "I s \<Longrightarrow> (\<And>x s. x \<in> set xs \<Longrightarrow> I s \<Longrightarrow> I (f x s)) \<Longrightarrow> I (fold f xs s)"
  by (induction xs arbitrary: s) auto

lemma fold_unchanged:
  "(\<And>x s. x \<in> set xs \<Longrightarrow> g (f x s) = g s) \<Longrightarrow> g (fold f xs s) = g s"
  by (induction xs arbitrary: s) auto

subsection \<open>Vectors\<close>

definition push_new :: "('a \<Rightarrow> 'a \<Rightarrow> bool) \<Rightarrow> 'a \<Rightarrow> 'a list \<Rightarrow> 'a list" where
  "push_new eq x xs = (if list_ex (\<lambda>y. eq y x) xs then xs else xs @ [x])"

lemma push_new_eq: "push_new (=) x xs = (if x \<in> set xs then xs else xs @ [x])"
  by (auto simp: push_new_def list_ex_iff)

lemma set_push_new [simp]: "set (push_new (=) x xs) = insert x (set xs)"
  by (auto simp: push_new_eq)

lemma distinct_push_new [simp]: "distinct (push_new (=) x xs) \<longleftrightarrow> distinct xs"
  by (auto simp: push_new_eq)

lemma push_new_idem: "eq x x \<Longrightarrow> push_new eq x (push_new eq x xs) = push_new eq x xs"
  by (auto simp: push_new_def)

lemma push_new_found: "eq x x \<Longrightarrow> list_ex (\<lambda>y. eq y x) (push_new eq x xs)"
  by (auto simp: push_new_def)

lemma count_push_new: "count_list (push_new (=) x xs) x = max 1 (count_list xs x)"
  using count_list_0_iff [of xs x] by (auto simp: push_new_eq)

lemma prefix_push_new: "\<exists>ys. push_new eq x xs = xs @ ys"
  by (auto simp: push_new_def)

definition subset_vec :: "('a \<Rightarrow> 'a \<Rightarrow> bool) \<Rightarrow> 'a list \<Rightarrow> 'a list \<Rightarrow> bool" where
  "subset_vec eq xs ys \<longleftrightarrow> length xs = length ys \<and> list_all (\<lambda>x. list_ex (\<lambda>y. eq y x) ys) xs"

lemma subset_vec_eq: "subset_vec (=) xs ys \<longleftrightarrow> length xs = length ys \<and> set xs \<subseteq> set ys"
  by (auto simp: subset_vec_def list_all_iff list_ex_iff)

lemma subset_vec_refl: "(\<And>x. x \<in> set xs \<Longrightarrow> eq x x) \<Longrightarrow> subset_vec eq xs xs"
  by (auto simp: subset_vec_def list_all_iff list_ex_iff)

text \<open>
  On vectors without repetitions the one-sided test is equality as sets, so it is symmetric;
  \<open>distinct\<close> on the left is what is needed.
\<close>

lemma subset_vec_distinct:
  assumes "subset_vec (=) xs ys" and "distinct xs"
  shows "set xs = set ys" and "distinct ys"
proof -
  from assms have len: "length xs = length ys" and sub: "set xs \<subseteq> set ys"
    by (auto simp: subset_vec_eq)
  have "card (set ys) \<le> card (set xs)"
    using len assms(2) card_length [of ys] by (simp add: distinct_card)
  with sub show eq: "set xs = set ys"
    by (metis card_seteq finite_set)
  then show "distinct ys"
    using len assms(2) by (metis card_distinct distinct_card)
qed

subsection \<open>Characters\<close>

text \<open>\<open>isspace\<close> of the C locale: space and the controls 9 to 13.\<close>

definition is_space :: "char \<Rightarrow> bool" where
  "is_space c \<longleftrightarrow> c = CHR 0x20 \<or> c \<in> set [CHR 0x09, CHR 0x0A, CHR 0x0B, CHR 0x0C, CHR 0x0D]"

text \<open>\<open>s.erase(remove_if(s.begin(), s.end(), isspace), s.end())\<close>\<close>

definition erase_spaces :: "string \<Rightarrow> string" where
  "erase_spaces s = filter (\<lambda>c. \<not> is_space c) s"

lemma erase_spaces_idem [simp]: "erase_spaces (erase_spaces s) = erase_spaces s"
  by (simp add: erase_spaces_def)

lemma erase_spaces_none: "list_all (\<lambda>c. \<not> is_space c) s \<Longrightarrow> erase_spaces s = s"
  by (simp add: erase_spaces_def list_all_iff filter_id_conv)

end
