(* ===== verification/CL_Table.thy ===== *)
theory CL_Table
  imports CL_Prelude
begin

text \<open>
  \<open>std::unordered_map<std::string, V>\<close>: the hash map the engine keeps its entries in. A map
  is the list of its items in iteration order. The standard leaves that order open, so the
  place of a new key is decided by a \<^emph>\<open>rank\<close>: \<open>rank n k\<close> is the position class (the bucket)
  of key \<open>k\<close> in a container of \<open>n\<close> items, and inserting re-sorts by it, which also covers a
  rehash. The rank is an argument of \<open>um_emplace\<close>: what is proved for every rank holds for
  every iteration order. Erasing keeps the order of the others, as the standard says.

  The interface the clients rely on is the locale \<open>unordered_map\<close>; the model is its
  interpretation \<open>um\<close>.
\<close>

type_synonym 'v umap = "(string \<times> 'v) list"

definition um_find :: "'v umap \<Rightarrow> string \<Rightarrow> 'v option" where
  "um_find m k = map_of m k"

definition um_keys :: "'v umap \<Rightarrow> string list" where
  "um_keys m = map fst m"

definition um_size :: "'v umap \<Rightarrow> nat" where
  "um_size m = length m"

definition um_emplace :: "(nat \<Rightarrow> string \<Rightarrow> nat) \<Rightarrow> string \<Rightarrow> 'v \<Rightarrow> 'v umap \<Rightarrow> 'v umap" where
  "um_emplace rank k v m =
     (if um_find m k = None
      then sort_key (\<lambda>(k', _). rank (Suc (length m)) k') ((k, v) # m)
      else m)"

text \<open>An update through the reference that \<open>find\<close>, \<open>at\<close> or \<open>operator[]\<close> returned.\<close>

definition um_modify :: "string \<Rightarrow> ('v \<Rightarrow> 'v) \<Rightarrow> 'v umap \<Rightarrow> 'v umap" where
  "um_modify k f m = map (\<lambda>(k', v). (k', if k' = k then f v else v)) m"

definition um_erase :: "string \<Rightarrow> 'v umap \<Rightarrow> 'v umap" where
  "um_erase k m = filter (\<lambda>(k', _). k' \<noteq> k) m"

text \<open>A hash map holds a key at most once.\<close>

definition um_wf :: "'v umap \<Rightarrow> bool" where
  "um_wf m \<longleftrightarrow> distinct (map fst m)"

subsection \<open>The interface\<close>

locale unordered_map =
  fixes find :: "'m \<Rightarrow> string \<Rightarrow> 'v option"
    and emplace :: "string \<Rightarrow> 'v \<Rightarrow> 'm \<Rightarrow> 'm"
    and modify :: "string \<Rightarrow> ('v \<Rightarrow> 'v) \<Rightarrow> 'm \<Rightarrow> 'm"
    and erase :: "string \<Rightarrow> 'm \<Rightarrow> 'm"
    and keys :: "'m \<Rightarrow> string list"
    and valid :: "'m \<Rightarrow> bool"
  assumes find_emplace: "valid m \<Longrightarrow>
      find (emplace k v m) j = (if j = k \<and> find m k = None then Some v else find m j)"
    and find_modify: "find (modify k f m) j = (if j = k then map_option f (find m j) else find m j)"
    and find_erase: "find (erase k m) j = (if j = k then None else find m j)"
    and keys_find: "set (keys m) = {k. find m k \<noteq> None}"
    and keys_distinct: "valid m \<Longrightarrow> distinct (keys m)"
    and valid_emplace [wf_intros]: "valid m \<Longrightarrow> valid (emplace k v m)"
    and valid_modify [wf_intros]: "valid m \<Longrightarrow> valid (modify k f m)"
    and valid_erase [wf_intros]: "valid m \<Longrightarrow> valid (erase k m)"
    and keys_modify: "keys (modify k f m) = keys m"
    and modify_modify: "modify k f (modify k g m) = modify k (\<lambda>v. f (g v)) m"
    and modify_absent: "find m k = None \<Longrightarrow> modify k f m = m"
begin

lemma key_iff: "k \<in> set (keys m) \<longleftrightarrow> find m k \<noteq> None"
  by (simp add: keys_find)

lemma find_emplace_new: "valid m \<Longrightarrow> find m k = None \<Longrightarrow> find (emplace k v m) k = Some v"
  by (simp add: find_emplace)

lemma find_emplace_old: "valid m \<Longrightarrow> find m j = Some w \<Longrightarrow> find (emplace k v m) j = Some w"
  by (auto simp: find_emplace)

lemma keys_emplace: "valid m \<Longrightarrow> set (keys (emplace k v m)) = insert k (set (keys m))"
  by (auto simp: keys_find find_emplace)

lemma keys_erase: "set (keys (erase k m)) = set (keys m) - {k}"
  by (auto simp: keys_find find_erase)

lemma size_emplace:
  assumes "valid m" and "find m k = None"
  shows "length (keys (emplace k v m)) = Suc (length (keys m))"
proof -
  have "length (keys (emplace k v m)) = card (insert k (set (keys m)))"
    using assms distinct_card [OF keys_distinct [OF valid_emplace [OF assms(1)]]]
    by (simp add: keys_emplace)
  with assms show ?thesis by (simp add: key_iff distinct_card keys_distinct)
qed

lemma size_erase:
  assumes "valid m" and "find m k \<noteq> None"
  shows "Suc (length (keys (erase k m))) = length (keys m)"
proof -
  have "length (keys (erase k m)) = card (set (keys m) - {k})"
    using distinct_card [OF keys_distinct [OF valid_erase [OF assms(1)]], of k]
    by (simp add: keys_erase)
  moreover have "k \<in> set (keys m)" using assms by (simp add: key_iff)
  ultimately show ?thesis
    using assms card_Suc_Diff1 [of "set (keys m)" k] distinct_card [OF keys_distinct [OF assms(1)]]
    by simp
qed

lemma modify_id: "find m k = Some v \<Longrightarrow> find (modify k f m) k = Some (f v)"
  by (simp add: find_modify)

end

subsection \<open>The model provides it\<close>

lemma um_find_set: "um_wf m \<Longrightarrow> um_find m k = Some v \<longleftrightarrow> (k, v) \<in> set m"
  by (simp add: um_find_def um_wf_def)

lemma um_find_None: "um_find m k = None \<longleftrightarrow> k \<notin> set (map fst m)"
  by (simp add: um_find_def map_of_eq_None_iff)

lemma mset_um_emplace:
  "um_find m k = None \<Longrightarrow> mset (um_emplace r k v m) = add_mset (k, v) (mset m)"
  by (simp add: um_emplace_def)

lemma um_wf_mset: "mset m = mset m' \<Longrightarrow> um_wf m \<longleftrightarrow> um_wf m'"
  unfolding um_wf_def by (metis mset_eq_imp_distinct_iff mset_map)

lemma um_find_mset: "mset m = mset m' \<Longrightarrow> um_wf m \<Longrightarrow> um_find m = um_find m'"
  using um_wf_mset [of m m'] mset_eq_setD [of m m'] map_of_inject_set [of m m']
  by (auto simp: um_find_def um_wf_def fun_eq_iff)

lemma um_wf_emplace: "um_wf m \<Longrightarrow> um_wf (um_emplace r k v m)"
proof (cases "um_find m k = None")
  case True
  assume "um_wf m"
  with True have "um_wf ((k, v) # m)" by (simp add: um_wf_def um_find_None)
  moreover have "mset (um_emplace r k v m) = mset ((k, v) # m)" using True by (simp add: mset_um_emplace)
  ultimately show ?thesis using um_wf_mset by blast
qed (auto simp: um_emplace_def)

lemma um_find_emplace:
  assumes "um_wf m"
  shows "um_find (um_emplace r k v m) j = (if j = k \<and> um_find m k = None then Some v else um_find m j)"
proof (cases "um_find m k = None")
  case True
  have "um_find (um_emplace r k v m) = um_find ((k, v) # m)"
    by (rule um_find_mset [OF _ um_wf_emplace [OF assms]]) (simp add: mset_um_emplace True)
  with True show ?thesis by (simp add: um_find_def)
qed (auto simp: um_emplace_def)

lemma um_find_modify:
  "um_find (um_modify k f m) j = (if j = k then map_option f (um_find m j) else um_find m j)"
  by (induction m) (auto simp: um_find_def um_modify_def)

lemma um_find_erase: "um_find (um_erase k m) j = (if j = k then None else um_find m j)"
  by (induction m) (auto simp: um_find_def um_erase_def)

interpretation um: unordered_map um_find "um_emplace r" um_modify um_erase um_keys um_wf for r
proof unfold_locales
  fix m :: "'a umap" and k j :: string and v :: 'a and f g :: "'a \<Rightarrow> 'a"
  show "set (um_keys m) = {k. um_find m k \<noteq> None}"
    by (auto simp: um_keys_def um_find_None)
  show "um_wf m \<Longrightarrow> distinct (um_keys m)"
    by (simp add: um_wf_def um_keys_def)
  show "um_wf m \<Longrightarrow> um_wf (um_modify k f m)"
    by (simp add: um_wf_def um_modify_def case_prod_beta comp_def)
  show "um_wf m \<Longrightarrow> um_wf (um_erase k m)"
    by (auto simp: um_wf_def um_erase_def distinct_map intro: inj_on_subset)
  show "um_keys (um_modify k f m) = um_keys m"
    by (simp add: um_keys_def um_modify_def case_prod_beta comp_def)
  show "um_modify k f (um_modify k g m) = um_modify k (\<lambda>v. f (g v)) m"
    by (simp add: um_modify_def case_prod_beta comp_def)
  show "um_find m k = None \<Longrightarrow> um_modify k f m = m"
    by (force simp: um_modify_def um_find_None intro!: map_idI)
qed (simp_all add: um_find_emplace um_find_modify um_find_erase um_wf_emplace)

text \<open>Two facts that need no well-formedness, for the termination proofs of the engine.\<close>

lemma um_emplace_keys: "set (map fst (um_emplace r k v m)) = insert k (set (map fst m))"
proof (cases "um_find m k = None")
  case True
  then have "set (map fst (um_emplace r k v m)) = fst ` set ((k, v) # m)"
    by (simp add: um_emplace_def set_insort_key)
  then show ?thesis by simp
next
  case False
  then have "k \<in> set (map fst m)" by (simp add: um_find_None del: set_map)
  with False show ?thesis by (auto simp: um_emplace_def)
qed

lemma um_emplace_present: "um_find (um_emplace r k v m) k \<noteq> None"
  by (simp add: um_find_None um_emplace_keys del: set_map)

lemma um_emplace_keeps: "um_find m j \<noteq> None \<Longrightarrow> um_find (um_emplace r k v m) j \<noteq> None"
  by (simp add: um_find_None um_emplace_keys del: set_map)

text \<open>Items, keys and sizes of the concrete lists.\<close>

lemma um_keys_simps [simp]: "um_keys [] = []" "um_keys ((k, v) # m) = k # um_keys m"
  by (simp_all add: um_keys_def)

lemma um_size_keys: "um_size m = length (um_keys m)"
  by (simp add: um_size_def um_keys_def)

lemma um_wf_Nil [simp]: "um_wf []"
  by (simp add: um_wf_def)

lemma um_find_Nil [simp]: "um_find [] k = None"
  by (simp add: um_find_def)

lemma um_find_modify_same [simp]: "um_find (um_modify k f m) k = map_option f (um_find m k)"
  by (simp add: um.find_modify)

lemma um_find_modify_other [simp]: "j \<noteq> k \<Longrightarrow> um_find (um_modify k f m) j = um_find m j"
  by (simp add: um.find_modify)

lemma um_modify_none [simp]: "um_find (um_modify k f m) j = None \<longleftrightarrow> um_find m j = None"
  by (simp add: um.find_modify)

lemma um_items_find: "um_wf m \<Longrightarrow> (k, v) \<in> set m \<Longrightarrow> um_find m k = Some v"
  by (simp add: um_find_set)

lemma um_find_item: "um_find m k = Some v \<Longrightarrow> (k, v) \<in> set m"
  by (auto simp: um_find_def dest: map_of_SomeD)

lemma um_modify_cong:
  "(\<And>v. um_find m k = Some v \<Longrightarrow> f v = g v) \<Longrightarrow> um_wf m \<Longrightarrow> um_modify k f m = um_modify k g m"
  by (auto simp: um_modify_def um_find_set)

lemma um_modify_ident:
  "um_wf m \<Longrightarrow> um_find m k = Some v \<Longrightarrow> f v = v \<Longrightarrow> um_modify k f m = m"
  by (auto simp: um_modify_def um_find_set um_wf_def intro!: map_idI dest: eq_key_imp_eq_value)

end
