(* ===== verification/CL_Rules.thy ===== *)
theory CL_Rules
  imports CL_Prelude
begin

text \<open>
  The constants of the language and the two sanitizers of \<open>capiocl.hpp\<close>. Rules are strings
  in the sources (\<open>CapioCLEntry::commit_rule\<close> and \<open>fire_rule\<close> are \<open>std::string\<close>), so
  they are strings here: which operations keep them inside the language is a theorem, not a
  matter of typing.
\<close>

definition CAPIO_CL_DEFAULT_WF_NAME :: string where
  "CAPIO_CL_DEFAULT_WF_NAME = ''CAPIO''"

subsection \<open>Fire rules\<close>

definition NO_UPDATE :: string where "NO_UPDATE = ''no_update''"
definition UPDATE :: string where "UPDATE = ''update''"

definition fire_rules :: "string list" where
  "fire_rules = [NO_UPDATE, UPDATE]"

definition sanitize_fire :: "string \<Rightarrow> exn + string" where
  "sanitize_fire input =
     (if input = NO_UPDATE then Inr NO_UPDATE
      else if input = UPDATE then Inr UPDATE
      else Inl (InvalidArgument (''Input fire rule: '' @ input @ '' is not a valid CAPIO-CL rule'')))"

subsection \<open>Commit rules\<close>

definition ON_CLOSE :: string where "ON_CLOSE = ''on_close''"
definition ON_FILE :: string where "ON_FILE = ''on_file''"
definition ON_N_FILES :: string where "ON_N_FILES = ''on_n_files''"
definition ON_TERMINATION :: string where "ON_TERMINATION = ''on_termination''"

definition commit_rules :: "string list" where
  "commit_rules = [ON_CLOSE, ON_FILE, ON_N_FILES, ON_TERMINATION]"

definition sanitize_commit :: "string \<Rightarrow> exn + string" where
  "sanitize_commit input =
     (if input = ON_CLOSE then Inr ON_CLOSE
      else if input = ON_FILE then Inr ON_FILE
      else if input = ON_N_FILES then Inr ON_N_FILES
      else if input = ON_TERMINATION then Inr ON_TERMINATION
      else Inl (InvalidArgument (''Input commit rule: '' @ input @ '' is not a valid CAPIO-CL rule'')))"

subsection \<open>Versions\<close>

definition V1 :: string where "V1 = ''1.0''"
definition V1_1 :: string where "V1_1 = ''1.1''"

lemmas rule_consts = NO_UPDATE_def UPDATE_def ON_CLOSE_def ON_FILE_def ON_N_FILES_def ON_TERMINATION_def
lemmas version_consts = V1_def V1_1_def

subsection \<open>What the sanitizers accept\<close>

lemma commit_rules_distinct: "distinct commit_rules"
  by (simp add: commit_rules_def rule_consts)

lemma fire_rules_distinct: "distinct fire_rules"
  by (simp add: fire_rules_def rule_consts)

lemma sanitize_commit_cases:
  "sanitize_commit s =
     (if s \<in> set commit_rules then Inr s
      else Inl (InvalidArgument (''Input commit rule: '' @ s @ '' is not a valid CAPIO-CL rule'')))"
  by (auto simp: sanitize_commit_def commit_rules_def)

lemma sanitize_fire_cases:
  "sanitize_fire s =
     (if s \<in> set fire_rules then Inr s
      else Inl (InvalidArgument (''Input fire rule: '' @ s @ '' is not a valid CAPIO-CL rule'')))"
  by (auto simp: sanitize_fire_def fire_rules_def)

lemma sanitize_commit_Inr [simp]: "sanitize_commit s = Inr c \<longleftrightarrow> c = s \<and> s \<in> set commit_rules"
  by (auto simp: sanitize_commit_cases)

lemma sanitize_fire_Inr [simp]: "sanitize_fire s = Inr c \<longleftrightarrow> c = s \<and> s \<in> set fire_rules"
  by (auto simp: sanitize_fire_cases)

lemma rule_members [simp]:
  "ON_CLOSE \<in> set commit_rules" "ON_FILE \<in> set commit_rules" "ON_N_FILES \<in> set commit_rules"
  "ON_TERMINATION \<in> set commit_rules" "NO_UPDATE \<in> set fire_rules" "UPDATE \<in> set fire_rules"
  by (simp_all add: commit_rules_def fire_rules_def)

end
