(* ===== verification/CL_Path.thy ===== *)
theory CL_Path
  imports CL_Prelude
begin

text \<open>
  The operations of \<open>std::filesystem::path\<close> (POSIX paths) that the sources use: emptiness,
  \<open>is_absolute\<close>, \<open>filename\<close>, \<open>operator/\<close>, \<open>parent_path\<close> and the comparison \<open>==\<close>, which is
  by components and not by characters. A path is its native string, which is also what the
  implicit conversion to \<open>std::string\<close> (the key type of every map of the program) returns.
\<close>

abbreviation slash :: char where "slash \<equiv> CHR 0x2F"

definition is_absolute :: "string \<Rightarrow> bool" where
  "is_absolute p \<longleftrightarrow> (case p of [] \<Rightarrow> False | c # _ \<Rightarrow> c = slash)"

text \<open>\<open>relative_path\<close>: what follows the root directory.\<close>

definition relative_path :: "string \<Rightarrow> string" where
  "relative_path p = dropWhile (\<lambda>c. c = slash) p"

definition filename :: "string \<Rightarrow> string" where
  "filename p = rev (takeWhile (\<lambda>c. c \<noteq> slash) (rev p))"

text \<open>
  A path without a relative part (empty, or the root) is its own parent. Otherwise the last
  component and the separators before it go; the root directory stays.
\<close>

definition parent_path :: "string \<Rightarrow> string" where
  "parent_path p =
     (if relative_path p = [] then p
      else let q = rev (dropWhile (\<lambda>c. c = slash) (dropWhile (\<lambda>c. c \<noteq> slash) (rev p)))
           in if q = [] \<and> is_absolute p then [slash] else q)"

text \<open>\<open>operator/\<close>: an absolute right operand replaces the left one.\<close>

definition path_append :: "string \<Rightarrow> string \<Rightarrow> string" where
  "path_append p q =
     (if is_absolute q then q
      else if filename p \<noteq> [] then p @ [slash] @ q
      else p @ q)"

text \<open>Components: runs of separators count once, a trailing one adds an empty component.\<close>

fun split_slash :: "string \<Rightarrow> string list" where
  "split_slash [] = [[]]"
| "split_slash (c # cs) =
     (if c = slash then [] # split_slash cs
      else (case split_slash cs of [] \<Rightarrow> [[c]] | w # ws \<Rightarrow> (c # w) # ws))"

definition components :: "string \<Rightarrow> string list" where
  "components p =
     (let r = relative_path p
      in filter (\<lambda>w. w \<noteq> []) (split_slash r) @ (if r \<noteq> [] \<and> last r = slash then [[]] else []))"

definition path_eq :: "string \<Rightarrow> string \<Rightarrow> bool" where
  "path_eq p q \<longleftrightarrow> is_absolute p = is_absolute q \<and> components p = components q"

lemma path_eq_refl [simp, intro]: "path_eq p p"
  by (simp add: path_eq_def)

lemma path_eq_sym: "path_eq p q \<longleftrightarrow> path_eq q p"
  by (auto simp: path_eq_def)

lemma path_eq_trans: "path_eq p q \<Longrightarrow> path_eq q r \<Longrightarrow> path_eq p r"
  by (simp add: path_eq_def)

lemma path_eq_separator_runs: "path_eq ''a//b'' ''a/b'' \<and> \<not> path_eq ''a/'' ''a''"
  by (simp add: path_eq_def is_absolute_def components_def relative_path_def)

lemma is_absolute_simps [simp]: "\<not> is_absolute []" "is_absolute (c # p) \<longleftrightarrow> c = slash"
  by (simp_all add: is_absolute_def)

lemma is_absolute_append [simp]: "p \<noteq> [] \<Longrightarrow> is_absolute (p @ q) = is_absolute p"
  by (cases p) auto

lemma filename_Nil [simp]: "filename [] = []"
  by (simp add: filename_def)

lemma path_append_absolute: "is_absolute p \<Longrightarrow> is_absolute (path_append p q)"
  by (cases "p = []") (auto simp: path_append_def)

lemma path_append_Nil [simp]: "path_append [] q = q"
  by (auto simp: path_append_def)

text \<open>A path with a relative part has a strictly shorter parent; the others are fixed points.\<close>

lemma dropWhile_same_length:
  "length (dropWhile P xs) = length xs \<Longrightarrow> xs = [] \<or> \<not> P (hd xs)"
proof (cases xs)
  case (Cons x ys)
  assume "length (dropWhile P xs) = length xs"
  with Cons length_dropWhile_le [of P ys] show ?thesis by (auto split: if_splits)
qed simp

lemma relative_path_eq_Nil: "relative_path p = [] \<longleftrightarrow> list_all (\<lambda>c. c = slash) p"
  by (auto simp: relative_path_def list_all_iff)

lemma parent_path_shorter:
  assumes "relative_path p \<noteq> []"
  shows "length (parent_path p) < length p"
proof -
  define r where "r = dropWhile (\<lambda>c. c \<noteq> slash) (rev p)"
  define q where "q = dropWhile (\<lambda>c. c = slash) r"
  have q_le: "length q \<le> length r" and r_le: "length r \<le> length p"
    unfolding q_def r_def using length_dropWhile_le [of _ "rev p"] length_dropWhile_le by auto
  have p: "p \<noteq> []"
    using assms by (auto simp: relative_path_def)
  have q_less: "length q < length p"
  proof (rule ccontr)
    assume "\<not> length q < length p"
    with q_le r_le have "length q = length r" and "length r = length (rev p)" by auto
    then have "r = [] \<or> hd r \<noteq> slash" and "rev p = [] \<or> hd (rev p) = slash"
      using dropWhile_same_length [of "\<lambda>c. c = slash" r]
        dropWhile_same_length [of "\<lambda>c. c \<noteq> slash" "rev p"]
      by (auto simp: q_def r_def)
    moreover have "r \<noteq> []"
      using \<open>length r = length (rev p)\<close> p by auto
    moreover from this have "hd r = slash"
      unfolding r_def using hd_dropWhile [of "\<lambda>c. c \<noteq> slash" "rev p"] by blast
    ultimately show False by simp
  qed
  have "is_absolute p \<Longrightarrow> 1 < length p"
    using assms p by (cases p) (auto simp: relative_path_def split: if_splits)
  with q_less show ?thesis
    using assms by (auto simp: parent_path_def Let_def q_def [unfolded r_def, symmetric])
qed

lemma parent_path_fixed_iff: "parent_path p = p \<longleftrightarrow> list_all (\<lambda>c. c = slash) p"
proof (cases "relative_path p = []")
  case True
  then have "parent_path p = p" by (simp add: parent_path_def)
  with True show ?thesis by (simp add: relative_path_eq_Nil)
next
  case False
  then have "parent_path p \<noteq> p" using parent_path_shorter [of p] by auto
  with False show ?thesis by (simp add: relative_path_eq_Nil)
qed

lemma parent_path_simps [simp]: "parent_path [] = []" "parent_path [slash] = [slash]"
  by (simp_all add: parent_path_def relative_path_def)

text \<open>Equality of paths is equality of a normal form.\<close>

definition path_key :: "string \<Rightarrow> bool \<times> string list" where
  "path_key p = (is_absolute p, components p)"

lemma path_eq_key: "path_eq p q \<longleftrightarrow> path_key p = path_key q"
  by (auto simp: path_eq_def path_key_def)

text \<open>The directories a path names, and what joining a file name to it gives.\<close>

definition dir_names :: "string \<Rightarrow> string list" where
  "dir_names p = filter (\<lambda>w. w \<noteq> []) (split_slash p)"

lemma split_slash_nonempty [simp]: "split_slash p \<noteq> []"
  by (cases p) (auto split: list.split)

lemma split_slash_append: "split_slash (a @ slash # b) = split_slash a @ split_slash b"
proof (induction a)
  case (Cons c a)
  then show ?case by (cases "split_slash a") auto
qed simp

lemma split_slash_single: "slash \<notin> set f \<Longrightarrow> split_slash f = [f]"
  by (induction f) auto

lemma dir_names_append: "dir_names (a @ slash # b) = dir_names a @ dir_names b"
  by (simp add: dir_names_def split_slash_append)

lemma dir_names_single: "slash \<notin> set f \<Longrightarrow> dir_names f = (if f = [] then [] else [f])"
  by (simp add: dir_names_def split_slash_single)

lemma dir_names_relative: "dir_names (relative_path p) = dir_names p"
  by (induction p) (auto simp: relative_path_def dir_names_def)

lemma components_dir_names:
  "components p = dir_names p @ (if relative_path p \<noteq> [] \<and> last (relative_path p) = slash then [[]] else [])"
  using dir_names_relative [of p] by (simp add: components_def dir_names_def Let_def)

lemma filename_append_single: "slash \<notin> set f \<Longrightarrow> filename (p @ slash # f) = f"
  by (auto simp: filename_def takeWhile_append)

lemma filename_Nil_iff: "filename p = [] \<longleftrightarrow> p = [] \<or> last p = slash"
  by (cases p rule: rev_cases) (auto simp: filename_def)

lemma last_relative: "p \<noteq> [] \<Longrightarrow> last p \<noteq> slash \<Longrightarrow> relative_path p \<noteq> [] \<and> last (relative_path p) = last p"
proof (induction p)
  case (Cons c p)
  then show ?case by (cases "p = []") (auto simp: relative_path_def)
qed simp

lemma path_key_append:
  assumes "is_absolute d" and "f \<noteq> []" and "slash \<notin> set f"
  shows "path_key (path_append d f) = (True, dir_names d @ [f])"
proof -
  have "last f \<noteq> slash" using last_in_set [OF assms(2)] assms(3) by auto
  moreover have "\<not> is_absolute f" using assms(2,3) by (cases f) auto
  ultimately have f: "\<not> is_absolute f" "last f \<noteq> slash" by simp_all
  obtain a where a: "path_append d f = a @ slash # f" "dir_names a = dir_names d"
  proof (cases "filename d = []")
    case True
    then obtain a where "d = a @ [slash]"
      using assms(1) by (cases d rule: rev_cases) (auto simp: filename_Nil_iff)
    with True f that [of a] show ?thesis
      by (simp add: path_append_def dir_names_append dir_names_single)
  next
    case False
    with f that [of d] show ?thesis by (simp add: path_append_def)
  qed
  have "last (relative_path (a @ slash # f)) = last f"
    using last_relative [of "a @ slash # f"] f(2) assms(2) by simp
  then show ?thesis
    using path_append_absolute [OF assms(1), of f] f(2) assms(2,3)
    by (simp add: path_key_def a components_dir_names dir_names_append dir_names_single)
qed

end
