(* ===== verification/CL_Entry.thy ===== *)
theory CL_Entry
  imports CL_Rules CL_Path
begin

text \<open>
  \<open>capiocl::engine::CapioCLEntry\<close> (\<open>capiocl/engine.h\<close>, \<open>src/Engine.cpp\<close>): the rules attached to
  one path, with the member defaults, the merge operators \<open>+=\<close> and \<open>+\<close>, and the comparison
  operators \<open>==\<close> and \<open>!=\<close>. The type is an instance of \<open>plus\<close> with \<open>operator+\<close>; merging is
  associative, so it is an instance of \<open>semigroup_add\<close>.
\<close>

record CapioCLEntry =
  producers :: "string list"
  consumers :: "string list"
  file_dependencies :: "string list"
  commit_rule :: string
  fire_rule :: string
  directory_children_count :: long
  commit_on_close_count :: long
  enable_directory_count_update :: bool
  store_in_memory :: bool
  permanent :: bool
  excluded :: bool
  is_file :: bool

text \<open>The member initialisers.\<close>

definition default_entry :: CapioCLEntry where
  "default_entry =
     \<lparr>producers = [], consumers = [], file_dependencies = [],
      commit_rule = ON_TERMINATION, fire_rule = UPDATE,
      directory_children_count = 0, commit_on_close_count = 0,
      enable_directory_count_update = True, store_in_memory = False,
      permanent = False, excluded = False, is_file = True\<rparr>"

text \<open>\<open>operator+=\<close>, statement by statement.\<close>

definition entry_merge ::
  "'a CapioCLEntry_scheme \<Rightarrow> 'a CapioCLEntry_scheme \<Rightarrow> 'a CapioCLEntry_scheme" where
  "entry_merge this rhs =
     this\<lparr>producers := producers this @ producers rhs,
          consumers := consumers this @ consumers rhs,
          file_dependencies := file_dependencies this @ file_dependencies rhs,
          directory_children_count := directory_children_count this + directory_children_count rhs,
          commit_on_close_count := commit_on_close_count this + commit_on_close_count rhs,
          enable_directory_count_update :=
            (enable_directory_count_update this \<and> enable_directory_count_update rhs),
          store_in_memory := (store_in_memory this \<or> store_in_memory rhs),
          permanent := (permanent this \<or> permanent rhs),
          excluded := (excluded this \<or> excluded rhs),
          is_file := (is_file this \<and> is_file rhs),
          commit_rule := commit_rule rhs,
          fire_rule := fire_rule rhs\<rparr>"

text \<open>\<open>operator==\<close>: the scalar members first, then the three vectors.\<close>

definition entry_eq :: "CapioCLEntry \<Rightarrow> CapioCLEntry \<Rightarrow> bool" where
  "entry_eq this other =
     (if commit_rule this \<noteq> commit_rule other \<or> fire_rule this \<noteq> fire_rule other \<or>
         permanent this \<noteq> permanent other \<or> excluded this \<noteq> excluded other \<or>
         is_file this \<noteq> is_file other \<or>
         commit_on_close_count this \<noteq> commit_on_close_count other \<or>
         directory_children_count this \<noteq> directory_children_count other \<or>
         store_in_memory this \<noteq> store_in_memory other \<or>
         enable_directory_count_update this \<noteq> enable_directory_count_update other
      then False
      else if \<not> subset_vec (=) (producers this) (producers other) then False
      else if \<not> subset_vec (=) (consumers this) (consumers other) then False
      else if \<not> subset_vec path_eq (file_dependencies this) (file_dependencies other) then False
      else True)"

definition entry_neq :: "CapioCLEntry \<Rightarrow> CapioCLEntry \<Rightarrow> bool" where
  "entry_neq this other \<longleftrightarrow> \<not> entry_eq this other"

subsection \<open>Operator + as a semigroup\<close>

text \<open>\<open>operator+\<close>: a copy of the left side, merged with the right one.\<close>

definition entry_plus :: "'a CapioCLEntry_ext \<Rightarrow> 'a CapioCLEntry_ext \<Rightarrow> 'a CapioCLEntry_ext" where
  "entry_plus this rhs = (let result = this in entry_merge result rhs)"

instantiation CapioCLEntry_ext :: (type) semigroup_add
begin

definition plus_CapioCLEntry_ext ::
  "'a CapioCLEntry_ext \<Rightarrow> 'a CapioCLEntry_ext \<Rightarrow> 'a CapioCLEntry_ext" where
  "plus_CapioCLEntry_ext this rhs = entry_plus this rhs"

instance
  by standard (simp add: plus_CapioCLEntry_ext_def entry_plus_def entry_merge_def Let_def add.assoc conj_assoc disj_assoc)

end

lemma merge_assoc: "entry_merge (entry_merge a b) c = entry_merge a (entry_merge b c)"
  using add.assoc [of a b c] by (simp add: plus_CapioCLEntry_ext_def entry_plus_def)

lemma merge_selectors [simp]:
  "producers (entry_merge a b) = producers a @ producers b"
  "consumers (entry_merge a b) = consumers a @ consumers b"
  "file_dependencies (entry_merge a b) = file_dependencies a @ file_dependencies b"
  "commit_rule (entry_merge a b) = commit_rule b"
  "fire_rule (entry_merge a b) = fire_rule b"
  "directory_children_count (entry_merge a b) = directory_children_count a + directory_children_count b"
  "commit_on_close_count (entry_merge a b) = commit_on_close_count a + commit_on_close_count b"
  "enable_directory_count_update (entry_merge a b) \<longleftrightarrow>
     enable_directory_count_update a \<and> enable_directory_count_update b"
  "store_in_memory (entry_merge a b) \<longleftrightarrow> store_in_memory a \<or> store_in_memory b"
  "permanent (entry_merge a b) \<longleftrightarrow> permanent a \<or> permanent b"
  "excluded (entry_merge a b) \<longleftrightarrow> excluded a \<or> excluded b"
  "is_file (entry_merge a b) \<longleftrightarrow> is_file a \<and> is_file b"
  by (simp_all add: entry_merge_def)

text \<open>
  Merging a whole sequence of rules into an entry, as a run of datagrams for one path does: the
  lists concatenate in order, the flags accumulate, the rules are those of the last one.
\<close>

lemma fold_merge_producers:
  "producers (fold (\<lambda>r e. entry_merge e r) rs e) = producers e @ concat (map producers rs)"
  by (induction rs arbitrary: e) auto

lemma fold_merge_flags:
  "permanent (fold (\<lambda>r e. entry_merge e r) rs e) \<longleftrightarrow> permanent e \<or> list_ex permanent rs"
  "excluded (fold (\<lambda>r e. entry_merge e r) rs e) \<longleftrightarrow> excluded e \<or> list_ex excluded rs"
  "store_in_memory (fold (\<lambda>r e. entry_merge e r) rs e) \<longleftrightarrow>
     store_in_memory e \<or> list_ex store_in_memory rs"
  "is_file (fold (\<lambda>r e. entry_merge e r) rs e) \<longleftrightarrow> is_file e \<and> list_all is_file rs"
  by (induction rs arbitrary: e) auto

lemma fold_merge_rules:
  "rs \<noteq> [] \<Longrightarrow> commit_rule (fold (\<lambda>r e. entry_merge e r) rs e) = commit_rule (last rs)"
  "rs \<noteq> [] \<Longrightarrow> fire_rule (fold (\<lambda>r e. entry_merge e r) rs e) = fire_rule (last rs)"
  by (induction rs arbitrary: e) auto

subsection \<open>The comparison operators\<close>

lemma entry_eq_iff:
  "entry_eq a b \<longleftrightarrow>
     commit_rule a = commit_rule b \<and> fire_rule a = fire_rule b \<and> permanent a = permanent b \<and>
     excluded a = excluded b \<and> is_file a = is_file b \<and>
     commit_on_close_count a = commit_on_close_count b \<and>
     directory_children_count a = directory_children_count b \<and>
     store_in_memory a = store_in_memory b \<and>
     enable_directory_count_update a = enable_directory_count_update b \<and>
     subset_vec (=) (producers a) (producers b) \<and> subset_vec (=) (consumers a) (consumers b) \<and>
     subset_vec path_eq (file_dependencies a) (file_dependencies b)"
  by (auto simp: entry_eq_def)

lemma entry_eq_refl [simp]: "entry_eq a a"
  by (auto simp: entry_eq_iff intro: subset_vec_refl)

lemma entry_neq_irrefl [simp]: "\<not> entry_neq a a"
  by (simp add: entry_neq_def)

lemma subset_vec_trans:
  assumes xy: "subset_vec eq xs ys" and yz: "subset_vec eq ys zs"
    and trans: "\<And>x y z. eq z y \<Longrightarrow> eq y x \<Longrightarrow> eq z x"
  shows "subset_vec eq xs zs"
proof -
  have "\<exists>z \<in> set zs. eq z x" if "x \<in> set xs" for x
  proof -
    from xy that obtain y where "y \<in> set ys" "eq y x"
      by (auto simp: subset_vec_def list_all_iff list_ex_iff)
    with yz obtain z where "z \<in> set zs" "eq z y"
      by (auto simp: subset_vec_def list_all_iff list_ex_iff)
    with \<open>eq y x\<close> show ?thesis using trans by blast
  qed
  with xy yz show ?thesis by (simp add: subset_vec_def list_all_iff list_ex_iff)
qed

lemma entry_eq_trans: "entry_eq a b \<Longrightarrow> entry_eq b c \<Longrightarrow> entry_eq a c"
  by (auto simp: entry_eq_iff intro: subset_vec_trans path_eq_trans)

text \<open>What the duplicate checks of \<open>addProducer\<close> and \<open>addConsumer\<close> establish.\<close>

definition entry_distinct :: "CapioCLEntry \<Rightarrow> bool" where
  "entry_distinct e \<longleftrightarrow> distinct (producers e) \<and> distinct (consumers e)"

definition entry_rules_valid :: "CapioCLEntry \<Rightarrow> bool" where
  "entry_rules_valid e \<longleftrightarrow> commit_rule e \<in> set commit_rules \<and> fire_rule e \<in> set fire_rules"

lemma default_entry_ok [simp]: "entry_distinct default_entry" "entry_rules_valid default_entry"
  by (simp_all add: entry_distinct_def entry_rules_valid_def default_entry_def)

lemma subset_vec_sym_distinct:
  "distinct xs \<Longrightarrow> subset_vec (=) xs ys \<Longrightarrow> subset_vec (=) ys xs"
  using subset_vec_distinct [of xs ys] by (auto simp: subset_vec_eq)

text \<open>
  The comparison is one-sided: every element of the left vector must occur in the right one, and
  the lengths must agree. With a repeated producer on the left it can hold one way only.
\<close>

lemma entry_eq_not_symmetric:
  "\<exists>a b. entry_eq a b \<and> \<not> entry_eq b a"
proof -
  let ?a = "default_entry\<lparr>producers := [''p'', ''p'']\<rparr>"
  let ?b = "default_entry\<lparr>producers := [''p'', ''q'']\<rparr>"
  have "entry_eq ?a ?b \<and> \<not> entry_eq ?b ?a"
    by (simp add: entry_eq_iff subset_vec_def default_entry_def)
  then show ?thesis by blast
qed

text \<open>Without repetitions in the three vectors the comparison is symmetric.\<close>

definition entry_no_repeats :: "CapioCLEntry \<Rightarrow> bool" where
  "entry_no_repeats e \<longleftrightarrow> entry_distinct e \<and> distinct (map path_key (file_dependencies e))"

lemma subset_vec_path: "subset_vec path_eq xs ys \<longleftrightarrow> subset_vec (=) (map path_key xs) (map path_key ys)"
  by (auto simp: subset_vec_def path_eq_key list_all_iff list_ex_iff image_iff) (metis+)?

lemma entry_eq_sym: "entry_no_repeats a \<Longrightarrow> entry_eq a b \<Longrightarrow> entry_eq b a"
  by (auto simp: entry_eq_iff entry_no_repeats_def entry_distinct_def subset_vec_path
      intro: subset_vec_sym_distinct)

end
