(* ===== verification/CL_Engine.thy ===== *)
theory CL_Engine
  imports CL_Table CL_Entry
begin

text \<open>
  \<open>capiocl::engine::Engine\<close> (\<open>capiocl/engine.h\<close>, \<open>src/Engine.cpp\<close>): the store of entries and all
  its operations, in the order of the source. \<open>platform\<close> holds what the code takes from the
  system: \<open>fnmatch(pattern, path, FNM_NOESCAPE) == 0\<close> of the C library, the iteration order of
  the hash map (\<open>CL_Table\<close>), \<open>gethostname\<close> and \<open>getenv("WORKFLOW_NAME")\<close>. Nothing is
  assumed of it here.

  The monitor, configuration and API server members of the class are in the theories of
  those components. The lock of the class serialises the critical sections of an operation;
  the operations below are the sequences of their critical sections.
\<close>

record platform =
  fnmatch :: "string \<Rightarrow> string \<Rightarrow> bool"
  bucket_rank :: "nat \<Rightarrow> string \<Rightarrow> nat"
  hostname :: string
  env_workflow_name :: "string option"

record engine =
  store_all_in_memory :: bool
  node_name :: string
  workflow_name :: string
  capio_cl_entries :: "CapioCLEntry umap"

abbreviation entry_at :: "engine \<Rightarrow> string \<Rightarrow> CapioCLEntry option" where
  "entry_at st path \<equiv> um_find (capio_cl_entries st) path"

definition modify_at :: "string \<Rightarrow> (CapioCLEntry \<Rightarrow> CapioCLEntry) \<Rightarrow> engine \<Rightarrow> engine" where
  "modify_at path f st = st\<lparr>capio_cl_entries := um_modify path f (capio_cl_entries st)\<rparr>"

subsection \<open>Construction\<close>

definition new_engine :: "platform \<Rightarrow> engine" where
  "new_engine P =
     \<lparr>store_all_in_memory = False, node_name = hostname P,
      workflow_name = (case env_workflow_name P of Some n \<Rightarrow> n | None \<Rightarrow> CAPIO_CL_DEFAULT_WF_NAME),
      capio_cl_entries = []\<rparr>"

subsection \<open>Creating entries\<close>

text \<open>
  The loop of \<open>_newFile\<close> over the entries: the longest key that matches, as a glob pattern, the
  new path; the first one in iteration order where several have that length.
\<close>

definition longest_match :: "platform \<Rightarrow> string \<Rightarrow> CapioCLEntry umap \<Rightarrow> string \<times> nat" where
  "longest_match P path m =
     fold (\<lambda>(fname, data) (matchKey, matchSize).
             if fnmatch P fname path \<and> matchSize < length fname then (fname, length fname)
             else (matchKey, matchSize))
       m ([], 0)"

text \<open>
  The entry \<open>_newFile\<close> registers. \<open>_capio_cl_entries.at(matchKey)\<close> is looked up with a key the
  loop has just seen, so the \<open>None\<close> branch, where \<open>at\<close> throws, is never taken
  (\<open>longest_match_present\<close>).
\<close>

definition new_entry :: "platform \<Rightarrow> string \<Rightarrow> engine \<Rightarrow> CapioCLEntry" where
  "new_entry P path st =
     (let (matchKey, matchSize) = longest_match P path (capio_cl_entries st);
          entry = default_entry\<lparr>commit_rule := ON_TERMINATION, fire_rule := UPDATE\<rparr>
      in if 0 < matchSize
         then (case entry_at st matchKey of
                 Some data \<Rightarrow>
                   data\<lparr>store_in_memory := (if store_all_in_memory st then True else store_in_memory data)\<rparr>
               | None \<Rightarrow> entry)
         else entry\<lparr>store_in_memory := store_all_in_memory st\<rparr>)"

definition count_child :: "CapioCLEntry \<Rightarrow> CapioCLEntry" where
  "count_child e = e\<lparr>directory_children_count := directory_children_count e + 1, is_file := False\<rparr>"

definition compute_directory_entry_count :: "string \<Rightarrow> engine \<Rightarrow> engine" where
  "compute_directory_entry_count path st =
     (let parent = parent_path path
      in if parent \<noteq> [] then
           (case entry_at st parent of
              Some e \<Rightarrow> if enable_directory_count_update e then modify_at parent count_child st else st
            | None \<Rightarrow> st)
         else st)"

definition newFile_internal :: "platform \<Rightarrow> string \<Rightarrow> engine \<Rightarrow> engine" where
  "newFile_internal P path st =
     (if path = [] then st
      else (case entry_at st path of
              Some _ \<Rightarrow> st
            | None \<Rightarrow>
                compute_directory_entry_count path
                  (st\<lparr>capio_cl_entries :=
                        um_emplace (bucket_rank P) path (new_entry P path st) (capio_cl_entries st)\<rparr>)))"

definition newFile :: "platform \<Rightarrow> string \<Rightarrow> engine \<Rightarrow> engine" where
  "newFile P path st = newFile_internal P path st"

lemma modify_at_None [simp]: "entry_at (modify_at p f st) q = None \<longleftrightarrow> entry_at st q = None"
  by (simp add: modify_at_def)

lemma count_step_None [simp]:
  "entry_at (compute_directory_entry_count p st) q = None \<longleftrightarrow> entry_at st q = None"
  by (simp add: compute_directory_entry_count_def Let_def split: option.split)

lemma newFile_present: "path \<noteq> [] \<Longrightarrow> entry_at (newFile_internal P path st) path \<noteq> None"
  by (simp add: newFile_internal_def um_emplace_present del: not_None_eq split: option.split)

lemma newFile_keeps: "entry_at st q \<noteq> None \<Longrightarrow> entry_at (newFile_internal P path st) q \<noteq> None"
  by (simp add: newFile_internal_def um_emplace_keeps del: not_None_eq split: option.split)

subsection \<open>The shape most setters and getters share\<close>

text \<open>
  Find the entry and write (or read) one member; when there is none, create it with \<open>_newFile\<close>
  and call the same method again. The recursion ends because the entry exists the second time,
  which the termination proofs show.
\<close>

function update_entry ::
  "platform \<Rightarrow> string \<Rightarrow> (CapioCLEntry \<Rightarrow> CapioCLEntry) \<Rightarrow> engine \<Rightarrow> engine" where
  "update_entry P path f st =
     (if path = [] then st
      else (case entry_at st path of
              Some _ \<Rightarrow> modify_at path f st
            | None \<Rightarrow> update_entry P path f (newFile_internal P path st)))"
  by pat_completeness auto
termination
  by (relation "measure (\<lambda>(P, path, f, st). if entry_at st path = None then 1 else 0)")
     (auto simp: newFile_present)

function read_entry ::
  "platform \<Rightarrow> string \<Rightarrow> 'a \<Rightarrow> (CapioCLEntry \<Rightarrow> 'a) \<Rightarrow> engine \<Rightarrow> 'a \<times> engine" where
  "read_entry P path dflt sel st =
     (if path = [] then (dflt, st)
      else (case entry_at st path of
              Some e \<Rightarrow> (sel e, st)
            | None \<Rightarrow> read_entry P path dflt sel (newFile_internal P path st)))"
  by pat_completeness auto
termination
  by (relation "measure (\<lambda>(P, path, d, f, st). if entry_at st path = None then 1 else 0)")
     (auto simp: newFile_present)

declare update_entry.simps [simp del] read_entry.simps [simp del]

subsection \<open>Queries over the whole store, and adding entries\<close>

definition contains :: "platform \<Rightarrow> string \<Rightarrow> engine \<Rightarrow> bool" where
  "contains P file st = list_ex (\<lambda>(k, _). fnmatch P k file) (capio_cl_entries st)"

definition engine_size :: "engine \<Rightarrow> nat" where
  "engine_size st = um_size (capio_cl_entries st)"

definition add_rule ::
  "platform \<Rightarrow> string \<Rightarrow> string list \<Rightarrow> string list \<Rightarrow> string \<Rightarrow> string \<Rightarrow> bool \<Rightarrow> bool \<Rightarrow>
     string list \<Rightarrow> engine \<Rightarrow> engine" where
  "add_rule P path prods conss commit fire perm exclude dependencies st =
     (if path = [] then st
      else modify_at path
             (\<lambda>e. e\<lparr>producers := prods, consumers := conss, commit_rule := commit, fire_rule := fire,
                     permanent := perm, excluded := exclude, file_dependencies := dependencies\<rparr>)
             (newFile_internal P path st))"

definition add_entry :: "platform \<Rightarrow> string \<Rightarrow> CapioCLEntry \<Rightarrow> engine \<Rightarrow> engine" where
  "add_entry P path entry st =
     (case entry_at st path of
        None \<Rightarrow> st\<lparr>capio_cl_entries := um_emplace (bucket_rank P) path entry (capio_cl_entries st)\<rparr>
      | Some _ \<Rightarrow> modify_at path (\<lambda>e. entry_merge e entry) st)"

definition getPaths :: "engine \<Rightarrow> string list" where
  "getPaths st = map fst (capio_cl_entries st)"

definition remove_path :: "string \<Rightarrow> engine \<Rightarrow> engine" where
  "remove_path path st =
     (if entry_at st path = None then st
      else st\<lparr>capio_cl_entries := um_erase path (capio_cl_entries st)\<rparr>)"

subsection \<open>Producers, consumers, dependencies\<close>

text \<open>
  The producer is taken by reference and stripped of white space in place, so the caller's
  string is part of the result.
\<close>

function addProducer :: "platform \<Rightarrow> string \<Rightarrow> string \<Rightarrow> engine \<Rightarrow> string \<times> engine" where
  "addProducer P path producer st =
     (if path = [] then (producer, st)
      else (case entry_at st path of
              Some _ \<Rightarrow>
                (erase_spaces producer,
                 modify_at path
                   (\<lambda>e. e\<lparr>producers := push_new (=) (erase_spaces producer) (producers e)\<rparr>) st)
            | None \<Rightarrow> addProducer P path (erase_spaces producer) (newFile P path st)))"
  by pat_completeness auto
termination
  by (relation "measure (\<lambda>(P, path, p, st). if entry_at st path = None then 1 else 0)")
     (auto simp: newFile_def newFile_present)

function addConsumer :: "platform \<Rightarrow> string \<Rightarrow> string \<Rightarrow> engine \<Rightarrow> string \<times> engine" where
  "addConsumer P path consumer st =
     (if path = [] then (consumer, st)
      else (case entry_at st path of
              Some _ \<Rightarrow>
                (erase_spaces consumer,
                 modify_at path
                   (\<lambda>e. e\<lparr>consumers := push_new (=) (erase_spaces consumer) (consumers e)\<rparr>) st)
            | None \<Rightarrow> addConsumer P path (erase_spaces consumer) (newFile P path st)))"
  by pat_completeness auto
termination
  by (relation "measure (\<lambda>(P, path, p, st). if entry_at st path = None then 1 else 0)")
     (auto simp: newFile_def newFile_present)

definition getProducers :: "platform \<Rightarrow> string \<Rightarrow> engine \<Rightarrow> string list \<times> engine" where
  "getProducers P path st = read_entry P path [] producers st"

definition getConsumers :: "string \<Rightarrow> engine \<Rightarrow> string list" where
  "getConsumers path st = (case entry_at st path of Some e \<Rightarrow> consumers e | None \<Rightarrow> [])"

definition isProducer :: "platform \<Rightarrow> string \<Rightarrow> string \<Rightarrow> engine \<Rightarrow> bool \<times> engine" where
  "isProducer P path app_name st =
     (if path = [] then (True, st)
      else if list_ex (\<lambda>(pattern, entry). fnmatch P pattern path \<and> app_name \<in> set (producers entry))
                (capio_cl_entries st)
      then (True, st)
      else (False, newFile_internal P path st))"

definition isConsumer :: "platform \<Rightarrow> string \<Rightarrow> string \<Rightarrow> engine \<Rightarrow> bool \<times> engine" where
  "isConsumer P path app_name st =
     (if path = [] then (True, st)
      else if list_ex (\<lambda>(pattern, entry). fnmatch P pattern path \<and> app_name \<in> set (consumers entry))
                (capio_cl_entries st)
      then (True, st)
      else (False, newFile_internal P path st))"

subsection \<open>Commit and fire rules\<close>

text \<open>The recursive calls sanitize again, as the source does.\<close>

function setCommitRule :: "platform \<Rightarrow> string \<Rightarrow> string \<Rightarrow> engine \<Rightarrow> exn + engine" where
  "setCommitRule P path rule st =
     (if path = [] then Inr st
      else (case sanitize_commit rule of
              Inl ex \<Rightarrow> Inl ex
            | Inr commit \<Rightarrow>
                (case entry_at st path of
                   Some _ \<Rightarrow> Inr (modify_at path (\<lambda>e. e\<lparr>commit_rule := commit\<rparr>) st)
                 | None \<Rightarrow> setCommitRule P path commit (newFile_internal P path st))))"
  by pat_completeness auto
termination
  by (relation "measure (\<lambda>(P, path, r, st). if entry_at st path = None then 1 else 0)")
     (auto simp: newFile_present)

function setFireRule :: "platform \<Rightarrow> string \<Rightarrow> string \<Rightarrow> engine \<Rightarrow> exn + engine" where
  "setFireRule P path rule st =
     (if path = [] then Inr st
      else (case sanitize_fire rule of
              Inl ex \<Rightarrow> Inl ex
            | Inr fire \<Rightarrow>
                (case entry_at st path of
                   Some _ \<Rightarrow> Inr (modify_at path (\<lambda>e. e\<lparr>fire_rule := fire\<rparr>) st)
                 | None \<Rightarrow> setFireRule P path fire (newFile_internal P path st))))"
  by pat_completeness auto
termination
  by (relation "measure (\<lambda>(P, path, r, st). if entry_at st path = None then 1 else 0)")
     (auto simp: newFile_present)

definition getCommitRule :: "platform \<Rightarrow> string \<Rightarrow> engine \<Rightarrow> string \<times> engine" where
  "getCommitRule P path st = read_entry P path ON_TERMINATION commit_rule st"

definition getFireRule :: "platform \<Rightarrow> string \<Rightarrow> engine \<Rightarrow> string \<times> engine" where
  "getFireRule P path st = read_entry P path NO_UPDATE fire_rule st"

definition isFirable :: "platform \<Rightarrow> string \<Rightarrow> engine \<Rightarrow> bool \<times> engine" where
  "isFirable P path st = read_entry P path True (\<lambda>e. fire_rule e = NO_UPDATE) st"

declare addProducer.simps [simp del] addConsumer.simps [simp del]
  setCommitRule.simps [simp del] setFireRule.simps [simp del]

text \<open>The recursion unfolded: at most one creation, then the write or the read.\<close>

lemma newFile_existing: "entry_at st path \<noteq> None \<Longrightarrow> newFile_internal P path st = st"
  by (auto simp: newFile_internal_def)

lemma newFile_Nil [simp]: "newFile_internal P [] st = st"
  by (simp add: newFile_internal_def)

lemma newFile_idem [simp]: "newFile_internal P path (newFile_internal P path st) = newFile_internal P path st"
  by (cases "path = []") (simp_all add: newFile_existing newFile_present del: not_None_eq)

lemma update_entry_Nil [simp]: "update_entry P [] f st = st"
  by (simp add: update_entry.simps)

lemma update_entry_eq:
  assumes "path \<noteq> []"
  shows "update_entry P path f st = modify_at path f (newFile_internal P path st)"
proof (cases "entry_at st path")
  case None
  then obtain e where "entry_at (newFile_internal P path st) path = Some e"
    using newFile_present [OF assms] by blast
  then have "update_entry P path f (newFile_internal P path st) = modify_at path f (newFile_internal P path st)"
    using assms by (simp add: update_entry.simps)
  with None assms show ?thesis by (simp add: update_entry.simps [of P path f st])
qed (use assms in \<open>simp add: update_entry.simps newFile_existing\<close>)

lemma read_entry_Nil [simp]: "read_entry P [] d sel st = (d, st)"
  by (simp add: read_entry.simps)

lemma read_entry_eq:
  assumes "path \<noteq> []"
  shows "read_entry P path d sel st =
    (sel (the (entry_at (newFile_internal P path st) path)), newFile_internal P path st)"
proof (cases "entry_at st path")
  case None
  then obtain e where "entry_at (newFile_internal P path st) path = Some e"
    using newFile_present [OF assms] by blast
  then have "read_entry P path d sel (newFile_internal P path st) = (sel e, newFile_internal P path st)"
    and "the (entry_at (newFile_internal P path st) path) = e"
    using assms by (simp_all add: read_entry.simps)
  with None assms show ?thesis by (simp add: read_entry.simps [of P path d sel st])
qed (use assms in \<open>simp add: read_entry.simps newFile_existing\<close>)

lemma addProducer_eq:
  "addProducer P path producer st =
     (if path = [] then (producer, st)
      else (erase_spaces producer,
            update_entry P path
              (\<lambda>e. e\<lparr>producers := push_new (=) (erase_spaces producer) (producers e)\<rparr>) st))"
proof (cases "path = [] \<or> entry_at st path \<noteq> None")
  case True
  then show ?thesis
    by (auto simp: addProducer.simps [of P path producer st] update_entry_eq newFile_existing split: option.split)
next
  case False
  then obtain e where "entry_at (newFile_internal P path st) path = Some e"
    using newFile_present [of path P st] by blast
  with False show ?thesis
    by (simp add: addProducer.simps [of P path producer st] newFile_def update_entry_eq
        addProducer.simps [of P path "erase_spaces producer" "newFile_internal P path st"])
qed

lemma addConsumer_eq:
  "addConsumer P path consumer st =
     (if path = [] then (consumer, st)
      else (erase_spaces consumer,
            update_entry P path
              (\<lambda>e. e\<lparr>consumers := push_new (=) (erase_spaces consumer) (consumers e)\<rparr>) st))"
proof (cases "path = [] \<or> entry_at st path \<noteq> None")
  case True
  then show ?thesis
    by (auto simp: addConsumer.simps [of P path consumer st] update_entry_eq newFile_existing split: option.split)
next
  case False
  then obtain e where "entry_at (newFile_internal P path st) path = Some e"
    using newFile_present [of path P st] by blast
  with False show ?thesis
    by (simp add: addConsumer.simps [of P path consumer st] newFile_def update_entry_eq
        addConsumer.simps [of P path "erase_spaces consumer" "newFile_internal P path st"])
qed

lemma setCommitRule_eq:
  "setCommitRule P path rule st =
     (if path = [] then Inr st
      else rbind (sanitize_commit rule) (\<lambda>c. Inr (update_entry P path (\<lambda>e. e\<lparr>commit_rule := c\<rparr>) st)))"
proof (cases "path = [] \<or> rule \<notin> set commit_rules \<or> entry_at st path \<noteq> None")
  case True
  then show ?thesis
    by (auto simp: setCommitRule.simps [of P path rule st] sanitize_commit_cases update_entry_eq
        newFile_existing split: option.split)
next
  case False
  then obtain e where "entry_at (newFile_internal P path st) path = Some e"
    using newFile_present [of path P st] by blast
  with False show ?thesis
    by (simp add: setCommitRule.simps [of P path rule st] update_entry_eq sanitize_commit_cases
        setCommitRule.simps [of P path rule "newFile_internal P path st"])
qed

lemma setFireRule_eq:
  "setFireRule P path rule st =
     (if path = [] then Inr st
      else rbind (sanitize_fire rule) (\<lambda>c. Inr (update_entry P path (\<lambda>e. e\<lparr>fire_rule := c\<rparr>) st)))"
proof (cases "path = [] \<or> rule \<notin> set fire_rules \<or> entry_at st path \<noteq> None")
  case True
  then show ?thesis
    by (auto simp: setFireRule.simps [of P path rule st] sanitize_fire_cases update_entry_eq
        newFile_existing split: option.split)
next
  case False
  then obtain e where "entry_at (newFile_internal P path st) path = Some e"
    using newFile_present [of path P st] by blast
  with False show ?thesis
    by (simp add: setFireRule.simps [of P path rule st] update_entry_eq sanitize_fire_cases
        setFireRule.simps [of P path rule "newFile_internal P path st"])
qed

lemma update_entry_present: "path \<noteq> [] \<Longrightarrow> entry_at (update_entry P path f st) path \<noteq> None"
  by (simp add: update_entry_eq newFile_present del: not_None_eq)

lemma update_entry_keeps: "entry_at st q \<noteq> None \<Longrightarrow> entry_at (update_entry P path f st) q \<noteq> None"
  by (cases "path = []") (simp_all add: update_entry_eq newFile_keeps del: not_None_eq)

lemma setCommitRule_present:
  "setCommitRule P path r st = Inr st' \<Longrightarrow> path \<noteq> [] \<Longrightarrow> entry_at st' path \<noteq> None"
  using update_entry_present [of path P] by (fastforce simp: setCommitRule_eq rbind_Inr_iff)

subsection \<open>File dependencies\<close>

function addFileDependency :: "platform \<Rightarrow> string \<Rightarrow> string \<Rightarrow> engine \<Rightarrow> exn + engine" where
  "addFileDependency P path file_dependency st =
     (if path = [] then Inr st
      else (case entry_at st path of
              Some _ \<Rightarrow>
                Inr (modify_at path
                       (\<lambda>e. e\<lparr>file_dependencies := push_new path_eq file_dependency (file_dependencies e)\<rparr>) st)
            | None \<Rightarrow>
                (case setCommitRule P path ON_FILE (newFile P path st) of
                   Inl ex \<Rightarrow> Inl ex
                 | Inr st' \<Rightarrow> addFileDependency P path file_dependency st')))"
  by pat_completeness auto
termination
  by (relation "measure (\<lambda>(P, path, d, st). if entry_at st path = None then 1 else 0)")
     (auto dest: setCommitRule_present)

lemma fold_newFile_keeps:
  "entry_at st q \<noteq> None \<Longrightarrow> entry_at (fold (newFile P) ds st) q \<noteq> None"
  by (rule fold_invariant [where I = "\<lambda>s. entry_at s q \<noteq> None"])
     (simp_all add: newFile_def newFile_keeps del: not_None_eq)

text \<open>The dependencies are registered first; the recursive call registers them again.\<close>

function setFileDeps :: "platform \<Rightarrow> string \<Rightarrow> string list \<Rightarrow> engine \<Rightarrow> engine" where
  "setFileDeps P path dependencies st =
     (if path = [] then st
      else if dependencies = [] then st
      else let st1 = fold (newFile P) dependencies st
           in (case entry_at st1 path of
                 Some _ \<Rightarrow> modify_at path (\<lambda>e. e\<lparr>file_dependencies := dependencies\<rparr>) st1
               | None \<Rightarrow> setFileDeps P path dependencies (newFile_internal P path st1)))"
  by pat_completeness auto

termination
proof (relation "measure (\<lambda>(P, path, d, st). if entry_at st path = None then 1 else 0)")
  fix P path and dependencies :: "string list" and st st1
  assume path: "path \<noteq> []" and st1: "st1 = fold (newFile P) dependencies st"
    and none: "entry_at st1 path = None"
  then have "entry_at st path = None"
    using fold_newFile_keeps by blast
  moreover have "entry_at (newFile_internal P path st1) path \<noteq> None"
    by (rule newFile_present [OF path])
  ultimately show "((P, path, dependencies, newFile_internal P path st1), P, path, dependencies, st)
      \<in> measure (\<lambda>(P, path, d, st). if entry_at st path = None then 1 else 0)"
    by auto
qed simp

definition getCommitOnFileDependencies :: "string \<Rightarrow> engine \<Rightarrow> string list" where
  "getCommitOnFileDependencies path st =
     (case entry_at st path of Some e \<Rightarrow> file_dependencies e | None \<Rightarrow> [])"

declare addFileDependency.simps [simp del] setFileDeps.simps [simp del]

subsection \<open>Flags\<close>

definition setPermanent :: "platform \<Rightarrow> string \<Rightarrow> bool \<Rightarrow> engine \<Rightarrow> engine" where
  "setPermanent P path value st = update_entry P path (\<lambda>e. e\<lparr>permanent := value\<rparr>) st"

definition isPermanent :: "platform \<Rightarrow> string \<Rightarrow> engine \<Rightarrow> bool \<times> engine" where
  "isPermanent P path st = read_entry P path True permanent st"

definition setExclude :: "platform \<Rightarrow> string \<Rightarrow> bool \<Rightarrow> engine \<Rightarrow> engine" where
  "setExclude P path value st = update_entry P path (\<lambda>e. e\<lparr>excluded := value\<rparr>) st"

definition isExcluded :: "platform \<Rightarrow> string \<Rightarrow> engine \<Rightarrow> bool \<times> engine" where
  "isExcluded P path st = read_entry P path True excluded st"

definition setDirectory :: "platform \<Rightarrow> string \<Rightarrow> engine \<Rightarrow> engine" where
  "setDirectory P path st = update_entry P path (\<lambda>e. e\<lparr>is_file := False\<rparr>) st"

definition setFile :: "platform \<Rightarrow> string \<Rightarrow> engine \<Rightarrow> engine" where
  "setFile P path st = update_entry P path (\<lambda>e. e\<lparr>is_file := True\<rparr>) st"

text \<open>After creating the entry the source returns \<open>isPermanent(path)\<close>, not \<open>isFile(path)\<close>.\<close>

definition isFile :: "platform \<Rightarrow> string \<Rightarrow> engine \<Rightarrow> bool \<times> engine" where
  "isFile P path st =
     (if path = [] then (True, st)
      else (case entry_at st path of
              Some e \<Rightarrow> (is_file e, st)
            | None \<Rightarrow> isPermanent P path (newFile_internal P path st)))"

definition isDirectory :: "platform \<Rightarrow> string \<Rightarrow> engine \<Rightarrow> bool \<times> engine" where
  "isDirectory P path st =
     (if path = [] then (True, st)
      else (let (b, st') = isFile P path st in (\<not> b, st')))"

subsection \<open>Counters\<close>

definition setCommitedCloseNumber :: "platform \<Rightarrow> string \<Rightarrow> long \<Rightarrow> engine \<Rightarrow> engine" where
  "setCommitedCloseNumber P path num st = update_entry P path (\<lambda>e. e\<lparr>commit_on_close_count := num\<rparr>) st"

definition getCommitCloseCount :: "platform \<Rightarrow> string \<Rightarrow> engine \<Rightarrow> long \<times> engine" where
  "getCommitCloseCount P path st = read_entry P path 0 commit_on_close_count st"

definition getDirectoryFileCount :: "platform \<Rightarrow> string \<Rightarrow> engine \<Rightarrow> long \<times> engine" where
  "getDirectoryFileCount P path st = read_entry P path 0 directory_children_count st"

lemma fold_setDirectory_keeps:
  "entry_at st q \<noteq> None \<Longrightarrow> entry_at (fold (setDirectory P) ps st) q \<noteq> None"
  by (rule fold_invariant [where I = "\<lambda>s. entry_at s q \<noteq> None"])
     (simp_all add: setDirectory_def update_entry_keeps del: not_None_eq)

text \<open>The loop marks every path of the store as a directory before the count is written.\<close>

function setDirectoryFileCount :: "platform \<Rightarrow> string \<Rightarrow> long \<Rightarrow> engine \<Rightarrow> engine" where
  "setDirectoryFileCount P path num st =
     (if path = [] then st
      else let st1 = fold (setDirectory P) (getPaths st) st
           in (case entry_at st1 path of
                 Some _ \<Rightarrow>
                   modify_at path
                     (\<lambda>e. e\<lparr>directory_children_count := num, enable_directory_count_update := False\<rparr>) st1
               | None \<Rightarrow> setDirectoryFileCount P path num (newFile_internal P path st1)))"
  by pat_completeness auto

termination
proof (relation "measure (\<lambda>(P, path, n, st). if entry_at st path = None then 1 else 0)")
  fix P path and num :: long and st st1
  assume path: "path \<noteq> []" and st1: "st1 = fold (setDirectory P) (getPaths st) st"
    and none: "entry_at st1 path = None"
  then have "entry_at st path = None"
    using fold_setDirectory_keeps by blast
  moreover have "entry_at (newFile_internal P path st1) path \<noteq> None"
    by (rule newFile_present [OF path])
  ultimately show "((P, path, num, newFile_internal P path st1), P, path, num, st)
      \<in> measure (\<lambda>(P, path, n, st). if entry_at st path = None then 1 else 0)"
    by auto
qed simp

declare setDirectoryFileCount.simps [simp del]

subsection \<open>Storage and the workflow name\<close>

definition setStoreFileInMemory :: "platform \<Rightarrow> string \<Rightarrow> engine \<Rightarrow> engine" where
  "setStoreFileInMemory P path st = update_entry P path (\<lambda>e. e\<lparr>store_in_memory := True\<rparr>) st"

definition setStoreFileInFileSystem :: "platform \<Rightarrow> string \<Rightarrow> engine \<Rightarrow> engine" where
  "setStoreFileInFileSystem P path st = update_entry P path (\<lambda>e. e\<lparr>store_in_memory := False\<rparr>) st"

definition setAllStoreInMemory :: "platform \<Rightarrow> engine \<Rightarrow> engine" where
  "setAllStoreInMemory P st =
     (let st1 = st\<lparr>store_all_in_memory := True\<rparr>
      in fold (setStoreFileInMemory P) (getPaths st1) st1)"

definition isStoredInMemory :: "platform \<Rightarrow> string \<Rightarrow> engine \<Rightarrow> bool \<times> engine" where
  "isStoredInMemory P path st = read_entry P path True store_in_memory st"

definition getFileToStoreInMemory :: "engine \<Rightarrow> string list" where
  "getFileToStoreInMemory st =
     map fst (filter (\<lambda>(path, file). store_in_memory file) (capio_cl_entries st))"

definition setWorkflowName :: "string \<Rightarrow> engine \<Rightarrow> engine" where
  "setWorkflowName name st = st\<lparr>workflow_name := name\<rparr>"

definition getWorkflowName :: "engine \<Rightarrow> string" where
  "getWorkflowName st = workflow_name st"

subsection \<open>Comparison\<close>

definition engine_eq :: "engine \<Rightarrow> engine \<Rightarrow> bool" where
  "engine_eq this other =
     (if length (capio_cl_entries this) \<noteq> length (capio_cl_entries other) then False
      else list_all
             (\<lambda>(this_path, this_itm).
                case entry_at other this_path of
                  None \<Rightarrow> False
                | Some other_itm \<Rightarrow> \<not> entry_neq this_itm other_itm)
             (capio_cl_entries this))"

end
