(* ===== verification/CL_Engine_Laws.thy ===== *)
theory CL_Engine_Laws
  imports CL_Engine
begin

text \<open>
  What the operations of the engine do to the entries: the invariant (a key is in the hash map at
  most once), the entry a new path gets, what creating a path leaves alone, and the get/set laws
  of the members.

  The get/set laws are stated once. \<open>entry_member\<close> is the interface of a member of the entry (a
  selector and an update that agree), \<open>attribute\<close> what a client of a setter/getter pair of the
  engine relies on, and the sublocale derives the second from the first for the create-and-retry
  operations. Every scalar member of the entry interprets it.
\<close>

definition engine_wf :: "engine \<Rightarrow> bool" where
  "engine_wf st \<longleftrightarrow> um_wf (capio_cl_entries st)"

definition known :: "engine \<Rightarrow> string \<Rightarrow> bool" where
  "known st path \<longleftrightarrow> entry_at st path \<noteq> None"

subsection \<open>The invariant\<close>

lemma wf_modify_at [wf_intros, simp]: "engine_wf st \<Longrightarrow> engine_wf (modify_at p f st)"
  by (simp add: engine_wf_def modify_at_def um.valid_modify)

lemma wf_count [wf_intros, simp]: "engine_wf st \<Longrightarrow> engine_wf (compute_directory_entry_count p st)"
  by (simp add: compute_directory_entry_count_def Let_def split: option.split)

lemma wf_newFile [wf_intros, simp]: "engine_wf st \<Longrightarrow> engine_wf (newFile_internal P p st)"
  by (auto simp: newFile_internal_def engine_wf_def um_wf_emplace intro!: wf_count [unfolded engine_wf_def]
      split: option.split)

lemma wf_update_entry [wf_intros, simp]: "engine_wf st \<Longrightarrow> engine_wf (update_entry P p f st)"
  by (cases "p = []") (simp_all add: update_entry_eq)

lemma wf_read_entry [wf_intros, simp]: "engine_wf st \<Longrightarrow> engine_wf (snd (read_entry P p d sel st))"
  by (cases "p = []") (simp_all add: read_entry_eq)

lemma wf_new_engine [simp]: "engine_wf (new_engine P)"
  by (simp add: engine_wf_def new_engine_def)

lemma known_newFile [simp]: "p \<noteq> [] \<Longrightarrow> known (newFile_internal P p st) p"
  by (simp add: known_def newFile_present del: not_None_eq)

lemma known_newFile_mono: "known st q \<Longrightarrow> known (newFile_internal P p st) q"
  by (simp add: known_def newFile_keeps del: not_None_eq)

lemma known_update_mono: "known st q \<Longrightarrow> known (update_entry P p f st) q"
  by (simp add: known_def update_entry_keeps del: not_None_eq)

lemma known_update [simp]: "p \<noteq> [] \<Longrightarrow> known (update_entry P p f st) p"
  by (simp add: known_def update_entry_present del: not_None_eq)

lemma newFile_known: "known st p \<Longrightarrow> newFile_internal P p st = st"
  by (simp add: known_def newFile_existing)

subsection \<open>Entries after an update\<close>

lemma entry_at_modify:
  "entry_at (modify_at p f st) q = (if q = p then map_option f (entry_at st q) else entry_at st q)"
  by (simp add: modify_at_def um.find_modify)

definition count_if_enabled :: "CapioCLEntry \<Rightarrow> CapioCLEntry" where
  "count_if_enabled e = (if enable_directory_count_update e then count_child e else e)"

lemma entry_at_count:
  "entry_at (compute_directory_entry_count p st) q =
     (if q = parent_path p \<and> q \<noteq> [] then map_option count_if_enabled (entry_at st q) else entry_at st q)"
  by (auto simp: compute_directory_entry_count_def Let_def entry_at_modify count_if_enabled_def
      split: option.split)

text \<open>The engine after a new path: its entry, the parent counted, everything else as before.\<close>

lemma entry_at_newFile:
  assumes "engine_wf st" and "p \<noteq> []" and "\<not> known st p"
  shows "entry_at (newFile_internal P p st) q =
     (if q = parent_path p \<and> q \<noteq> []
      then map_option count_if_enabled (((entry_at st)(p \<mapsto> new_entry P p st)) q)
      else ((entry_at st)(p \<mapsto> new_entry P p st)) q)"
  using assms
  by (auto simp: newFile_internal_def known_def engine_wf_def entry_at_count um_find_emplace)

lemma entry_at_newFile_self:
  assumes "engine_wf st" and "p \<noteq> []" and "\<not> known st p" and "parent_path p \<noteq> p"
  shows "entry_at (newFile_internal P p st) p = Some (new_entry P p st)"
  using assms by (auto simp: entry_at_newFile)

lemma entry_at_newFile_parent:
  assumes "engine_wf st" and "p \<noteq> []" and "\<not> known st p" and "parent_path p \<noteq> []" and "parent_path p \<noteq> p"
  shows "entry_at (newFile_internal P p st) (parent_path p) =
      map_option count_if_enabled (entry_at st (parent_path p))"
  using assms by (simp add: entry_at_newFile)

lemma entry_at_newFile_other:
  "engine_wf st \<Longrightarrow> q \<noteq> p \<Longrightarrow> q \<noteq> parent_path p \<Longrightarrow> entry_at (newFile_internal P p st) q = entry_at st q"
  by (cases "p = [] \<or> known st p") (auto simp: newFile_known entry_at_newFile)

text \<open>
  An existing entry keeps all its members but the two that counting its children writes.
\<close>

definition same_rules :: "CapioCLEntry \<Rightarrow> CapioCLEntry \<Rightarrow> bool" where
  "same_rules e e' \<longleftrightarrow>
     e' = e\<lparr>directory_children_count := directory_children_count e', is_file := is_file e'\<rparr>"

lemma same_rules_refl [simp]: "same_rules e e"
  by (simp add: same_rules_def)

lemma same_rules_count [simp]: "same_rules e (count_if_enabled e)"
  by (simp add: same_rules_def count_if_enabled_def count_child_def)

lemma same_rules_trans: "same_rules a b \<Longrightarrow> same_rules b c \<Longrightarrow> same_rules a c"
  by (cases a; cases b; cases c) (simp add: same_rules_def)

lemma same_rules_members:
  assumes "same_rules e e'"
  shows "producers e' = producers e" "consumers e' = consumers e"
    "file_dependencies e' = file_dependencies e" "commit_rule e' = commit_rule e"
    "fire_rule e' = fire_rule e" "commit_on_close_count e' = commit_on_close_count e"
    "enable_directory_count_update e' = enable_directory_count_update e"
    "store_in_memory e' = store_in_memory e" "permanent e' = permanent e" "excluded e' = excluded e"
  using assms by (cases e; cases e'; simp add: same_rules_def)+

lemma newFile_same_rules:
  assumes "engine_wf st" and "entry_at st q = Some e"
  shows "\<exists>e'. entry_at (newFile_internal P p st) q = Some e' \<and> same_rules e e'"
proof (cases "p = [] \<or> known st p")
  case True
  with assms show ?thesis by (auto simp: newFile_known)
next
  case False
  then have "q \<noteq> p" using assms by (auto simp: known_def)
  with assms False have "entry_at (newFile_internal P p st) q = Some e \<or>
      entry_at (newFile_internal P p st) q = Some (count_if_enabled e)"
    by (auto simp: entry_at_newFile)
  then show ?thesis by auto
qed

end
