(* ===== verification/CL_Attributes.thy ===== *)
theory CL_Attributes
  imports CL_Engine_Laws
begin

text \<open>
  The setter and getter pairs of the engine, through two interfaces.

  \<^item> \<open>attribute\<close>: what a client of a pair relies on (what is read is what was written, the last
    write wins, reading twice reads the same, the empty path is ignored). \<open>framed_attribute\<close> adds
    that a write to one path does not show at another path that exists, and derives the meaning
    of a whole sequence of writes.
  \<^item> \<open>entry_member\<close>: a member of \<open>CapioCLEntry\<close>, as a selector and an update; \<open>stable_member\<close>
    for the members that counting children does not touch (all but \<open>is_file\<close> and the counter).

  A member gives an attribute, with the create-and-retry operations as the setter and the
  getter. The members of the entry interpret the member interfaces.
\<close>

locale attribute =
  fixes setv :: "string \<Rightarrow> 'v \<Rightarrow> 'st \<Rightarrow> 'st"
    and getv :: "string \<Rightarrow> 'st \<Rightarrow> 'v \<times> 'st"
    and dflt :: 'v
    and ok :: "'st \<Rightarrow> bool"
    and knows :: "'st \<Rightarrow> string \<Rightarrow> bool"
  assumes ok_write: "ok st \<Longrightarrow> ok (setv p v st)"
    and ok_read: "ok st \<Longrightarrow> ok (snd (getv p st))"
    and read_write: "ok st \<Longrightarrow> p \<noteq> [] \<Longrightarrow> getv p (setv p v st) = (v, setv p v st)"
    and write_write: "ok st \<Longrightarrow> setv p v (setv p w st) = setv p v st"
    and read_read: "ok st \<Longrightarrow> getv p (snd (getv p st)) = getv p st"
    and write_Nil: "setv [] v st = st"
    and read_Nil: "getv [] st = (dflt, st)"
    and knows_write: "p \<noteq> [] \<Longrightarrow> knows (setv p v st) p"
    and knows_mono: "knows st q \<Longrightarrow> knows (setv p v st) q"
begin

abbreviation writes :: "(string \<times> 'v) list \<Rightarrow> 'st \<Rightarrow> 'st" where
  "writes ws st \<equiv> fold (\<lambda>(q, w). setv q w) ws st"

lemma ok_writes: "ok st \<Longrightarrow> ok (writes ws st)"
  by (induction ws arbitrary: st) (auto intro: ok_write)

lemma knows_writes:
  "knows st p \<or> (p \<noteq> [] \<and> p \<in> fst ` set ws) \<Longrightarrow> knows (writes ws st) p"
proof (induction ws arbitrary: st)
  case (Cons x ws)
  obtain q w where "x = (q, w)" by (cases x)
  with Cons show ?case
    using knows_write [of p w st] knows_mono [of st p q w] by auto
qed auto

lemma repeated_write: "ok st \<Longrightarrow> writes [(p, v), (p, v)] st = setv p v st"
  by (simp add: write_write)

end

locale framed_attribute = attribute +
  assumes read_other: "ok st \<Longrightarrow> knows st q \<Longrightarrow> q \<noteq> p \<Longrightarrow> fst (getv q (setv p v st)) = fst (getv q st)"
begin

text \<open>After any sequence of writes, a path reads the last value written to it.\<close>

lemma read_writes:
  assumes "ok st" and "p \<noteq> []" and "knows st p \<or> p \<in> fst ` set ws"
  shows "fst (getv p (writes ws st)) =
    (case map_of (rev ws) p of Some v \<Rightarrow> v | None \<Rightarrow> fst (getv p st))"
  using assms(3)
proof (induction ws rule: rev_induct)
  case (snoc x ws)
  obtain q w where x: "x = (q, w)" by (cases x)
  show ?case
  proof (cases "q = p")
    case True
    with x assms ok_writes [OF assms(1)] show ?thesis by (simp add: read_write)
  next
    case False
    with snoc.prems x have "knows st p \<or> p \<in> fst ` set ws" by auto
    with snoc.IH assms(2) knows_writes have "knows (writes ws st) p" by blast
    with False x ok_writes [OF assms(1)] snoc.IH \<open>knows st p \<or> p \<in> fst ` set ws\<close>
    show ?thesis by (simp add: read_other)
  qed
qed simp

end

subsection \<open>Members of an entry\<close>

locale entry_member =
  fixes sel :: "CapioCLEntry \<Rightarrow> 'v"
    and put :: "'v \<Rightarrow> CapioCLEntry \<Rightarrow> CapioCLEntry"
  assumes sel_put: "sel (put v e) = v"
    and put_put: "put v (put w e) = put v e"
begin

lemma update_twice: "update_entry P p (put v) (update_entry P p (put w) st) = update_entry P p (put v) st"
proof (cases "p = []")
  case False
  have "known (modify_at p (put w) (newFile_internal P p st)) p"
    using False known_update [of p P "put w" st] by (simp add: update_entry_eq)
  with False show ?thesis
    by (simp add: update_entry_eq newFile_known modify_at_def um.modify_modify put_put)
qed simp

lemma read_updated:
  assumes "p \<noteq> []"
  shows "read_entry P p d sel (update_entry P p (put v) st) = (v, update_entry P p (put v) st)"
proof -
  obtain e where "entry_at (newFile_internal P p st) p = Some e"
    using newFile_present [OF assms] by blast
  moreover have "newFile_internal P p (update_entry P p (put v) st) = update_entry P p (put v) st"
    using assms by (simp add: newFile_known)
  ultimately show ?thesis
    using assms by (simp add: read_entry_eq) (simp add: update_entry_eq entry_at_modify sel_put)
qed

end

sublocale entry_member \<subseteq> attr: attribute
  "\<lambda>p v. update_entry P p (put v)" "\<lambda>p. read_entry P p d sel" d engine_wf known for P d
proof unfold_locales
  fix p q :: string and v w and st
  show "read_entry P p d sel (snd (read_entry P p d sel st)) = read_entry P p d sel st"
    by (cases "p = []") (simp_all add: read_entry_eq)
  show "p \<noteq> [] \<Longrightarrow> read_entry P p d sel (update_entry P p (put v) st) = (v, update_entry P p (put v) st)"
    by (rule read_updated)
qed (simp_all add: update_twice known_update_mono)

locale stable_member = entry_member +
  assumes sel_same_rules: "same_rules e e' \<Longrightarrow> sel e' = sel e"

lemma read_known:
  assumes "known st q" and "q \<noteq> []"
  shows "read_entry P q d sel st = (sel (the (entry_at st q)), st)"
  using assms by (simp add: read_entry_eq newFile_known)

lemma update_entry_other:
  assumes "engine_wf st" and "q \<noteq> p" and "entry_at st q = Some e"
  shows "\<exists>e'. entry_at (update_entry P p f st) q = Some e' \<and> same_rules e e'"
  using assms newFile_same_rules [of st q e P p]
  by (cases "p = []") (auto simp: update_entry_eq entry_at_modify)

sublocale stable_member \<subseteq> attr: framed_attribute
  "\<lambda>p v. update_entry P p (put v)" "\<lambda>p. read_entry P p d sel" d engine_wf known for P d
proof unfold_locales
  fix p q :: string and v and st
  assume wf: "engine_wf st" and q: "known st q" and ne: "q \<noteq> p"
  show "fst (read_entry P q d sel (update_entry P p (put v) st)) = fst (read_entry P q d sel st)"
  proof (cases "q = []")
    case False
    from q obtain e where e: "entry_at st q = Some e" by (auto simp: known_def)
    then obtain e' where "entry_at (update_entry P p (put v) st) q = Some e'" "same_rules e e'"
      using update_entry_other [OF wf ne] by blast
    with e False q show ?thesis
      by (simp add: read_known known_update_mono sel_same_rules)
  qed simp
qed

subsection \<open>The members\<close>

interpretation mem_commit_rule: stable_member commit_rule "\<lambda>v e. e\<lparr>commit_rule := v\<rparr>"
  by unfold_locales (auto dest: same_rules_members)

interpretation mem_fire_rule: stable_member fire_rule "\<lambda>v e. e\<lparr>fire_rule := v\<rparr>"
  by unfold_locales (auto dest: same_rules_members)

interpretation mem_permanent: stable_member permanent "\<lambda>v e. e\<lparr>permanent := v\<rparr>"
  by unfold_locales (auto dest: same_rules_members)

interpretation mem_excluded: stable_member excluded "\<lambda>v e. e\<lparr>excluded := v\<rparr>"
  by unfold_locales (auto dest: same_rules_members)

interpretation mem_memory: stable_member store_in_memory "\<lambda>v e. e\<lparr>store_in_memory := v\<rparr>"
  by unfold_locales (auto dest: same_rules_members)

interpretation mem_close_count: stable_member commit_on_close_count "\<lambda>v e. e\<lparr>commit_on_close_count := v\<rparr>"
  by unfold_locales (auto dest: same_rules_members)

interpretation mem_is_file: entry_member is_file "\<lambda>v e. e\<lparr>is_file := v\<rparr>"
  by unfold_locales auto

subsection \<open>Vectors of application names\<close>

text \<open>
  The two vectors of an entry that grow by one name at a time, with the duplicate check; and the
  search over the whole store for a name.
\<close>

lemma update_entry_idem:
  assumes "\<And>e. f (f e) = f e"
  shows "update_entry P p f (update_entry P p f st) = update_entry P p f st"
proof (cases "p = []")
  case False
  then have "newFile_internal P p (update_entry P p f st) = update_entry P p f st"
    by (simp add: newFile_known)
  then show ?thesis
    using False by (simp add: update_entry_eq) (simp add: modify_at_def um.modify_modify assms)
qed simp

definition some_entry_names :: "platform \<Rightarrow> (CapioCLEntry \<Rightarrow> string list) \<Rightarrow> string \<Rightarrow> string \<Rightarrow> engine \<Rightarrow> bool" where
  "some_entry_names P sel q name st \<longleftrightarrow>
     list_ex (\<lambda>(pattern, entry). fnmatch P pattern q \<and> name \<in> set (sel entry)) (capio_cl_entries st)"

locale name_vector = entry_member sel put
  for sel :: "CapioCLEntry \<Rightarrow> string list" and put :: "string list \<Rightarrow> CapioCLEntry \<Rightarrow> CapioCLEntry"
begin

definition push :: "string \<Rightarrow> CapioCLEntry \<Rightarrow> CapioCLEntry" where
  "push n e = put (push_new (=) n (sel e)) e"

lemma push_twice: "update_entry P p (push n) (update_entry P p (push n) st) = update_entry P p (push n) st"
  by (rule update_entry_idem) (simp add: push_def sel_put put_put push_new_idem)

lemma entry_pushed:
  assumes "p \<noteq> []"
  obtains e where "entry_at (newFile_internal P p st) p = Some e"
    "entry_at (update_entry P p (push n) st) p = Some (push n e)"
proof -
  obtain e where "entry_at (newFile_internal P p st) p = Some e"
    using newFile_present [OF assms] by blast
  with assms that show ?thesis by (simp add: update_entry_eq entry_at_modify)
qed

lemma count_pushed:
  assumes "p \<noteq> []"
  shows "count_list (fst (read_entry P p d sel (update_entry P p (push n) st))) n =
    max 1 (count_list (fst (read_entry P p d sel st)) n)"
proof -
  obtain e where "entry_at (newFile_internal P p st) p = Some e"
    "entry_at (update_entry P p (push n) st) p = Some (push n e)"
    by (rule entry_pushed [OF assms])
  with assms show ?thesis by (simp add: read_entry_eq newFile_known push_def sel_put count_push_new)
qed

lemma found_pushed:
  assumes "p \<noteq> []" and "fnmatch P p q"
  shows "some_entry_names P sel q n (update_entry P p (push n) st)"
proof -
  obtain e where "entry_at (update_entry P p (push n) st) p = Some (push n e)"
    by (rule entry_pushed [OF assms(1)])
  from um_find_item [OF this] assms(2) show ?thesis
    by (force simp: some_entry_names_def list_ex_iff push_def sel_put)
qed

end

interpretation vec_producers: name_vector producers "\<lambda>v e. e\<lparr>producers := v\<rparr>"
  by unfold_locales auto

interpretation vec_consumers: name_vector consumers "\<lambda>v e. e\<lparr>consumers := v\<rparr>"
  by unfold_locales auto

lemma addProducer_push:
  "path \<noteq> [] \<Longrightarrow> addProducer P path producer st =
    (erase_spaces producer, update_entry P path (vec_producers.push (erase_spaces producer)) st)"
  by (simp add: addProducer_eq vec_producers.push_def [abs_def])

lemma addConsumer_push:
  "path \<noteq> [] \<Longrightarrow> addConsumer P path consumer st =
    (erase_spaces consumer, update_entry P path (vec_consumers.push (erase_spaces consumer)) st)"
  by (simp add: addConsumer_eq vec_consumers.push_def [abs_def])

lemma isProducer_eq:
  "isProducer P q name st =
     (if q = [] \<or> some_entry_names P producers q name st then (True, st)
      else (False, newFile_internal P q st))"
  by (simp add: isProducer_def some_entry_names_def)

lemma isConsumer_eq:
  "isConsumer P q name st =
     (if q = [] \<or> some_entry_names P consumers q name st then (True, st)
      else (False, newFile_internal P q st))"
  by (simp add: isConsumer_def some_entry_names_def)

end
