(* ===== verification/CL_Creation.thy ===== *)
theory CL_Creation
  imports CL_Attributes
begin

text \<open>
  How \<open>_newFile\<close> chooses the rules of a new path, and how it counts children: the longest
  matching key wins, the choice does not depend on the iteration order of the hash map unless two
  keys of the same length match, the parent is counted once per new child, and a count that
  was set explicitly is never changed by later creations. The effect of the two operations
  that loop over the whole store (\<open>setDirectoryFileCount\<close>, \<open>setAllStoreInMemory\<close>) is here too.
\<close>

subsection \<open>The longest match\<close>

lemma longest_match_Nil [simp]: "longest_match P path [] = ([], 0)"
  by (simp add: longest_match_def)

lemma longest_match_snoc:
  "longest_match P path (m @ [(f, d)]) =
     (if fnmatch P f path \<and> snd (longest_match P path m) < length f then (f, length f)
      else longest_match P path m)"
  by (simp add: longest_match_def split: prod.split)

text \<open>The keys that match a path as patterns; the empty key never wins.\<close>

definition matching :: "platform \<Rightarrow> string \<Rightarrow> CapioCLEntry umap \<Rightarrow> string set" where
  "matching P path m = {k \<in> set (um_keys m). fnmatch P k path}"

lemma matching_snoc:
  "matching P path (m @ [(f, d)]) =
     (if fnmatch P f path then insert f (matching P path m) else matching P path m)"
  by (auto simp: matching_def um_keys_def)

lemma longest_match_upper: "j \<in> matching P path m \<Longrightarrow> length j \<le> snd (longest_match P path m)"
proof (induction m rule: rev_induct)
  case (snoc x m)
  then show ?case
    by (cases x) (auto simp: matching_snoc longest_match_snoc split: if_splits)
qed (simp add: matching_def)

lemma longest_match_form:
  "longest_match P path m = ([], 0) \<or>
   (\<exists>k. k \<in> matching P path m \<and> k \<noteq> [] \<and> longest_match P path m = (k, length k))"
proof (induction m rule: rev_induct)
  case (snoc x m)
  then show ?case
    by (cases x) (auto simp: matching_snoc longest_match_snoc)
qed simp

lemma longest_match_cases:
  "(longest_match P path m = ([], 0) \<and> matching P path m \<subseteq> {[]}) \<or>
   (\<exists>k \<in> matching P path m. k \<noteq> [] \<and> longest_match P path m = (k, length k) \<and>
      (\<forall>j \<in> matching P path m. length j \<le> length k))"
proof (cases "longest_match P path m = ([], 0)")
  case True
  then have "matching P path m \<subseteq> {[]}"
    using longest_match_upper [of _ P path m] by auto
  with True show ?thesis by blast
next
  case False
  with longest_match_form obtain k
    where "k \<in> matching P path m" "k \<noteq> []" "longest_match P path m = (k, length k)" by blast
  moreover from this(3) have "\<forall>j \<in> matching P path m. length j \<le> length k"
    using longest_match_upper [of _ P path m] by auto
  ultimately show ?thesis by blast
qed

lemma longest_match_present:
  assumes "longest_match P path m = (k, n)" and "0 < n"
  shows "k \<in> matching P path m" and "um_find m k \<noteq> None"
    and "n = length k" and "\<And>j. j \<in> matching P path m \<Longrightarrow> length j \<le> n"
  using longest_match_cases [of P path m] assms
  by (auto simp: matching_def um.key_iff)

lemma longest_match_none:
  "longest_match P path m = (k, 0) \<Longrightarrow> matching P path m \<subseteq> {[]}"
  using longest_match_cases [of P path m] by auto

definition no_ties :: "platform \<Rightarrow> string \<Rightarrow> CapioCLEntry umap \<Rightarrow> bool" where
  "no_ties P path m \<longleftrightarrow>
     (\<forall>j \<in> matching P path m. \<forall>k \<in> matching P path m. length j = length k \<longrightarrow> j = k)"

lemma longest_match_order:
  assumes same: "matching P path m = matching P' path m'" and "no_ties P path m"
  shows "longest_match P path m = longest_match P' path m'"
proof (cases "matching P path m \<subseteq> {[]}")
  case True
  then have "longest_match Q path n = ([], 0)" if "matching Q path n = matching P path m" for Q n
    using longest_match_cases [of Q path n] that by blast
  from this [of P m] this [of P' m'] same show ?thesis by simp
next
  case False
  with longest_match_cases [of P path m] obtain k where k: "k \<in> matching P path m"
      "longest_match P path m = (k, length k)" "\<And>j. j \<in> matching P path m \<Longrightarrow> length j \<le> length k"
    by blast
  from False longest_match_cases [of P' path m'] same obtain k' where k': "k' \<in> matching P path m"
      "longest_match P' path m' = (k', length k')" "\<And>j. j \<in> matching P path m \<Longrightarrow> length j \<le> length k'"
    by auto
  have "length k = length k'"
    using k(3) [OF k'(1)] k'(3) [OF k(1)] by simp
  with assms(2) k(1) k'(1) have "k = k'" by (simp add: no_ties_def)
  with k(2) k'(2) show ?thesis by simp
qed

subsection \<open>The entry of a new path\<close>

lemma new_entry_inherits:
  assumes "longest_match P path (capio_cl_entries st) = (k, n)" and "0 < n"
  shows "\<exists>data. entry_at st k = Some data \<and>
    new_entry P path st = data\<lparr>store_in_memory := store_all_in_memory st \<or> store_in_memory data\<rparr>"
proof -
  obtain data where "entry_at st k = Some data"
    using longest_match_present(2) [OF assms] by blast
  with assms show ?thesis by (auto simp: new_entry_def)
qed

lemma new_entry_default:
  assumes "matching P path (capio_cl_entries st) \<subseteq> {[]}"
  shows "new_entry P path st = default_entry\<lparr>store_in_memory := store_all_in_memory st\<rparr>"
proof -
  have "longest_match P path (capio_cl_entries st) = ([], 0)"
    using longest_match_cases [of P path "capio_cl_entries st"] assms by auto
  then show ?thesis by (simp add: new_entry_def default_entry_def)
qed

lemma new_entry_cases:
  obtains (inherited) k data where "entry_at st k = Some data" "k \<in> matching P path (capio_cl_entries st)"
      "new_entry P path st = data\<lparr>store_in_memory := store_all_in_memory st \<or> store_in_memory data\<rparr>"
  | (fresh) "matching P path (capio_cl_entries st) \<subseteq> {[]}"
      "new_entry P path st = default_entry\<lparr>store_in_memory := store_all_in_memory st\<rparr>"
proof (cases "longest_match P path (capio_cl_entries st)")
  case (Pair k n)
  show ?thesis
  proof (cases "0 < n")
    case True
    with Pair new_entry_inherits longest_match_present(1) that(1) show ?thesis by blast
  next
    case False
    with Pair have "matching P path (capio_cl_entries st) \<subseteq> {[]}"
      using longest_match_none by blast
    with new_entry_default that(2) show ?thesis by blast
  qed
qed

lemma new_entry_in_memory: "store_all_in_memory st \<Longrightarrow> store_in_memory (new_entry P path st)"
  by (rule new_entry_cases [of st P path]) simp_all

text \<open>Same items, same flag, no ties: the same entry, whatever the order of either map.\<close>

lemma new_entry_order:
  assumes wf: "engine_wf st"
    and items: "mset (capio_cl_entries st) = mset (capio_cl_entries st')"
    and flag: "store_all_in_memory st = store_all_in_memory st'"
    and fnm: "fnmatch P = fnmatch P'"
    and ties: "no_ties P path (capio_cl_entries st)"
  shows "new_entry P path st = new_entry P' path st'"
proof -
  have find: "entry_at st = entry_at st'"
    using items wf by (simp add: um_find_mset engine_wf_def)
  have "set (um_keys (capio_cl_entries st)) = set (um_keys (capio_cl_entries st'))"
    using find by (simp add: um.keys_find)
  then have "matching P path (capio_cl_entries st) = matching P' path (capio_cl_entries st')"
    by (simp add: matching_def fnm)
  from longest_match_order [OF this ties] show ?thesis
    unfolding new_entry_def by (simp only: find flag)
qed

subsection \<open>Counting the children of a directory\<close>

lemma wf_fold_newFile [simp]: "engine_wf st \<Longrightarrow> engine_wf (fold (newFile P) ps st)"
  by (rule fold_invariant) (simp_all add: newFile_def)

text \<open>A directory whose count the user has set keeps it, whatever is created afterwards.\<close>

lemma newFile_frozen:
  assumes "engine_wf st" and "entry_at st d = Some e" and "\<not> enable_directory_count_update e"
  shows "entry_at (newFile_internal P p st) d = Some e"
proof (cases "p = [] \<or> known st p")
  case True
  with assms show ?thesis by (auto simp: newFile_known)
next
  case False
  then have "d \<noteq> p" using assms by (auto simp: known_def)
  with assms False have "entry_at (newFile_internal P p st) d = Some e \<or>
      entry_at (newFile_internal P p st) d = Some (count_if_enabled e)"
    by (auto simp: entry_at_newFile)
  with assms(3) show ?thesis by (simp add: count_if_enabled_def)
qed

lemma fold_newFile_frozen:
  assumes "engine_wf st" and "entry_at st d = Some e" and "\<not> enable_directory_count_update e"
  shows "entry_at (fold (newFile P) ps st) d = Some e"
proof -
  have "engine_wf (fold (newFile P) ps st) \<and> entry_at (fold (newFile P) ps st) d = Some e"
    by (rule fold_invariant [where I = "\<lambda>s. engine_wf s \<and> entry_at s d = Some e"])
       (use assms in \<open>simp_all add: newFile_def newFile_frozen\<close>)
  then show ?thesis ..
qed

text \<open>New paths of one directory, created one after another, each count once.\<close>

definition new_children :: "engine \<Rightarrow> string \<Rightarrow> string list \<Rightarrow> bool" where
  "new_children st d ps \<longleftrightarrow>
     distinct ps \<and> list_all (\<lambda>p. p \<noteq> [] \<and> p \<noteq> d \<and> parent_path p = d \<and> entry_at st p = None) ps"

lemma new_children_Cons:
  assumes "engine_wf st" and "d \<noteq> []" and "new_children st d (p # ps)"
  shows "new_children (newFile_internal P p st) d ps"
proof -
  have "entry_at (newFile_internal P p st) q = None" if "q \<in> set ps" for q
  proof -
    have "q \<noteq> p" "q \<noteq> parent_path p" "entry_at st q = None"
      using assms(3) that by (auto simp: new_children_def list_all_iff)
    then show ?thesis by (simp add: entry_at_newFile_other [OF assms(1)])
  qed
  with assms(3) show ?thesis by (auto simp: new_children_def list_all_iff)
qed

lemma fold_newFile_counts:
  assumes "engine_wf st" and "d \<noteq> []" and "entry_at st d = Some e" and "enable_directory_count_update e"
    and "new_children st d ps"
  shows "entry_at (fold (newFile P) ps st) d =
    Some (e\<lparr>directory_children_count := directory_children_count e + of_nat (length ps),
            is_file := (is_file e \<and> ps = [])\<rparr>)"
  using assms
proof (induction ps arbitrary: st e)
  case (Cons p ps)
  let ?st = "newFile_internal P p st" and ?e = "count_child e"
  have p: "p \<noteq> []" "\<not> known st p" "parent_path p = d" "d \<noteq> p"
    using Cons.prems(5) by (auto simp: new_children_def known_def)
  have "entry_at ?st d = Some ?e"
    using p Cons.prems entry_at_newFile_parent [of st p P] by (simp add: count_if_enabled_def)
  moreover have "new_children ?st d ps"
    by (rule new_children_Cons [OF Cons.prems(1,2,5)])
  ultimately have "entry_at (fold (newFile P) ps ?st) d =
      Some (?e\<lparr>directory_children_count := directory_children_count ?e + of_nat (length ps),
              is_file := (is_file ?e \<and> ps = [])\<rparr>)"
    using Cons.prems by (intro Cons.IH) (simp_all add: count_child_def)
  moreover have "fold (newFile P) (p # ps) st = fold (newFile P) ps ?st"
    by (simp add: newFile_def)
  moreover have "directory_children_count e + 1 + of_nat (length ps) =
      directory_children_count e + of_nat (length (p # ps))"
    by (simp add: add.assoc)
  ultimately show ?case by (simp add: count_child_def del: fold_simps)
qed simp

subsection \<open>The loops over the whole store\<close>

lemma entry_at_setDirectory:
  assumes "known st p" and "p \<noteq> []"
  shows "entry_at (setDirectory P p st) q =
    (if q = p then map_option (\<lambda>e. e\<lparr>is_file := False\<rparr>) (entry_at st q) else entry_at st q)"
  using assms by (simp add: setDirectory_def update_entry_eq newFile_known entry_at_modify)

lemma entry_at_update_known:
  "known st p \<Longrightarrow> p \<noteq> [] \<Longrightarrow>
   entry_at (update_entry P p f st) q = (if q = p then map_option f (entry_at st q) else entry_at st q)"
  by (simp add: update_entry_eq newFile_known entry_at_modify)

text \<open>A loop that writes the same into known entries.\<close>

lemma entry_at_fold_update:
  assumes "list_all (known st) ps" and "\<And>e. f (f e) = f e"
  shows "entry_at (fold (\<lambda>p. update_entry P p f) ps st) q =
    (if q \<in> set ps \<and> q \<noteq> [] then map_option f (entry_at st q) else entry_at st q)"
  using assms(1)
proof (induction ps arbitrary: st)
  case (Cons p ps)
  have step: "entry_at (update_entry P p f st) q =
    (if q = p \<and> p \<noteq> [] then map_option f (entry_at st q) else entry_at st q)" for q
    using Cons.prems by (cases "p = []") (simp_all add: entry_at_update_known)
  have "list_all (known (update_entry P p f st)) ps"
    using Cons.prems by (auto simp: list_all_iff intro: known_update_mono)
  from Cons.IH [OF this] show ?case
    by (auto simp: step option.map_comp comp_def assms(2))
qed simp

lemma entry_at_fold_setDirectory:
  assumes "list_all (known st) ps"
  shows "entry_at (fold (setDirectory P) ps st) q =
    (if q \<in> set ps \<and> q \<noteq> [] then map_option (\<lambda>e. e\<lparr>is_file := False\<rparr>) (entry_at st q)
     else entry_at st q)"
  using entry_at_fold_update [OF assms, of "\<lambda>e. e\<lparr>is_file := False\<rparr>"]
  by (simp add: setDirectory_def [abs_def])

lemma known_getPaths: "known st q \<longleftrightarrow> q \<in> set (getPaths st)"
  by (simp add: known_def getPaths_def um_find_None del: set_map not_None_eq)

lemma wf_fold_setDirectory [simp]: "engine_wf st \<Longrightarrow> engine_wf (fold (setDirectory P) ps st)"
  by (rule fold_invariant) (simp_all add: setDirectory_def)

text \<open>One loop of \<open>setDirectoryFileCount\<close>: every path becomes a directory.\<close>

lemma entry_at_all_directories:
  "entry_at (fold (setDirectory P) (getPaths st) st) q =
    (if q = [] then entry_at st q else map_option (\<lambda>e. e\<lparr>is_file := False\<rparr>) (entry_at st q))"
proof -
  have "list_all (known st) (getPaths st)" by (simp add: known_getPaths list_all_iff)
  from entry_at_fold_setDirectory [OF this] show ?thesis
    by (cases "entry_at st q") (auto simp: known_getPaths [symmetric] known_def)
qed

definition set_count :: "long \<Rightarrow> CapioCLEntry \<Rightarrow> CapioCLEntry" where
  "set_count num e = e\<lparr>directory_children_count := num, enable_directory_count_update := False\<rparr>"

lemma setDirectoryFileCount_known:
  assumes "known st path" and "path \<noteq> []"
  shows "setDirectoryFileCount P path num st =
    modify_at path (set_count num) (fold (setDirectory P) (getPaths st) st)"
proof -
  have "entry_at (fold (setDirectory P) (getPaths st) st) path \<noteq> None"
    using assms(1) by (auto simp: entry_at_all_directories known_def)
  with assms(2) show ?thesis
    by (auto simp: setDirectoryFileCount.simps [of P path num st] set_count_def Let_def
        fun_eq_iff intro!: arg_cong [where f = "\<lambda>f. modify_at path f _"])
qed

lemma setDirectoryFileCount_form:
  assumes "path \<noteq> []" and "engine_wf st"
  shows "\<exists>s. engine_wf s \<and> known s path \<and> (\<forall>q. known st q \<longrightarrow> known s q) \<and>
    setDirectoryFileCount P path num st =
      modify_at path (set_count num) (fold (setDirectory P) (getPaths s) s)"
proof (cases "known st path")
  case True
  with assms setDirectoryFileCount_known show ?thesis by blast
next
  case False
  let ?s1 = "fold (setDirectory P) (getPaths st) st"
  let ?s = "newFile_internal P path ?s1"
  have "entry_at ?s1 path = None"
    using False assms(1) by (simp add: entry_at_all_directories known_def)
  with assms have "setDirectoryFileCount P path num st = setDirectoryFileCount P path num ?s"
    by (simp add: setDirectoryFileCount.simps [of P path num st] Let_def)
  also have "\<dots> = modify_at path (set_count num) (fold (setDirectory P) (getPaths ?s) ?s)"
    using assms by (intro setDirectoryFileCount_known) simp_all
  finally have eq: "setDirectoryFileCount P path num st =
      modify_at path (set_count num) (fold (setDirectory P) (getPaths ?s) ?s)" .
  have "known ?s q" if "known st q" for q
  proof (rule known_newFile_mono)
    show "known ?s1 q" using that by (auto simp: known_def entry_at_all_directories)
  qed
  with eq assms show ?thesis by (intro exI [of _ ?s]) simp
qed

lemma setAllStoreInMemory_writes:
  "setAllStoreInMemory P st =
     fold (\<lambda>(q, w). update_entry P q (\<lambda>e. e\<lparr>store_in_memory := w\<rparr>))
       (map (\<lambda>q. (q, True)) (getPaths st)) (st\<lparr>store_all_in_memory := True\<rparr>)"
  by (simp add: setAllStoreInMemory_def setStoreFileInMemory_def [abs_def] fold_map comp_def
      getPaths_def Let_def)

lemma store_all_modify [simp]: "store_all_in_memory (modify_at p f st) = store_all_in_memory st"
  by (simp add: modify_at_def)

lemma store_all_newFile [simp]:
  "store_all_in_memory (newFile_internal P p st) = store_all_in_memory st"
  by (simp add: newFile_internal_def compute_directory_entry_count_def Let_def split: option.split)

lemma store_all_update [simp]:
  "store_all_in_memory (update_entry P p f st) = store_all_in_memory st"
  by (cases "p = []") (simp_all add: update_entry_eq)

lemma workflow_modify [simp]: "workflow_name (modify_at p f st) = workflow_name st"
  by (simp add: modify_at_def)

lemma workflow_newFile [simp]: "workflow_name (newFile_internal P p st) = workflow_name st"
  by (simp add: newFile_internal_def compute_directory_entry_count_def Let_def split: option.split)

lemma workflow_update [simp]: "workflow_name (update_entry P p f st) = workflow_name st"
  by (cases "p = []") (simp_all add: update_entry_eq)

lemma store_all_set [simp]: "store_all_in_memory (setAllStoreInMemory P st)"
proof -
  have "store_all_in_memory (fold (setStoreFileInMemory P) ps s) = store_all_in_memory s" for ps s
    by (rule fold_unchanged) (simp add: setStoreFileInMemory_def)
  then show ?thesis by (simp add: setAllStoreInMemory_def Let_def)
qed

text \<open>Everything in memory: what \<open>setAllStoreInMemory\<close> establishes and creation keeps.\<close>

definition all_in_memory :: "engine \<Rightarrow> bool" where
  "all_in_memory st \<longleftrightarrow>
     engine_wf st \<and> store_all_in_memory st \<and>
     list_all (\<lambda>(q, e). q \<noteq> [] \<longrightarrow> store_in_memory e) (capio_cl_entries st)"

lemma all_in_memory_iff:
  "all_in_memory st \<longleftrightarrow> engine_wf st \<and> store_all_in_memory st \<and>
     (\<forall>q e. entry_at st q = Some e \<longrightarrow> q \<noteq> [] \<longrightarrow> store_in_memory e)"
  by (auto simp: all_in_memory_def list_all_iff engine_wf_def um_find_set)

lemma all_in_memory_newFile:
  assumes "all_in_memory st"
  shows "all_in_memory (newFile_internal P p st)"
proof (cases "p = [] \<or> known st p")
  case True
  with assms show ?thesis by (auto simp: newFile_known)
next
  case False
  have "store_in_memory (count_if_enabled e) = store_in_memory e" for e
    using same_rules_members [OF same_rules_count [of e]] by simp
  with False assms new_entry_in_memory [of st P p] show ?thesis
    by (auto simp: all_in_memory_iff entry_at_newFile split: if_splits)
qed

lemma known_fold_setStore:
  "list_all (known st) ps \<Longrightarrow> known (fold (setStoreFileInMemory P) ps st) k = known st k"
proof (induction ps arbitrary: st)
  case (Cons p ps)
  have step: "known (setStoreFileInMemory P p st) j = known st j" for j
    using Cons.prems by (cases "p = []")
      (auto simp: setStoreFileInMemory_def update_entry_eq newFile_known known_def entry_at_modify)
  show ?case
    using Cons.IH [of "setStoreFileInMemory P p st"] Cons.prems by (simp add: step list_all_iff)
qed simp

lemma known_setAllStoreInMemory: "known (setAllStoreInMemory P st) k = known st k"
proof -
  have "list_all (known (st\<lparr>store_all_in_memory := True\<rparr>)) (getPaths (st\<lparr>store_all_in_memory := True\<rparr>))"
    by (simp add: known_getPaths list_all_iff)
  from known_fold_setStore [OF this] show ?thesis
    by (simp add: setAllStoreInMemory_def Let_def) (simp add: known_def)
qed

lemma all_in_memory_set:
  assumes "engine_wf st"
  shows "all_in_memory (setAllStoreInMemory P st)"
proof -
  let ?init = "st\<lparr>store_all_in_memory := True\<rparr>" and ?ws = "map (\<lambda>q. (q, True)) (getPaths st)"
  let ?s = "setAllStoreInMemory P st"
  have wf0: "engine_wf ?init" using assms by (simp add: engine_wf_def)
  have wf: "engine_wf ?s"
    unfolding setAllStoreInMemory_writes by (rule mem_memory.attr.ok_writes [OF wf0])
  have "store_in_memory e" if e: "entry_at ?s q = Some e" and q: "q \<noteq> []" for q e
  proof -
    have k: "known ?s q" using e by (simp add: known_def)
    have "known st q" using k by (simp add: known_setAllStoreInMemory)
    then have mem: "q \<in> fst ` set ?ws" by (simp add: known_getPaths image_image)
    have "map_of (rev ?ws) q = Some True"
      using mem by (auto simp: map_of_eq_Some_iff rev_map map_of_map_restrict)
    with mem_memory.attr.read_writes [OF wf0 q disjI2 [OF mem], of P undefined]
    have "fst (read_entry P q undefined store_in_memory ?s)"
      by (simp add: setAllStoreInMemory_writes)
    with k q e show ?thesis by (simp add: read_known)
  qed
  with wf show ?thesis by (auto simp: all_in_memory_iff)
qed

end
