(* ===== verification/CL_Session.thy ===== *)
theory CL_Session
  imports CL_Creation
begin

text \<open>
  The public interface of \<open>Engine\<close> as a language of calls, and the engines a sequence of calls can
  reach. \<open>exec\<close> is one call with its result and the engine it leaves, or the exception it throws;
  \<open>run_calls\<close> is a client that catches the exceptions and goes on. The calls that go to the
  monitor, the configuration and the API server are in the theories of those components.

  An invariant of the entries is stated through a locale: what has to be shown of the entry alone
  (\<open>entry_invariant\<close>), and what then holds of every entry of every reachable engine.
\<close>

datatype (plugins only: code size) call =
    Contains string
  | SizeOf
  | AddRule string "string list" "string list" string string bool bool "string list"
  | AddEntry string CapioCLEntry
  | AddProducer string string
  | AddConsumer string string
  | AddFileDependency string string
  | NewFile string
  | Remove string
  | SetCommitRule string string
  | SetFireRule string string
  | SetPermanent string bool
  | SetExclude string bool
  | SetDirectory string
  | SetFile string
  | SetCommitedCloseNumber string long
  | SetDirectoryFileCount string long
  | SetFileDeps string "string list"
  | SetStoreFileInMemory string
  | SetAllStoreInMemory
  | SetStoreFileInFileSystem string
  | SetWorkflowName string
  | GetDirectoryFileCount string
  | GetCommitRule string
  | GetFireRule string
  | GetProducers string
  | GetConsumers string
  | GetCommitCloseCount string
  | GetCommitOnFileDependencies string
  | GetFileToStoreInMemory
  | GetWorkflowName
  | IsProducer string string
  | IsConsumer string string
  | IsFirable string
  | IsFile string
  | IsExcluded string
  | IsDirectory string
  | IsStoredInMemory string
  | IsPermanent string
  | GetPaths

datatype answer =
    Done
  | TheBool bool
  | TheLong long
  | TheSize nat
  | TheString string
  | TheStrings "string list"

definition finish :: "engine \<Rightarrow> exn + answer \<times> engine" where
  "finish st = Inr (Done, st)"

definition answers :: "('a \<Rightarrow> answer) \<Rightarrow> 'a \<times> engine \<Rightarrow> exn + answer \<times> engine" where
  "answers mk r = Inr (mk (fst r), snd r)"

primrec exec :: "platform \<Rightarrow> call \<Rightarrow> engine \<Rightarrow> exn + answer \<times> engine" where
  "exec P (Contains path) st = Inr (TheBool (contains P path st), st)"
| "exec P SizeOf st = Inr (TheSize (engine_size st), st)"
| "exec P (AddRule path ps cs commit fire perm excl deps) st =
     finish (add_rule P path ps cs commit fire perm excl deps st)"
| "exec P (AddEntry path e) st = finish (add_entry P path e st)"
| "exec P (AddProducer path p) st = answers TheString (addProducer P path p st)"
| "exec P (AddConsumer path c) st = answers TheString (addConsumer P path c st)"
| "exec P (AddFileDependency path d) st = rbind (addFileDependency P path d st) finish"
| "exec P (NewFile path) st = finish (newFile P path st)"
| "exec P (Remove path) st = finish (remove_path path st)"
| "exec P (SetCommitRule path r) st = rbind (setCommitRule P path r st) finish"
| "exec P (SetFireRule path r) st = rbind (setFireRule P path r st) finish"
| "exec P (SetPermanent path b) st = finish (setPermanent P path b st)"
| "exec P (SetExclude path b) st = finish (setExclude P path b st)"
| "exec P (SetDirectory path) st = finish (setDirectory P path st)"
| "exec P (SetFile path) st = finish (setFile P path st)"
| "exec P (SetCommitedCloseNumber path n) st = finish (setCommitedCloseNumber P path n st)"
| "exec P (SetDirectoryFileCount path n) st = finish (setDirectoryFileCount P path n st)"
| "exec P (SetFileDeps path ds) st = finish (setFileDeps P path ds st)"
| "exec P (SetStoreFileInMemory path) st = finish (setStoreFileInMemory P path st)"
| "exec P SetAllStoreInMemory st = finish (setAllStoreInMemory P st)"
| "exec P (SetStoreFileInFileSystem path) st = finish (setStoreFileInFileSystem P path st)"
| "exec P (SetWorkflowName name) st = finish (setWorkflowName name st)"
| "exec P (GetDirectoryFileCount path) st = answers TheLong (getDirectoryFileCount P path st)"
| "exec P (GetCommitRule path) st = answers TheString (getCommitRule P path st)"
| "exec P (GetFireRule path) st = answers TheString (getFireRule P path st)"
| "exec P (GetProducers path) st = answers TheStrings (getProducers P path st)"
| "exec P (GetConsumers path) st = Inr (TheStrings (getConsumers path st), st)"
| "exec P (GetCommitCloseCount path) st = answers TheLong (getCommitCloseCount P path st)"
| "exec P (GetCommitOnFileDependencies path) st =
     Inr (TheStrings (getCommitOnFileDependencies path st), st)"
| "exec P GetFileToStoreInMemory st = Inr (TheStrings (getFileToStoreInMemory st), st)"
| "exec P GetWorkflowName st = Inr (TheString (getWorkflowName st), st)"
| "exec P (IsProducer path app) st = answers TheBool (isProducer P path app st)"
| "exec P (IsConsumer path app) st = answers TheBool (isConsumer P path app st)"
| "exec P (IsFirable path) st = answers TheBool (isFirable P path st)"
| "exec P (IsFile path) st = answers TheBool (isFile P path st)"
| "exec P (IsExcluded path) st = answers TheBool (isExcluded P path st)"
| "exec P (IsDirectory path) st = answers TheBool (isDirectory P path st)"
| "exec P (IsStoredInMemory path) st = answers TheBool (isStoredInMemory P path st)"
| "exec P (IsPermanent path) st = answers TheBool (isPermanent P path st)"
| "exec P GetPaths st = Inr (TheStrings (getPaths st), st)"

text \<open>
  An exception leaves the engine as it was: the rules are checked before anything is written
  (\<open>exec_error_iff\<close> says which calls throw).
\<close>

definition after_call :: "platform \<Rightarrow> call \<Rightarrow> engine \<Rightarrow> engine" where
  "after_call P c st = (case exec P c st of Inl _ \<Rightarrow> st | Inr (_, st') \<Rightarrow> st')"

definition run_calls :: "platform \<Rightarrow> call list \<Rightarrow> engine \<Rightarrow> engine" where
  "run_calls P cs st = fold (after_call P) cs st"

inductive engine_step :: "platform \<Rightarrow> engine \<Rightarrow> call \<Rightarrow> engine \<Rightarrow> bool" for P where
  returns: "exec P c st = Inr (a, st') \<Longrightarrow> engine_step P st c st'"
| throws: "exec P c st = Inl ex \<Longrightarrow> engine_step P st c st"

inductive reachable :: "platform \<Rightarrow> call list \<Rightarrow> engine \<Rightarrow> bool" for P where
  fresh: "reachable P [] (new_engine P)"
| later: "reachable P cs st \<Longrightarrow> engine_step P st c st' \<Longrightarrow> reachable P (cs @ [c]) st'"

inductive_simps engine_step_iff: "engine_step P st c st'"

inductive_cases reachable_NilE: "reachable P [] st"
inductive_cases reachable_snocE: "reachable P (cs @ [c]) st"

lemma engine_step_after: "engine_step P st c st' \<longleftrightarrow> st' = after_call P c st"
  by (auto simp: engine_step_iff after_call_def split: sum.split)

lemma reachable_run: "reachable P cs st \<longleftrightarrow> st = run_calls P cs (new_engine P)"
proof (induction cs arbitrary: st rule: rev_induct)
  case Nil
  show ?case by (auto simp: run_calls_def intro: reachable.fresh elim: reachable_NilE)
next
  case (snoc c cs)
  show ?case
    by (auto simp: snoc.IH engine_step_after run_calls_def intro: reachable.later elim!: reachable_snocE)
qed

lemma run_calls_append: "run_calls P (cs @ ds) st = run_calls P ds (run_calls P cs st)"
  by (simp add: run_calls_def)

subsection \<open>Which calls throw\<close>

lemma addFileDependency_eq:
  "addFileDependency P path d st =
     (if path = [] then Inr st
      else Inr (modify_at path (\<lambda>e. e\<lparr>file_dependencies := push_new path_eq d (file_dependencies e)\<rparr>)
             (if known st path then st
              else update_entry P path (\<lambda>e. e\<lparr>commit_rule := ON_FILE\<rparr>) (newFile_internal P path st))))"
proof (cases "path = [] \<or> known st path")
  case True
  then show ?thesis by (auto simp: addFileDependency.simps [of P path d st] known_def)
next
  case False
  let ?s = "update_entry P path (\<lambda>e. e\<lparr>commit_rule := ON_FILE\<rparr>) (newFile_internal P path st)"
  have "ON_FILE \<in> set commit_rules" by (simp add: rule_members)
  then have "setCommitRule P path ON_FILE (newFile P path st) = Inr ?s"
    using False by (simp add: setCommitRule_eq sanitize_commit_cases newFile_def)
  moreover obtain e where "entry_at ?s path = Some e"
    using False update_entry_present [of path P] by blast
  ultimately show ?thesis
    using False by (simp add: addFileDependency.simps [of P path d st] known_def
        addFileDependency.simps [of P path d ?s])
qed

lemma addFileDependency_never_throws: "addFileDependency P path d st \<noteq> Inl ex"
  by (simp add: addFileDependency_eq)

lemma setCommitRule_Inl_iff:
  "setCommitRule P path r st = Inl ex \<longleftrightarrow>
     path \<noteq> [] \<and> r \<notin> set commit_rules \<and> sanitize_commit r = Inl ex"
  by (auto simp: setCommitRule_eq sanitize_commit_cases)

lemma setFireRule_Inl_iff:
  "setFireRule P path r st = Inl ex \<longleftrightarrow>
     path \<noteq> [] \<and> r \<notin> set fire_rules \<and> sanitize_fire r = Inl ex"
  by (auto simp: setFireRule_eq sanitize_fire_cases)

text \<open>The calls whose rule argument the engine refuses.\<close>

definition refused :: "call \<Rightarrow> bool" where
  "refused c =
     (case c of
        SetCommitRule path r \<Rightarrow> path \<noteq> [] \<and> r \<notin> set commit_rules
      | SetFireRule path r \<Rightarrow> path \<noteq> [] \<and> r \<notin> set fire_rules
      | _ \<Rightarrow> False)"

lemma rbind_done_Inl [simp]: "rbind m finish = Inl ex \<longleftrightarrow> m = Inl ex"
  by (cases m) (simp_all add: finish_def)

lemma exec_error_iff: "(\<exists>ex. exec P c st = Inl ex) \<longleftrightarrow> refused c"
  by (cases c) (auto simp: refused_def finish_def answers_def addFileDependency_never_throws setCommitRule_Inl_iff
      setFireRule_Inl_iff sanitize_commit_cases sanitize_fire_cases)

subsection \<open>The operation that registers dependencies\<close>

lemma known_fold_newFile:
  "known st q \<or> (q \<noteq> [] \<and> q \<in> set ds) \<Longrightarrow> known (fold (newFile P) ds st) q"
proof (induction ds arbitrary: st)
  case (Cons d ds)
  then show ?case
    using known_newFile [of q P st] known_newFile_mono [of st q P d] by (auto simp: newFile_def)
qed simp

text \<open>With the path known after the dependencies are registered, the first round is the last.\<close>

lemma fold_newFile_known:
  "list_all (\<lambda>d. d = [] \<or> known st d) ds \<Longrightarrow> fold (newFile P) ds st = st"
  by (induction ds) (auto simp: newFile_def newFile_known)

lemma setFileDeps_eq:
  assumes "path \<noteq> []" and "ds \<noteq> []"
  shows "setFileDeps P path ds st =
    modify_at path (\<lambda>e. e\<lparr>file_dependencies := ds\<rparr>)
      (newFile_internal P path (fold (newFile P) ds st))"
proof (cases "known (fold (newFile P) ds st) path")
  case True
  with assms show ?thesis
    by (auto simp: setFileDeps.simps [of P path ds st] known_def Let_def newFile_existing)
next
  case False
  let ?s = "newFile_internal P path (fold (newFile P) ds st)"
  have "list_all (\<lambda>d. d = [] \<or> known ?s d) ds"
    by (auto simp: list_all_iff intro!: known_newFile_mono known_fold_newFile)
  then have "fold (newFile P) ds ?s = ?s" by (rule fold_newFile_known)
  moreover obtain e where "entry_at ?s path = Some e"
    using newFile_present [OF assms(1)] by blast
  ultimately have "setFileDeps P path ds ?s = modify_at path (\<lambda>e. e\<lparr>file_dependencies := ds\<rparr>) ?s"
    using assms by (simp add: setFileDeps.simps [of P path ds ?s])
  with False assms show ?thesis
    by (simp add: setFileDeps.simps [of P path ds st] known_def Let_def)
qed

subsection \<open>Invariants of the entries\<close>

text \<open>The members an invariant may speak of; the other ones change freely.\<close>

definition core :: "CapioCLEntry \<Rightarrow> string list \<times> string list \<times> string \<times> string" where
  "core e = (producers e, consumers e, commit_rule e, fire_rule e)"

definition all_entries :: "(CapioCLEntry \<Rightarrow> bool) \<Rightarrow> engine \<Rightarrow> bool" where
  "all_entries I st \<longleftrightarrow> engine_wf st \<and> list_all (\<lambda>(_, e). I e) (capio_cl_entries st)"

text \<open>What the two \<open>add\<close> operations, which take an entry as the caller made it, have to be given.\<close>

definition supplied :: "(CapioCLEntry \<Rightarrow> bool) \<Rightarrow> call \<Rightarrow> bool" where
  "supplied I c =
     (case c of
        AddRule path ps cs commit fire perm excl deps \<Rightarrow>
          I (default_entry\<lparr>producers := ps, consumers := cs, commit_rule := commit, fire_rule := fire\<rparr>)
      | AddEntry path e \<Rightarrow> I e
      | _ \<Rightarrow> True)"

definition merges :: "call \<Rightarrow> bool" where
  "merges c = (case c of AddEntry _ _ \<Rightarrow> True | _ \<Rightarrow> False)"

lemma all_entries_iff:
  "all_entries I st \<longleftrightarrow> engine_wf st \<and> (\<forall>q e. entry_at st q = Some e \<longrightarrow> I e)"
  by (auto simp: all_entries_def list_all_iff engine_wf_def um_find_set)

lemma all_entries_wf: "all_entries I st \<Longrightarrow> engine_wf st"
  by (simp add: all_entries_def)

locale entry_invariant =
  fixes I :: "CapioCLEntry \<Rightarrow> bool"
  assumes I_core: "core e = core e' \<Longrightarrow> I e \<longleftrightarrow> I e'"
    and I_default: "I default_entry"
    and I_producer: "I e \<Longrightarrow> I (e\<lparr>producers := push_new (=) (erase_spaces p) (producers e)\<rparr>)"
    and I_consumer: "I e \<Longrightarrow> I (e\<lparr>consumers := push_new (=) (erase_spaces p) (consumers e)\<rparr>)"
    and I_commit: "I e \<Longrightarrow> r \<in> set commit_rules \<Longrightarrow> I (e\<lparr>commit_rule := r\<rparr>)"
    and I_fire: "I e \<Longrightarrow> r \<in> set fire_rules \<Longrightarrow> I (e\<lparr>fire_rule := r\<rparr>)"
begin

lemma I_others [simp]:
  "I (e\<lparr>file_dependencies := ds\<rparr>) = I e" "I (e\<lparr>directory_children_count := n\<rparr>) = I e"
  "I (e\<lparr>commit_on_close_count := n\<rparr>) = I e" "I (e\<lparr>enable_directory_count_update := b\<rparr>) = I e"
  "I (e\<lparr>store_in_memory := b\<rparr>) = I e" "I (e\<lparr>permanent := b\<rparr>) = I e"
  "I (e\<lparr>excluded := b\<rparr>) = I e" "I (e\<lparr>is_file := b\<rparr>) = I e"
  by (rule I_core; simp add: core_def)+

lemma I_count [simp]: "I (count_if_enabled e) = I e"
  by (rule I_core) (simp add: core_def count_if_enabled_def count_child_def)

lemma inv_new_engine: "all_entries I (new_engine P)"
  by (simp add: all_entries_def new_engine_def engine_wf_def)

lemma I_new_entry: "all_entries I st \<Longrightarrow> I (new_entry P p st)"
  by (rule new_entry_cases [of st P p]) (auto simp: all_entries_iff I_default)

lemma inv_newFile [simp, intro]: 
  assumes "all_entries I st"
  shows "all_entries I (newFile_internal P p st)"
proof (cases "p = [] \<or> known st p")
  case True
  with assms show ?thesis by (auto simp: newFile_known)
next
  case False
  with assms I_new_entry [OF assms, of P p] show ?thesis
    by (auto simp: all_entries_iff entry_at_newFile split: if_splits)
qed

lemma inv_modify: "all_entries I st \<Longrightarrow> (\<And>e. I e \<Longrightarrow> I (f e)) \<Longrightarrow> all_entries I (modify_at p f st)"
  by (auto simp: all_entries_iff entry_at_modify split: if_splits)

lemma inv_update: "all_entries I st \<Longrightarrow> (\<And>e. I e \<Longrightarrow> I (f e)) \<Longrightarrow> all_entries I (update_entry P p f st)"
  by (cases "p = []") (simp_all add: update_entry_eq inv_modify inv_newFile)

lemma inv_read: "all_entries I st \<Longrightarrow> all_entries I (snd (read_entry P p d sel st))"
  by (cases "p = []") (simp_all add: read_entry_eq inv_newFile)

lemma inv_setDirectory: "all_entries I st \<Longrightarrow> all_entries I (setDirectory P p st)"
  by (simp add: setDirectory_def inv_update)

lemma inv_loops:
  "all_entries I st \<Longrightarrow> all_entries I (fold (newFile P) ps st)"
  "all_entries I st \<Longrightarrow> all_entries I (fold (setDirectory P) ps st)"
  "all_entries I st \<Longrightarrow> all_entries I (fold (setStoreFileInMemory P) ps st)"
  by (rule fold_invariant; simp add: newFile_def inv_setDirectory setStoreFileInMemory_def inv_update)+

lemma inv_setFileDeps: "all_entries I st \<Longrightarrow> all_entries I (setFileDeps P p ds st)"
proof (cases "p = [] \<or> ds = []")
  case True
  then show "all_entries I st \<Longrightarrow> all_entries I (setFileDeps P p ds st)"
    by (auto simp: setFileDeps.simps [of P p ds st])
qed (auto simp: setFileDeps_eq inv_loops intro!: inv_modify)

lemma inv_setDirectoryFileCount:
  assumes "all_entries I st"
  shows "all_entries I (setDirectoryFileCount P p n st)"
  using assms
proof (induction P p n st rule: setDirectoryFileCount.induct)
  case (1 P p n st)
  show ?case
  proof (cases "p = []")
    case False
    let ?s = "fold (setDirectory P) (getPaths st) st"
    have inv: "all_entries I ?s" by (rule inv_loops(2) [OF "1.prems"])
    show ?thesis
    proof (cases "entry_at ?s p")
      case None
      with 1 inv False show ?thesis
        by (simp add: setDirectoryFileCount.simps [of P p n st] Let_def inv_newFile)
    next
      case (Some e)
      with inv False show ?thesis
        by (auto simp: setDirectoryFileCount.simps [of P p n st] Let_def intro!: inv_modify)
    qed
  qed (use "1.prems" in \<open>simp add: setDirectoryFileCount.simps [of P "[]"]\<close>)
qed

lemma inv_addFileDependency:
  "addFileDependency P p d st = Inr st' \<Longrightarrow> all_entries I st \<Longrightarrow> all_entries I st'"
  by (auto simp: addFileDependency_eq rule_members intro!: inv_modify inv_update I_commit inv_newFile
      split: if_splits)

lemma inv_setRule:
  "setCommitRule P p r st = Inr st' \<Longrightarrow> all_entries I st \<Longrightarrow> all_entries I st'"
  "setFireRule P p r st = Inr st' \<Longrightarrow> all_entries I st \<Longrightarrow> all_entries I st'"
  by (auto simp: setCommitRule_eq setFireRule_eq sanitize_commit_cases sanitize_fire_cases rbind_Inr_iff
      intro!: inv_update I_commit I_fire split: if_splits)

lemma inv_addProducer: "all_entries I st \<Longrightarrow> all_entries I (snd (addProducer P p n st))"
  by (simp add: addProducer_eq inv_update I_producer)

lemma inv_addConsumer: "all_entries I st \<Longrightarrow> all_entries I (snd (addConsumer P p n st))"
  by (simp add: addConsumer_eq inv_update I_consumer)

lemma inv_remove: "all_entries I st \<Longrightarrow> all_entries I (remove_path p st)"
  by (auto simp: remove_path_def all_entries_iff engine_wf_def um.valid_erase um.find_erase split: if_splits)

lemma inv_add_rule:
  assumes "all_entries I st"
    and "I (default_entry\<lparr>producers := ps, consumers := cs, commit_rule := commit, fire_rule := fire\<rparr>)"
  shows "all_entries I (add_rule P p ps cs commit fire perm excl deps st)"
proof -
  have "I (e\<lparr>producers := ps, consumers := cs, commit_rule := commit, fire_rule := fire,
           permanent := perm, excluded := excl, file_dependencies := deps\<rparr>)" for e
    using assms(2) by (rule I_core [THEN iffD1, rotated]) (simp add: core_def)
  with assms(1) show ?thesis by (auto simp: add_rule_def intro!: inv_modify inv_newFile)
qed

lemma inv_add_entry:
  assumes "all_entries I st" and "I e" and "\<And>a. I a \<Longrightarrow> I (entry_merge a e)"
  shows "all_entries I (add_entry P p e st)"
proof (cases "entry_at st p")
  case None
  with assms show ?thesis
    by (auto simp: add_entry_def all_entries_iff engine_wf_def um_wf_emplace um_find_emplace)
next
  case (Some e')
  with assms show ?thesis by (auto simp: add_entry_def intro!: inv_modify)
qed

lemma inv_queries:
  "all_entries I st \<Longrightarrow> all_entries I (snd (isProducer P p n st))"
  "all_entries I st \<Longrightarrow> all_entries I (snd (isConsumer P p n st))"
  "all_entries I st \<Longrightarrow> all_entries I (snd (isFile P p st))"
  "all_entries I st \<Longrightarrow> all_entries I (snd (isDirectory P p st))"
  "all_entries I st \<Longrightarrow> all_entries I (snd (isPermanent P p st))"
  "all_entries I st \<Longrightarrow> all_entries I (snd (isExcluded P p st))"
  "all_entries I st \<Longrightarrow> all_entries I (snd (isFirable P p st))"
  "all_entries I st \<Longrightarrow> all_entries I (snd (isStoredInMemory P p st))"
  "all_entries I st \<Longrightarrow> all_entries I (snd (getProducers P p st))"
  "all_entries I st \<Longrightarrow> all_entries I (snd (getCommitRule P p st))"
  "all_entries I st \<Longrightarrow> all_entries I (snd (getFireRule P p st))"
  "all_entries I st \<Longrightarrow> all_entries I (snd (getCommitCloseCount P p st))"
  "all_entries I st \<Longrightarrow> all_entries I (snd (getDirectoryFileCount P p st))"
  by (auto simp: isProducer_def isConsumer_def isFile_def isDirectory_def isPermanent_def isExcluded_def
      isFirable_def isStoredInMemory_def getProducers_def getCommitRule_def getFireRule_def
      getCommitCloseCount_def getDirectoryFileCount_def case_prod_beta Let_def
      intro: inv_read inv_newFile split: option.split)

lemmas inv_calls = inv_newFile inv_queries inv_add_rule inv_remove inv_addProducer inv_addConsumer
  inv_setFileDeps inv_setDirectoryFileCount inv_setDirectory

lemma inv_setters:
  "all_entries I st \<Longrightarrow> all_entries I (setPermanent P p b st)"
  "all_entries I st \<Longrightarrow> all_entries I (setExclude P p b st)"
  "all_entries I st \<Longrightarrow> all_entries I (setFile P p st)"
  "all_entries I st \<Longrightarrow> all_entries I (setCommitedCloseNumber P p n st)"
  "all_entries I st \<Longrightarrow> all_entries I (setStoreFileInMemory P p st)"
  "all_entries I st \<Longrightarrow> all_entries I (setStoreFileInFileSystem P p st)"
  by (simp_all add: setPermanent_def setExclude_def setFile_def setCommitedCloseNumber_def
      setStoreFileInMemory_def setStoreFileInFileSystem_def inv_update)

lemma inv_globals:
  "all_entries I st \<Longrightarrow> all_entries I (setWorkflowName n st)"
  "all_entries I st \<Longrightarrow> all_entries I (setAllStoreInMemory P st)"
  by (auto simp: setWorkflowName_def setAllStoreInMemory_def Let_def all_entries_def engine_wf_def
      intro!: inv_loops(3) [unfolded all_entries_def engine_wf_def])

text \<open>One call, then any sequence of them.\<close>

lemma inv_after_call:
  assumes inv: "all_entries I st" and sup: "supplied I c"
    and merge: "\<And>a b. merges c \<Longrightarrow> I a \<Longrightarrow> I b \<Longrightarrow> I (entry_merge a b)"
  shows "all_entries I (after_call P c st)"
proof (cases "exec P c st")
  case (Inr r)
  obtain a st' where r: "r = (a, st')" by (cases r)
  have "all_entries I st'"
    using Inr inv sup merge unfolding r
    by (cases c) (auto simp: finish_def answers_def supplied_def merges_def newFile_def rbind_Inr_iff
        inv_calls inv_setters inv_globals inv_add_entry dest: inv_addFileDependency inv_setRule)
  with Inr r show ?thesis by (simp add: after_call_def)
qed (simp add: after_call_def inv)

lemma inv_run_calls:
  assumes "all_entries I st" and "list_all (supplied I) cs"
    and "\<And>a b. list_ex merges cs \<Longrightarrow> I a \<Longrightarrow> I b \<Longrightarrow> I (entry_merge a b)"
  shows "all_entries I (run_calls P cs st)"
  unfolding run_calls_def
proof (rule fold_invariant [where I = "all_entries I", OF assms(1)])
  fix c s assume c: "c \<in> set cs" and s: "all_entries I s"
  from s show "all_entries I (after_call P c s)"
  proof (rule inv_after_call)
    show "supplied I c" using assms(2) c by (simp add: list_all_iff)
    show "I (entry_merge a b)" if "merges c" "I a" "I b" for a b
      using assms(3) c that by (auto simp: list_ex_iff)
  qed
qed

end

interpretation rules_valid: entry_invariant entry_rules_valid
  by unfold_locales (auto simp: entry_rules_valid_def core_def rule_members default_entry_def)

interpretation names_distinct: entry_invariant entry_distinct
  by unfold_locales (auto simp: entry_distinct_def core_def default_entry_def)

text \<open>No application name contains white space.\<close>

definition entry_names_clean :: "CapioCLEntry \<Rightarrow> bool" where
  "entry_names_clean e \<longleftrightarrow>
     list_all (\<lambda>n. list_all (\<lambda>c. \<not> is_space c) n) (producers e @ consumers e)"

lemma erase_spaces_clean [simp]: "list_all (\<lambda>c. \<not> is_space c) (erase_spaces s)"
  by (simp add: erase_spaces_def list_all_iff)

interpretation names_clean: entry_invariant entry_names_clean
  by unfold_locales (auto simp: entry_names_clean_def core_def default_entry_def list_all_iff
      simp del: erase_spaces_clean dest: erase_spaces_clean [unfolded list_all_iff, rule_format])

subsection \<open>Rules written and read through the session\<close>

text \<open>A client that sets rules one after another, catching the exceptions.\<close>

lemma after_SetCommitRule:
  "after_call P (SetCommitRule p r) st =
     (if r \<in> set commit_rules then update_entry P p (\<lambda>e. e\<lparr>commit_rule := r\<rparr>) st else st)"
  by (auto simp: after_call_def setCommitRule_eq sanitize_commit_cases finish_def)

lemma after_SetFireRule:
  "after_call P (SetFireRule p r) st =
     (if r \<in> set fire_rules then update_entry P p (\<lambda>e. e\<lparr>fire_rule := r\<rparr>) st else st)"
  by (auto simp: after_call_def setFireRule_eq sanitize_fire_cases finish_def)

lemma run_SetCommitRule:
  "run_calls P (map (\<lambda>(q, r). SetCommitRule q r) ws) st =
     mem_commit_rule.attr.writes P (filter (\<lambda>(q, r). r \<in> set commit_rules) ws) st"
  unfolding run_calls_def by (induction ws arbitrary: st) (auto simp: after_SetCommitRule)

lemma run_SetFireRule:
  "run_calls P (map (\<lambda>(q, r). SetFireRule q r) ws) st =
     mem_fire_rule.attr.writes P (filter (\<lambda>(q, r). r \<in> set fire_rules) ws) st"
  unfolding run_calls_def by (induction ws arbitrary: st) (auto simp: after_SetFireRule)

lemma wf_run_calls:
  assumes "engine_wf st"
  shows "engine_wf (run_calls P cs st)"
proof -
  have "entry_invariant (\<lambda>_. True)" by unfold_locales auto
  from entry_invariant.inv_run_calls [OF this, of st cs P] assms show ?thesis
    by (auto simp: all_entries_def list_all_iff supplied_def split: call.split)
qed

lemma wf_reachable: "reachable P cs st \<Longrightarrow> engine_wf st"
  by (simp add: reachable_run wf_run_calls)

subsection \<open>Comparing engines\<close>

lemma engine_eq_items:
  "engine_eq a b \<longleftrightarrow> length (getPaths a) = length (getPaths b) \<and>
     (\<forall>(q, x) \<in> set (capio_cl_entries a). \<exists>y. entry_at b q = Some y \<and> entry_eq x y)"
  by (auto simp: engine_eq_def getPaths_def list_all_iff entry_neq_def split: option.splits)

lemma items_entry_at:
  "engine_wf st \<Longrightarrow> (\<forall>(q, x) \<in> set (capio_cl_entries st). R q x) \<longleftrightarrow> (\<forall>q x. entry_at st q = Some x \<longrightarrow> R q x)"
  by (auto simp: engine_wf_def um_find_set)

lemma length_getPaths: "engine_wf st \<Longrightarrow> length (getPaths st) = card {q. known st q}"
  using distinct_card [of "getPaths st"] by (simp add: known_getPaths engine_wf_def um_wf_def getPaths_def)

lemma finite_known [simp]: "finite {q. known st q}"
  by (simp add: known_getPaths)

lemma engine_eq_iff:
  assumes "engine_wf a" and "engine_wf b"
  shows "engine_eq a b \<longleftrightarrow>
    {q. known a q} = {q. known b q} \<and>
    (\<forall>q x y. entry_at a q = Some x \<longrightarrow> entry_at b q = Some y \<longrightarrow> entry_eq x y)"
    (is "_ \<longleftrightarrow> ?A = ?B \<and> ?vals")
proof -
  have eq: "engine_eq a b \<longleftrightarrow> card ?A = card ?B \<and>
      (\<forall>q x. entry_at a q = Some x \<longrightarrow> (\<exists>y. entry_at b q = Some y \<and> entry_eq x y))"
    using assms by (simp add: engine_eq_items items_entry_at length_getPaths)
  show ?thesis
  proof
    assume "engine_eq a b"
    with eq have card: "card ?A = card ?B"
      and item: "\<And>q x. entry_at a q = Some x \<Longrightarrow> \<exists>y. entry_at b q = Some y \<and> entry_eq x y" by auto
    have "?A \<subseteq> ?B"
    proof
      fix q assume "q \<in> ?A"
      then obtain x where "entry_at a q = Some x" by (auto simp: known_def)
      with item show "q \<in> ?B" by (auto simp: known_def)
    qed
    with card have "?A = ?B" by (simp add: card_subset_eq)
    with item show "?A = ?B \<and> ?vals" by fastforce
  next
    assume kv: "?A = ?B \<and> ?vals"
    have "\<exists>y. entry_at b q = Some y \<and> entry_eq x y" if x: "entry_at a q = Some x" for q x
    proof -
      have "q \<in> ?A" using x by (simp add: known_def)
      with kv have "known b q" by auto
      then obtain y where "entry_at b q = Some y" by (auto simp: known_def)
      with kv x show ?thesis by blast
    qed
    with kv eq show "engine_eq a b" by auto
  qed
qed

end
