(* ===== verification/CL_Engine_Spec.thy ===== *)
theory CL_Engine_Spec
  imports CL_Session
begin

text \<open>
  The properties of the engine, each with an example on which it says something. The examples use
  \<open>glob\<close>, the part of \<open>fnmatch\<close> they need (literals, \<open>?\<close> and \<open>*\<close>, which also matches a slash since
  \<open>FNM_PATHNAME\<close> is not set); the properties hold of every \<open>fnmatch\<close>.
\<close>

fun glob :: "string \<Rightarrow> string \<Rightarrow> bool" where
  "glob [] s \<longleftrightarrow> s = []"
| "glob (c # p) [] \<longleftrightarrow> c = CHR ''*'' \<and> glob p []"
| "glob (c # p) (d # s) \<longleftrightarrow>
     (if c = CHR ''*'' then glob p (d # s) \<or> glob (c # p) s
      else (c = CHR ''?'' \<or> c = d) \<and> glob p s)"

definition demo :: platform where
  "demo = \<lparr>fnmatch = glob, bucket_rank = (\<lambda>_ _. 0), hostname = ''node'', env_workflow_name = None\<rparr>"

text \<open>The same system with a hash function that puts one key last.\<close>

definition demo_rev :: platform where
  "demo_rev = demo\<lparr>bucket_rank := (\<lambda>_ k. if k = ''/d/*b'' then 1 else 0)\<rparr>"

definition demo_store :: engine where
  "demo_store = run_calls demo [SetPermanent ''/d/*'' True, NewFile ''/d'', AddProducer ''/d/*'' ''app''] (new_engine demo)"

lemma demo_wf [simp]: "engine_wf demo_store"
  by code_simp

subsection \<open>A new path takes the rules of its longest match\<close>

lemma newFile_new_entry:
  assumes "engine_wf st" and "path \<noteq> []" and "\<not> known st path" and "parent_path path \<noteq> path"
  shows "entry_at (newFile P path st) path = Some (new_entry P path st)"
  using entry_at_newFile_self [OF assms] by (simp add: newFile_def)

text \<open>
  C1. Creating a path copies the entry of the longest key that matches the path as a pattern,
  all members included; only the memory flag is raised when the engine stores everything in memory.
\<close>

theorem newFile_longest_match:
  assumes "engine_wf st" and "path \<noteq> []" and "\<not> known st path" and "parent_path path \<noteq> path"
    and "entry_at st key = Some data" and "key \<noteq> []" and "fnmatch P key path"
    and "\<forall>other. known st other \<and> fnmatch P other path \<and> other \<noteq> key \<longrightarrow> length other < length key"
  shows "entry_at (newFile P path st) path =
    Some (data\<lparr>store_in_memory := store_all_in_memory st \<or> store_in_memory data\<rparr>)"
proof -
  let ?m = "capio_cl_entries st"
  have key: "key \<in> matching P path ?m"
    using assms(5,7) by (simp add: matching_def um.key_iff)
  moreover have "length other < length key" if "other \<in> matching P path ?m" "other \<noteq> key" for other
    using assms(8) that by (simp add: matching_def um.key_iff known_def)
  ultimately have "longest_match P path ?m = (key, length key)"
    using longest_match_cases [of P path ?m] assms(6) by force
  then show ?thesis
    using new_entry_inherits [of P path st key "length key"] assms(5,6)
    by (auto simp: newFile_new_entry [OF assms(1-4)])
qed

theorem newFile_longest_match_witness:
  "entry_at (newFile demo ''/d/x'' demo_store) ''/d/x'' =
     Some (default_entry\<lparr>permanent := True, producers := [''app'']\<rparr>)"
proof -
  have known: "known demo_store other \<longleftrightarrow> other = ''/d/*'' \<or> other = ''/d''" for other
  proof -
    have "getPaths demo_store = [''/d'', ''/d/*'']" by code_simp
    then show ?thesis by (auto simp: known_getPaths)
  qed
  have "\<forall>other. known demo_store other \<and> fnmatch demo other ''/d/x'' \<and> other \<noteq> ''/d/*'' \<longrightarrow>
      length other < length ''/d/*''"
    by (auto simp: known demo_def)
  moreover have "entry_at demo_store ''/d/*'' = Some (default_entry\<lparr>permanent := True, producers := [''app'']\<rparr>)"
    and "fnmatch demo ''/d/*'' ''/d/x''" and "parent_path ''/d/x'' \<noteq> ''/d/x''"
    and "store_all_in_memory demo_store = False"
    by code_simp+
  ultimately show ?thesis
    using newFile_longest_match [of demo_store "''/d/x''" "''/d/*''" _ demo] by (simp add: known default_entry_def)
qed

text \<open>With no matching key the new path gets the default rules.\<close>

theorem newFile_no_match:
  assumes "engine_wf st" and "path \<noteq> []" and "\<not> known st path" and "parent_path path \<noteq> path"
    and "\<forall>key. known st key \<and> fnmatch P key path \<longrightarrow> key = []"
  shows "entry_at (newFile P path st) path = Some (default_entry\<lparr>store_in_memory := store_all_in_memory st\<rparr>)"
proof -
  have "matching P path (capio_cl_entries st) \<subseteq> {[]}"
    using assms(5) by (auto simp: matching_def um.key_iff known_def)
  then show ?thesis
    by (simp add: newFile_new_entry [OF assms(1-4)] new_entry_default)
qed

theorem newFile_no_match_witness:
  "entry_at (newFile demo ''other'' demo_store) ''other'' = Some default_entry"
proof -
  have keys: "getPaths demo_store = [''/d'', ''/d/*'']" by code_simp
  have "\<not> known demo_store ''other''"
    and "\<forall>key. known demo_store key \<and> fnmatch demo key ''other'' \<longrightarrow> key = []"
    by (auto simp: known_getPaths keys demo_def)
  moreover have "parent_path ''other'' \<noteq> ''other''" and "store_all_in_memory demo_store = False"
    by code_simp+
  ultimately show ?thesis
    using newFile_no_match [of demo_store "''other''" demo] by (simp add: default_entry_def)
qed

subsection \<open>The order of the hash map\<close>

text \<open>
  C34. Two engines with the same entries, on systems whose hash maps iterate in any two orders, have
  the same entries again after a path is created, when no two matching keys have equal length.
\<close>

theorem newFile_any_order:
  assumes "engine_wf st" and "mset (capio_cl_entries st) = mset (capio_cl_entries st')"
    and "store_all_in_memory st = store_all_in_memory st'" and "fnmatch P = fnmatch P'"
    and "no_ties P path (capio_cl_entries st)"
  shows "entry_at (newFile P path st) = entry_at (newFile P' path st')"
proof -
  have find: "entry_at st = entry_at st'"
    using assms(1,2) by (simp add: um_find_mset engine_wf_def)
  then have known: "known st path \<longleftrightarrow> known st' path" by (simp add: known_def)
  have wf': "engine_wf st'"
    using assms(1,2) um_wf_mset by (auto simp: engine_wf_def)
  show ?thesis
  proof (cases "path = [] \<or> known st path")
    case True
    with known find show ?thesis by (auto simp: newFile_def newFile_known)
  next
    case False
    with known have path: "path \<noteq> []" "\<not> known st path" "\<not> known st' path" by auto
    show ?thesis
      by (rule ext) (simp only: newFile_def entry_at_newFile [OF assms(1) path(1,2)]
        entry_at_newFile [OF wf' path(1,3)] find new_entry_order [OF assms])
  qed
qed

theorem newFile_any_order_witness:
  "entry_at (newFile demo ''/d/x'' demo_store) =
   entry_at (newFile demo_rev ''/d/x'' (demo_store\<lparr>capio_cl_entries := rev (capio_cl_entries demo_store)\<rparr>))"
proof -
  have "um_keys (capio_cl_entries demo_store) = [''/d'', ''/d/*'']" by code_simp
  then have "no_ties demo ''/d/x'' (capio_cl_entries demo_store)"
    by (auto simp: no_ties_def matching_def demo_def)
  then show ?thesis
    by (intro newFile_any_order) (simp_all add: demo_rev_def)
qed

definition tie_calls :: "call list" where
  "tie_calls = [SetPermanent ''/d/a*'' True, SetPermanent ''/d/*b'' False, NewFile ''/d/ab'']"

text \<open>
  With two matching keys of one length the order of the hash map decides: the same calls leave
  the path permanent on one system and not on the other.
\<close>

theorem newFile_tie_depends_on_order:
  "map_option permanent (entry_at (run_calls demo tie_calls (new_engine demo)) ''/d/ab'') \<noteq>
   map_option permanent (entry_at (run_calls demo_rev tie_calls (new_engine demo_rev)) ''/d/ab'')"
  by code_simp

subsection \<open>What creating a path leaves alone\<close>

text \<open>
  Creating a path adds at most that path; every other path keeps its entry, except that the
  parent directory may have its children counted (and so be marked a directory).
\<close>

theorem newFile_frame:
  assumes "engine_wf st" and "entry_at st other = Some e"
  shows "(\<exists>e'. entry_at (newFile P path st) other = Some e' \<and> same_rules e e' \<and>
      (e' = e \<or> other = parent_path path \<and> e' = count_child e)) \<and>
    set (getPaths (newFile P path st)) = set (getPaths st) \<union> ({path} - {[]})"
proof
  have "known (newFile P path st) q \<longleftrightarrow> known st q \<or> (q = path \<and> path \<noteq> [])" for q
    using assms(1) entry_at_newFile [of st path P q]
    by (cases "path = [] \<or> known st path") (auto simp: newFile_def newFile_known known_def)
  then show "set (getPaths (newFile P path st)) = set (getPaths st) \<union> ({path} - {[]})"
    by (auto simp: known_getPaths [symmetric])
  show "\<exists>e'. entry_at (newFile P path st) other = Some e' \<and> same_rules e e' \<and>
      (e' = e \<or> other = parent_path path \<and> e' = count_child e)"
  proof (cases "path = [] \<or> known st path")
    case True
    with assms(2) show ?thesis by (auto simp: newFile_def newFile_known)
  next
    case False
    then have "other \<noteq> path" using assms(2) by (auto simp: known_def)
    with False assms show ?thesis
      using same_rules_count [of e]
      by (auto simp: newFile_def entry_at_newFile count_if_enabled_def split: if_splits)
  qed
qed

theorem newFile_frame_witness:
  "\<exists>e'. entry_at (newFile demo ''/d/x'' demo_store) ''/d'' = Some e' \<and> same_rules default_entry e' \<and>
     (e' = default_entry \<or> ''/d'' = parent_path ''/d/x'' \<and> e' = count_child default_entry)"
proof -
  have "entry_at demo_store ''/d'' = Some default_entry" by code_simp
  then show ?thesis using newFile_frame [OF demo_wf, of "''/d''" default_entry demo "''/d/x''"] by blast
qed

subsection \<open>Directories and their children\<close>



text \<open>
  A child count set with \<open>setDirectoryFileCount\<close> is final: whatever paths are created
  afterwards, \<open>getDirectoryFileCount\<close> returns the number that was set.
\<close>

theorem setDirectoryFileCount_final:
  assumes "engine_wf st" and "path \<noteq> []"
  shows "fst (getDirectoryFileCount P path (fold (newFile P) paths (setDirectoryFileCount P path num st))) = num"
proof -
  obtain s where s: "engine_wf s" "known s path"
      "setDirectoryFileCount P path num st =
        modify_at path (set_count num) (fold (setDirectory P) (getPaths s) s)"
    using setDirectoryFileCount_form [OF assms(2,1)] by blast
  let ?st = "setDirectoryFileCount P path num st"
  from s(2) obtain e where "entry_at s path = Some e" by (auto simp: known_def)
  then have e: "entry_at ?st path = Some (set_count num (e\<lparr>is_file := False\<rparr>))"
    using assms(2) by (simp add: s(3) entry_at_modify entry_at_all_directories)
  have "engine_wf ?st" using s(1) by (simp add: s(3))
  from fold_newFile_frozen [OF this e] have
    "entry_at (fold (newFile P) paths ?st) path = Some (set_count num (e\<lparr>is_file := False\<rparr>))"
    by (simp add: set_count_def)
  then show ?thesis
    using assms(2) by (simp add: getDirectoryFileCount_def read_known known_def set_count_def)
qed

theorem setDirectoryFileCount_final_witness:
  "fst (getDirectoryFileCount demo ''/d''
     (fold (newFile demo) [''/d/x'', ''/d/y''] (setDirectoryFileCount demo ''/d'' 7 demo_store))) = 7"
  by (rule setDirectoryFileCount_final) simp_all

text \<open>
  Setting the child count of one path marks every path of the store as a directory: the loop
  over \<open>getPaths\<close> ignores which path it was called for.
\<close>

theorem setDirectoryFileCount_marks_every_path:
  assumes "engine_wf st" and "path \<noteq> []" and "q \<noteq> []" and "known st q"
  shows "fst (isFile P q (setDirectoryFileCount P path num st)) = False"
proof -
  obtain s where s: "known s q"
      "setDirectoryFileCount P path num st =
        modify_at path (set_count num) (fold (setDirectory P) (getPaths s) s)"
    using setDirectoryFileCount_form [OF assms(2,1)] assms(4) by blast
  from s(1) obtain e where "entry_at s q = Some e" by (auto simp: known_def)
  then show ?thesis
    using assms(3) by (auto simp: isFile_def s(2) entry_at_modify entry_at_all_directories set_count_def)
qed

theorem setDirectoryFileCount_marks_every_path_witness:
  "fst (isFile demo ''/d/*'' demo_store) = True \<and>
   fst (isFile demo ''/d/*'' (setDirectoryFileCount demo ''/d'' 7 demo_store)) = False"
proof -
  have "fst (isFile demo ''/d/*'' demo_store) = True" and "known demo_store ''/d/*''" by code_simp+
  then show ?thesis
    using setDirectoryFileCount_marks_every_path [of demo_store "''/d''" "''/d/*''" demo 7] by simp
qed

text \<open>
  \<open>isFile\<close> on a path the engine does not know answers with the permanent flag the path gets: a
  new path with the default rules is reported not to be a file, and the next call says it is.
\<close>

theorem isFile_unknown_path:
  assumes "engine_wf st" and "path \<noteq> []" and "\<not> known st path" and "parent_path path \<noteq> path"
  shows "fst (isFile P path st) = permanent (new_entry P path st) \<and>
    fst (isFile P path (snd (isFile P path st))) = is_file (new_entry P path st)"
proof -
  let ?s = "newFile_internal P path st"
  have e: "entry_at ?s path = Some (new_entry P path st)"
    by (rule entry_at_newFile_self [OF assms])
  have "isFile P path st = (permanent (new_entry P path st), ?s)"
    using assms e by (simp add: isFile_def known_def isPermanent_def read_known)
  with e assms(2) show ?thesis by (simp add: isFile_def)
qed

theorem isFile_unknown_path_witness:
  "fst (isFile demo ''f'' (new_engine demo)) = False \<and>
   fst (isFile demo ''f'' (snd (isFile demo ''f'' (new_engine demo)))) = True"
proof -
  have "new_entry demo ''f'' (new_engine demo) = default_entry"
    and "parent_path ''f'' \<noteq> ''f''" and "\<not> known (new_engine demo) ''f''" by code_simp+
  then show ?thesis
    using isFile_unknown_path [of "new_engine demo" "''f''" demo] by (simp add: default_entry_def)
qed

text \<open>
  The root directory is its own parent path: creating it counts it as its own child and
  marks it a directory.
\<close>

lemma newFile_root_counts_itself:
  assumes "engine_wf st" and "\<not> known st ''/''" 
  shows "entry_at (newFile P ''/'' st) ''/'' = Some (count_if_enabled (new_entry P ''/'' st))"
  using assms by (simp add: newFile_def entry_at_newFile)

subsection \<open>Writing and reading the rules\<close>

text \<open>
  C29. After any sequence of \<open>setCommitRule\<close> calls on any paths, a known path has the last valid
  rule that was set for it, or its former rule if there was none; the calls with an invalid rule
  throw and change nothing.
\<close>

theorem commit_rule_last_write_wins:
  assumes "engine_wf st" and "path \<noteq> []" and "known st path"
  shows "fst (getCommitRule P path (run_calls P (map (\<lambda>(q, r). SetCommitRule q r) ws) st)) =
    (case map_of (rev (filter (\<lambda>(q, r). r \<in> set commit_rules) ws)) path of
       Some r \<Rightarrow> r | None \<Rightarrow> fst (getCommitRule P path st))"
  unfolding getCommitRule_def run_SetCommitRule
  by (rule mem_commit_rule.attr.read_writes [OF assms(1,2) disjI1 [OF assms(3)]])

theorem commit_rule_last_write_wins_witness:
  "fst (getCommitRule demo ''/d'' (run_calls demo
     [SetCommitRule ''/d'' ''on_close'', SetCommitRule ''/d/*'' ''on_file'', SetCommitRule ''/d'' ''never'']
     demo_store)) = ''on_close''"
proof -
  have "known demo_store ''/d''" by code_simp
  then show ?thesis
    using commit_rule_last_write_wins [of demo_store "''/d''" demo
        "[(''/d'', ''on_close''), (''/d/*'', ''on_file''), (''/d'', ''never'')]"]
    by (simp add: rule_consts commit_rules_def)
qed

text \<open>
  After any sequence of \<open>setFireRule\<close> calls, a known path has the last valid fire rule that was
  set for it, or its former one; \<open>isFirable\<close> holds exactly when that rule is \<open>no_update\<close>.
\<close>

theorem fire_rule_last_write_wins:
  assumes "engine_wf st" and "path \<noteq> []" and "known st path"
  shows "(let st' = run_calls P (map (\<lambda>(q, r). SetFireRule q r) ws) st;
              r = (case map_of (rev (filter (\<lambda>(q, r). r \<in> set fire_rules) ws)) path of
                     Some r \<Rightarrow> r | None \<Rightarrow> fst (getFireRule P path st))
          in fst (getFireRule P path st') = r \<and> (fst (isFirable P path st') \<longleftrightarrow> r = NO_UPDATE))"
proof -
  let ?st = "run_calls P (map (\<lambda>(q, r). SetFireRule q r) ws) st"
  have "fst (isFirable P path ?st) \<longleftrightarrow> fst (getFireRule P path ?st) = NO_UPDATE"
    using assms(2) by (simp add: isFirable_def getFireRule_def read_entry_eq)
  moreover have "fst (getFireRule P path ?st) =
      (case map_of (rev (filter (\<lambda>(q, r). r \<in> set fire_rules) ws)) path of
         Some r \<Rightarrow> r | None \<Rightarrow> fst (getFireRule P path st))"
    unfolding getFireRule_def run_SetFireRule
    by (rule mem_fire_rule.attr.read_writes [OF assms(1,2) disjI1 [OF assms(3)]])
  ultimately show ?thesis by (simp add: Let_def)
qed

theorem fire_rule_last_write_wins_witness:
  "fst (isFirable demo ''/d'' (run_calls demo [SetFireRule ''/d'' ''no_update''] demo_store)) = True"
proof -
  have "known demo_store ''/d''" by code_simp
  then show ?thesis
    using fire_rule_last_write_wins [of demo_store "''/d''" demo "[(''/d'', ''no_update'')]"]
    by (simp add: rule_consts fire_rules_def Let_def)
qed

text \<open>
  A producer, stripped of its white space, is registered once for the path: it is the
  producer of every path the key matches, and adding it again changes nothing.
\<close>

theorem addProducer_registers:
  assumes "path \<noteq> []" and "fnmatch P path q"
  shows "(let (name, st') = addProducer P path producer st
          in name = erase_spaces producer \<and> isProducer P q name st' = (True, st') \<and>
             addProducer P path producer st' = (name, st') \<and>
             count_list (fst (getProducers P path st')) name =
               max 1 (count_list (fst (getProducers P path st)) name))"
  using assms by (simp add: addProducer_push isProducer_eq vec_producers.found_pushed
      vec_producers.push_twice vec_producers.count_pushed getProducers_def)

theorem addProducer_registers_witness:
  "(let (name, st') = addProducer demo ''/d/*'' '' b c'' demo_store
    in name = ''bc'' \<and> isProducer demo ''/d/x'' name st' = (True, st'))"
proof -
  have "fnmatch demo ''/d/*'' ''/d/x''" by code_simp
  moreover have "erase_spaces '' b c'' = ''bc''" by code_simp
  ultimately show ?thesis
    using addProducer_registers [of "''/d/*''" demo "''/d/x''" "'' b c''" demo_store]
    by (auto simp: Let_def split: prod.splits)
qed

text \<open>
  A consumer, stripped of its white space, is registered for the path and found for every
  path the key matches; adding it again changes nothing.
\<close>

lemma addConsumer_registers:
  assumes "path \<noteq> []" and "fnmatch P path q"
  shows "(let (name, st') = addConsumer P path consumer st
          in name = erase_spaces consumer \<and> isConsumer P q name st' = (True, st') \<and>
             addConsumer P path consumer st' = (name, st') \<and> name \<in> set (getConsumers path st'))"
proof -
  obtain e where "entry_at (update_entry P path (vec_consumers.push (erase_spaces consumer)) st) path =
      Some (vec_consumers.push (erase_spaces consumer) e)"
    by (rule vec_consumers.entry_pushed [OF assms(1)])
  then show ?thesis
    using assms by (simp add: addConsumer_push isConsumer_eq vec_consumers.found_pushed
        vec_consumers.push_twice getConsumers_def vec_consumers.push_def)
qed

subsection \<open>Storage\<close>

text \<open>
  After \<open>setAllStoreInMemory\<close> every path, known or not, then or later, is reported to be
  stored in memory, whatever paths are created in between.
\<close>

theorem setAllStoreInMemory_covers_new_paths:
  assumes "engine_wf st"
  shows "fst (isStoredInMemory P q (fold (newFile P) paths (setAllStoreInMemory P st))) = True"
proof -
  let ?s = "fold (newFile P) paths (setAllStoreInMemory P st)"
  have "all_in_memory ?s"
    by (rule fold_invariant [where I = all_in_memory])
       (simp_all add: all_in_memory_set assms newFile_def all_in_memory_newFile)
  then have inv: "all_in_memory (newFile_internal P q ?s)" by (rule all_in_memory_newFile)
  show ?thesis
  proof (cases "q = []")
    case False
    then obtain e where "entry_at (newFile_internal P q ?s) q = Some e"
      using newFile_present [of q P] by blast
    with inv False show ?thesis by (simp add: isStoredInMemory_def read_entry_eq all_in_memory_iff)
  qed (simp add: isStoredInMemory_def)
qed

theorem setAllStoreInMemory_covers_new_paths_witness:
  "fst (isStoredInMemory demo ''z'' demo_store) = False \<and>
   fst (isStoredInMemory demo ''z'' (fold (newFile demo) [''y''] (setAllStoreInMemory demo demo_store))) = True"
proof -
  have "fst (isStoredInMemory demo ''z'' demo_store) = False" by code_simp
  then show ?thesis using setAllStoreInMemory_covers_new_paths [OF demo_wf, of demo "''z''" "[''y'']"] by simp
qed

subsection \<open>Dependencies\<close>

text \<open>
  \<open>setFileDeps\<close> registers every dependency as a path of its own and makes the list readable as
  it was given; it does not touch the commit rule of a path that exists.
\<close>

theorem setFileDeps_effect:
  assumes "engine_wf st" and "known st path" and "path \<noteq> []" and "deps \<noteq> []" and "[] \<notin> set deps"
  shows "getCommitOnFileDependencies path (setFileDeps P path deps st) = deps \<and>
    set deps \<subseteq> set (getPaths (setFileDeps P path deps st)) \<and>
    fst (getCommitRule P path (setFileDeps P path deps st)) = fst (getCommitRule P path st)"
proof -
  let ?s = "fold (newFile P) deps st" and ?f = "\<lambda>e. e\<lparr>file_dependencies := deps\<rparr>"
  obtain e where e: "entry_at st path = Some e" using assms(2) by (auto simp: known_def)
  have "engine_wf ?s \<and> (\<exists>e'. entry_at ?s path = Some e' \<and> same_rules e e')"
  proof (rule fold_invariant [where I = "\<lambda>s. engine_wf s \<and> (\<exists>e'. entry_at s path = Some e' \<and> same_rules e e')"])
    show "engine_wf st \<and> (\<exists>e'. entry_at st path = Some e' \<and> same_rules e e')"
      using assms(1) e same_rules_refl by blast
    show "engine_wf (newFile P d s) \<and> (\<exists>e'. entry_at (newFile P d s) path = Some e' \<and> same_rules e e')"
      if "engine_wf s \<and> (\<exists>e'. entry_at s path = Some e' \<and> same_rules e e')" for d s
      using that newFile_same_rules [of s path _ P d] same_rules_trans by (fastforce simp: newFile_def)
  qed
  then obtain e' where e': "entry_at ?s path = Some e'" "same_rules e e'" by blast
  have s: "setFileDeps P path deps st = modify_at path ?f ?s"
    using assms(3,4) e'(1) by (simp add: setFileDeps_eq newFile_known known_def)
  have "known ?s d" if "d \<in> set deps" for d
    using that assms(5) by (intro known_fold_newFile) auto
  then have "set deps \<subseteq> set (getPaths (setFileDeps P path deps st))"
    by (auto simp: s known_getPaths [symmetric] known_def entry_at_modify)
  moreover have "entry_at (setFileDeps P path deps st) path = Some (?f e')"
    using e' by (simp add: s entry_at_modify)
  ultimately show ?thesis
    using e e' assms(3) same_rules_members [OF e'(2)]
    by (simp add: getCommitOnFileDependencies_def getCommitRule_def read_known known_def)
qed

theorem setFileDeps_effect_witness:
  "getCommitOnFileDependencies ''/d'' (setFileDeps demo ''/d'' [''a'', ''b''] demo_store) = [''a'', ''b''] \<and>
   fst (getCommitRule demo ''/d'' (setFileDeps demo ''/d'' [''a'', ''b''] demo_store)) = ''on_termination''"
proof -
  have "known demo_store ''/d''" and "fst (getCommitRule demo ''/d'' demo_store) = ''on_termination''"
    by code_simp+
  then show ?thesis
    using setFileDeps_effect [of demo_store "''/d''" "[''a'', ''b'']" demo] by simp
qed

text \<open>
  \<open>addFileDependency\<close> never throws; it sets the commit rule \<open>on_file\<close> only on a path it has
  to create, and an existing path keeps its rule.
\<close>

theorem addFileDependency_commit_rule:
  assumes "engine_wf st" and "path \<noteq> []"
  shows "\<exists>st'. addFileDependency P path dep st = Inr st' \<and>
    list_ex (\<lambda>d. path_eq d dep) (getCommitOnFileDependencies path st') \<and>
    fst (getCommitRule P path st') = (if known st path then fst (getCommitRule P path st) else ON_FILE)"
proof (cases "known st path")
  case True
  then obtain e where "entry_at st path = Some e" by (auto simp: known_def)
  with True assms(2) show ?thesis
    by (simp add: addFileDependency_eq getCommitOnFileDependencies_def entry_at_modify push_new_found
        getCommitRule_def read_known known_def)
next
  case False
  let ?f = "\<lambda>e. e\<lparr>commit_rule := ON_FILE\<rparr>"
  obtain e where "entry_at (newFile_internal P path st) path = Some e"
    using newFile_present [OF assms(2)] by blast
  with False assms(2) show ?thesis
    by (simp add: addFileDependency_eq getCommitOnFileDependencies_def entry_at_modify push_new_found
        getCommitRule_def read_known known_def update_entry_eq)
qed

theorem addFileDependency_commit_rule_witness:
  "\<exists>st'. addFileDependency demo ''new'' ''dep'' demo_store = Inr st' \<and>
    fst (getCommitRule demo ''new'' st') = ''on_file''"
proof -
  have "\<not> known demo_store ''new''" by code_simp
  then show ?thesis
    using addFileDependency_commit_rule [of demo_store "''new''" demo "''dep''"]
    by (auto simp: rule_consts)
qed

subsection \<open>Removing and merging entries\<close>

text \<open>
  \<open>remove\<close> takes exactly one path away; all other entries stay, and the size drops by one if
  the path was there.
\<close>

theorem remove_exactly_one:
  assumes "engine_wf st"
  shows "entry_at (remove_path path st) = (entry_at st)(path := None) \<and> engine_wf (remove_path path st) \<and>
    engine_size (remove_path path st) = (if known st path then engine_size st - 1 else engine_size st)"
proof (cases "known st path")
  case True
  then have "Suc (length (um_keys (um_erase path (capio_cl_entries st)))) = length (um_keys (capio_cl_entries st))"
    using assms by (intro um.size_erase) (simp_all add: engine_wf_def known_def del: not_None_eq)
  with True assms show ?thesis
    by (auto simp: remove_path_def known_def fun_eq_iff um.find_erase engine_wf_def um.valid_erase
        engine_size_def um_size_keys)
next
  case False
  with assms show ?thesis by (auto simp: remove_path_def known_def fun_eq_iff)
qed

theorem remove_exactly_one_witness:
  "entry_at (remove_path ''/d'' demo_store) ''/d'' = None \<and>
   engine_size (remove_path ''/d'' demo_store) = 1"
proof -
  have "known demo_store ''/d''" and "engine_size demo_store = 2" by code_simp+
  then show ?thesis using remove_exactly_one [OF demo_wf, of "''/d''"] by simp
qed

text \<open>
  Adding entries for one unknown path one after another merges them: the lists concatenate
  in order, flags accumulate, and the rules are those of the last entry.
\<close>

theorem add_entries_merge:
  assumes "engine_wf st" and "\<not> known st path" and "entries \<noteq> []"
  shows "\<exists>m. entry_at (fold (add_entry P path) entries st) path = Some m \<and>
    producers m = concat (map producers entries) \<and> permanent m = list_ex permanent entries \<and>
    is_file m = list_all is_file entries \<and>
    commit_rule m = commit_rule (last entries) \<and> fire_rule m = fire_rule (last entries)"
proof -
  have merge: "entry_at (fold (add_entry P path) rs s) path = Some (fold (\<lambda>r e. entry_merge e r) rs e)"
    if "entry_at s path = Some e" for rs s e
    using that
  proof (induction rs arbitrary: s e)
    case (Cons r rs)
    from Cons.prems have "entry_at (add_entry P path r s) path = Some (entry_merge e r)"
      by (simp add: add_entry_def entry_at_modify)
    from Cons.IH [OF this] show ?case by simp
  qed simp
  obtain x rs where entries: "entries = x # rs" using assms(3) by (cases entries) auto
  have "entry_at (add_entry P path x st) path = Some x"
    using assms(1,2) by (simp add: add_entry_def known_def engine_wf_def um_find_emplace)
  from merge [OF this, of rs] show ?thesis
    by (simp add: entries fold_merge_producers fold_merge_flags fold_merge_rules)
qed

theorem add_entries_merge_witness:
  "\<exists>m. entry_at (fold (add_entry demo ''new'')
       [default_entry\<lparr>producers := [''a'']\<rparr>, default_entry\<lparr>producers := [''b''], permanent := True\<rparr>] demo_store) ''new'' =
     Some m \<and> producers m = [''a'', ''b''] \<and> permanent m"
proof -
  have "\<not> known demo_store ''new''" by code_simp
  from add_entries_merge [OF demo_wf this, of
      "[default_entry\<lparr>producers := [''a'']\<rparr>, default_entry\<lparr>producers := [''b''], permanent := True\<rparr>]" demo]
  show ?thesis by (auto simp: default_entry_def)
qed

subsection \<open>Sessions\<close>

text \<open>
  C15. In every engine that calls can reach, every entry has a commit rule and a fire rule of the
  language, provided the rules given to the two \<open>add\<close> operations, which do not check them, are.
\<close>

theorem reachable_rules_valid:
  assumes "reachable P cs st" and "list_all (supplied entry_rules_valid) cs" and "entry_at st q = Some e"
  shows "commit_rule e \<in> set commit_rules \<and> fire_rule e \<in> set fire_rules"
proof -
  have "all_entries entry_rules_valid st"
    using assms(1,2) rules_valid.inv_run_calls [OF rules_valid.inv_new_engine, of cs P P]
    by (simp add: reachable_run entry_rules_valid_def)
  with assms(3) show ?thesis by (auto simp: all_entries_iff entry_rules_valid_def)
qed

theorem reachable_rules_valid_witness:
  "commit_rule (the (entry_at demo_store ''/d'')) \<in> set commit_rules"
proof -
  have "reachable demo [SetPermanent ''/d/*'' True, NewFile ''/d'', AddProducer ''/d/*'' ''app''] demo_store"
    by (simp add: reachable_run demo_store_def)
  moreover obtain e where "entry_at demo_store ''/d'' = Some e"
    by (cases "entry_at demo_store ''/d''") (code_simp, blast)
  ultimately show ?thesis
    using reachable_rules_valid by (auto simp: supplied_def)
qed

definition no_raw_entries :: "call list \<Rightarrow> bool" where
  "no_raw_entries cs \<longleftrightarrow>
     list_all (\<lambda>c. case c of AddRule _ _ _ _ _ _ _ _ \<Rightarrow> False | AddEntry _ _ \<Rightarrow> False | _ \<Rightarrow> True) cs"

lemma no_raw_entries_supplied:
  "no_raw_entries cs \<Longrightarrow> list_all (supplied I) cs" "no_raw_entries cs \<Longrightarrow> \<not> list_ex merges cs"
  by (auto simp: no_raw_entries_def list_all_iff list_ex_iff supplied_def merges_def split: call.splits)

text \<open>
  Without the two \<open>add\<close> operations no reachable entry lists an application twice as a producer
  or as a consumer, and no listed name contains white space.
\<close>

theorem reachable_names:
  assumes "reachable P cs st" and "no_raw_entries cs" and "entry_at st q = Some e"
  shows "distinct (producers e) \<and> distinct (consumers e) \<and>
    (\<forall>name \<in> set (producers e) \<union> set (consumers e). \<forall>c \<in> set name. \<not> is_space c)"
proof -
  note raw = no_raw_entries_supplied [OF assms(2)]
  have "all_entries entry_distinct st" and "all_entries entry_names_clean st"
    using assms(1) raw names_distinct.inv_run_calls [OF names_distinct.inv_new_engine, of cs P P]
      names_clean.inv_run_calls [OF names_clean.inv_new_engine, of cs P P]
    by (auto simp: reachable_run)
  with assms(3) show ?thesis
    by (auto simp: all_entries_iff entry_distinct_def entry_names_clean_def list_all_iff)
qed

theorem reachable_names_witness:
  "distinct (producers (the (entry_at demo_store ''/d/*'')))"
proof -
  have "reachable demo [SetPermanent ''/d/*'' True, NewFile ''/d'', AddProducer ''/d/*'' ''app''] demo_store"
    by (simp add: reachable_run demo_store_def)
  moreover have "no_raw_entries [SetPermanent ''/d/*'' True, NewFile ''/d'', AddProducer ''/d/*'' ''app'']"
    by (simp add: no_raw_entries_def)
  moreover obtain e where "entry_at demo_store ''/d/*'' = Some e"
    by (cases "entry_at demo_store ''/d/*''") (code_simp, blast)
  ultimately show ?thesis using reachable_names [of demo _ demo_store "''/d/*''" e] by auto
qed



subsection \<open>Comparison of engines\<close>

text \<open>
  Comparing engines is reflexive and transitive, and on engines whose entries list nothing
  twice also symmetric.
\<close>

theorem engine_eq_laws:
  assumes "engine_wf a" and "engine_wf b" and "engine_wf c"
  shows "engine_eq a a \<and> (engine_eq a b \<longrightarrow> engine_eq b c \<longrightarrow> engine_eq a c) \<and>
    (all_entries entry_no_repeats a \<longrightarrow> engine_eq a b \<longrightarrow> engine_eq b a)"
proof (intro conjI impI)
  show "engine_eq a a" using assms by (simp add: engine_eq_iff)
next
  assume ab: "engine_eq a b" and bc: "engine_eq b c"
  have "entry_eq x z" if x: "entry_at a q = Some x" and z: "entry_at c q = Some z" for q x z
  proof -
    have "q \<in> {q. known a q}" using x by (simp add: known_def)
    moreover have "{q. known a q} = {q. known b q}" using ab assms by (simp add: engine_eq_iff)
    ultimately have "q \<in> {q. known b q}" by (simp only:)
    then obtain y where "entry_at b q = Some y" by (auto simp: known_def)
    with x z ab bc assms have "entry_eq x y" "entry_eq y z" by (simp_all add: engine_eq_iff)
    then show ?thesis by (rule entry_eq_trans)
  qed
  with ab bc assms show "engine_eq a c" by (simp add: engine_eq_iff)
next
  assume "all_entries entry_no_repeats a" and "engine_eq a b"
  with assms show "engine_eq b a"
    by (auto simp: engine_eq_iff all_entries_iff intro: entry_eq_sym)
qed

theorem engine_eq_laws_witness:
  "engine_eq demo_store demo_store \<and> all_entries entry_no_repeats demo_store \<and>
   engine_eq demo_store (demo_store\<lparr>capio_cl_entries := rev (capio_cl_entries demo_store)\<rparr>)"
proof -
  have "all_entries entry_no_repeats demo_store"
    and "engine_eq demo_store (demo_store\<lparr>capio_cl_entries := rev (capio_cl_entries demo_store)\<rparr>)"
    by code_simp+
  then show ?thesis using engine_eq_laws [OF demo_wf demo_wf demo_wf] by blast
qed

definition twice :: engine where
  "twice = run_calls demo [AddRule ''f'' [''p'', ''p''] [] ON_CLOSE UPDATE False False []] (new_engine demo)"

definition both :: engine where
  "both = run_calls demo [AddRule ''f'' [''p'', ''q''] [] ON_CLOSE UPDATE False False []] (new_engine demo)"

text \<open>
  With a producer listed twice, as the \<open>add\<close> operations allow, the comparison holds in one
  direction and not in the other.
\<close>

theorem engine_eq_one_sided: "engine_eq twice both = True \<and> engine_eq both twice = False"
  by code_simp

end
