(* ===== verification/CL_Decimal.thy ===== *)
theory CL_Decimal
  imports CL_Prelude
begin

text \<open>
  Decimal numbers as the standard library writes and reads them: \<open>std::to_string\<close> on a \<open>long\<close>, and
  \<open>std::stoi\<close>, which skips white space, takes a sign and as many digits as there are, ignores the
  rest, and throws when there is no digit or when the number does not fit in an \<open>int\<close>.
\<close>

type_synonym cint = "32 word"

definition digit_char :: "nat \<Rightarrow> char" where
  "digit_char d = char_of (48 + d)"

definition is_digit :: "char \<Rightarrow> bool" where
  "is_digit c \<longleftrightarrow> (of_char c :: nat) \<in> {48..57}"

definition digit_val :: "char \<Rightarrow> nat" where
  "digit_val c = of_char c - 48"

function dec_of :: "nat \<Rightarrow> string" where
  "dec_of n = (if n < 10 then [digit_char n] else dec_of (n div 10) @ [digit_char (n mod 10)])"
  by pat_completeness auto
termination by (relation "measure id") auto

declare dec_of.simps [simp del]

definition dec_value :: "string \<Rightarrow> nat" where
  "dec_value ds = foldl (\<lambda>a c. 10 * a + digit_val c) 0 ds"

definition to_string :: "long \<Rightarrow> string" where
  "to_string n = (if sint n < 0 then CHR ''-'' # dec_of (nat (- sint n)) else dec_of (nat (sint n)))"

definition sign_split :: "string \<Rightarrow> bool \<times> string" where
  "sign_split s =
     (case s of
        [] \<Rightarrow> (False, [])
      | c # r \<Rightarrow> if c = CHR ''-'' then (True, r) else if c = CHR ''+'' then (False, r) else (False, s))"

definition stoi :: "string \<Rightarrow> exn + cint" where
  "stoi s =
     (let (neg, body) = sign_split (dropWhile is_space s);
          ds = takeWhile is_digit body;
          v = (if neg then - int (dec_value ds) else int (dec_value ds))
      in if ds = [] then Inl (InvalidArgument ''stoi'')
         else if - (2 ^ 31) \<le> v \<and> v < 2 ^ 31 then Inr (word_of_int v)
         else Inl OutOfRange)"

lemma of_char_digit [simp]: "d < 10 \<Longrightarrow> (of_char (digit_char d) :: nat) = 48 + d"
  by (simp add: digit_char_def)

lemma is_digit_char [simp]: "d < 10 \<Longrightarrow> is_digit (digit_char d)"
  by (simp add: is_digit_def)

lemma digit_val_char [simp]: "d < 10 \<Longrightarrow> digit_val (digit_char d) = d"
  by (simp add: digit_val_def)

lemma dec_of_digits: "list_all is_digit (dec_of n)"
  by (induction n rule: dec_of.induct) (subst dec_of.simps, simp)

lemma dec_of_nonempty [simp]: "dec_of n \<noteq> []"
  by (subst dec_of.simps) simp

lemma dec_value_of [simp]: "dec_value (dec_of n) = n"
proof (induction n rule: dec_of.induct)
  case (1 n)
  then show ?case
    by (subst dec_of.simps) (simp add: dec_value_def)
qed

lemma takeWhile_digits [simp]: "takeWhile is_digit (dec_of n) = dec_of n"
  using dec_of_digits [of n] by (simp add: takeWhile_eq_all_conv list_all_iff)

lemma digit_not_other: "is_digit c \<Longrightarrow> \<not> is_space c \<and> c \<noteq> CHR ''-'' \<and> c \<noteq> CHR ''+''"
  by (auto simp: is_digit_def is_space_def)

lemma sign_split_dec: "sign_split (dropWhile is_space (dec_of n)) = (False, dec_of n)"
proof -
  obtain c r where cr: "dec_of n = c # r" by (cases "dec_of n") auto
  then have "is_digit c" using dec_of_digits [of n] by simp
  with cr digit_not_other show ?thesis by (simp add: sign_split_def)
qed

lemma minus_not_space [simp]: "\<not> is_space CHR ''-''"
  by (simp add: is_space_def)

lemma sign_split_minus [simp]: "sign_split (CHR ''-'' # ds) = (True, ds)"
  by (simp add: sign_split_def)

lemma sign_split_digits:
  "ds \<noteq> [] \<Longrightarrow> list_all is_digit ds \<Longrightarrow> sign_split (dropWhile is_space ds) = (False, ds)"
  using digit_not_other by (cases ds) (auto simp: sign_split_def)

lemma stoi_digits:
  assumes "ds \<noteq> []" and "list_all is_digit ds"
  shows "stoi ds = (if dec_value ds < 2 ^ 31 then Inr (word_of_int (int (dec_value ds))) else Inl OutOfRange)"
  using assms by (auto simp: stoi_def sign_split_digits takeWhile_eq_all_conv [THEN iffD2] list_all_iff Let_def)

lemma stoi_dec: "n < 2 ^ 31 \<Longrightarrow> stoi (dec_of n) = Inr (word_of_int (int n))"
  by (simp add: stoi_def sign_split_dec)

text \<open>A number written by \<open>to_string\<close> is read back, when it fits in an \<open>int\<close>.\<close>

lemma stoi_to_string:
  assumes "- (2 ^ 31) \<le> sint n" and "sint n < 2 ^ 31"
  shows "stoi (to_string n) = Inr (word_of_int (sint n))"
  using assms by (auto simp: stoi_def Let_def to_string_def sign_split_dec)

lemma stoi_to_string_too_big:
  assumes "sint n < - (2 ^ 31) \<or> 2 ^ 31 \<le> sint n"
  shows "stoi (to_string n) = Inl OutOfRange"
  using assms by (auto simp: stoi_def to_string_def sign_split_dec)

text \<open>The conversion of an \<open>int\<close> to a \<open>long\<close>.\<close>

definition to_long :: "cint \<Rightarrow> long" where
  "to_long n = word_of_int (sint n)"

lemma sint_cint_of_int: "- (2 ^ 31) \<le> i \<Longrightarrow> i < 2 ^ 31 \<Longrightarrow> sint (word_of_int i :: cint) = i"
  by (simp add: sint_sbintrunc' signed_take_bit_int_eq_self)

lemma to_long_of_int: "- (2 ^ 31) \<le> i \<Longrightarrow> i < 2 ^ 31 \<Longrightarrow> to_long (word_of_int i) = word_of_int i"
  by (simp add: to_long_def sint_cint_of_int)

lemma to_long_of_nat: "n < 2 ^ 31 \<Longrightarrow> to_long (of_nat n) = of_nat n"
  using to_long_of_int [of "int n"] by simp

end
