(* ===== verification/CL_Config.thy ===== *)
theory CL_Config
  imports CL_Decimal CL_Table
begin

text \<open>
  \<open>capiocl::configuration\<close> (\<open>capiocl/configuration.h\<close>, \<open>src/configuration.cpp\<close>,
  \<open>src/defaults.cpp\<close>): the run-time options, a hash map from dotted keys to strings which is
  never iterated, so a map; the defaults; reading a TOML table into it; and typed access.

  The TOML parser is a parameter (\<open>parse_file\<close> of a path gives an error message or a table). A TOML
  value that is neither a table, a string, a boolean nor an integer is \<open>TOther\<close>: the source reads
  it through the null pointer that \<open>as_integer\<close> returns, which is the outcome \<open>None\<close> here.
\<close>

record ConfigurationEntry =
  ce_k :: string
  ce_v :: string

type_synonym config = "string \<rightharpoonup> string"

datatype toml =
    TTable "(string \<times> toml) list"
  | TString string
  | TBoolean bool
  | TInteger long
  | TOther

subsection \<open>Defaults\<close>

definition DEFAULT_MONITOR_MCAST_IP :: ConfigurationEntry where
  "DEFAULT_MONITOR_MCAST_IP = \<lparr>ce_k = ''monitor.mcast.commit.ip'', ce_v = ''224.224.224.1''\<rparr>"

definition DEFAULT_MONITOR_MCAST_PORT :: ConfigurationEntry where
  "DEFAULT_MONITOR_MCAST_PORT = \<lparr>ce_k = ''monitor.mcast.commit.port'', ce_v = ''12345''\<rparr>"

definition DEFAULT_MONITOR_MCAST_DELAY :: ConfigurationEntry where
  "DEFAULT_MONITOR_MCAST_DELAY = \<lparr>ce_k = ''monitor.mcast.delay_ms'', ce_v = ''300''\<rparr>"

definition DEFAULT_MONITOR_HOMENODE_IP :: ConfigurationEntry where
  "DEFAULT_MONITOR_HOMENODE_IP = \<lparr>ce_k = ''monitor.mcast.homenode.ip'', ce_v = ''224.224.224.2''\<rparr>"

definition DEFAULT_MONITOR_HOMENODE_PORT :: ConfigurationEntry where
  "DEFAULT_MONITOR_HOMENODE_PORT = \<lparr>ce_k = ''monitor.mcast.homenode.port'', ce_v = ''12345''\<rparr>"

definition DEFAULT_MONITOR_MCAST_ENABLED :: ConfigurationEntry where
  "DEFAULT_MONITOR_MCAST_ENABLED = \<lparr>ce_k = ''monitor.mcast.enabled'', ce_v = ''true''\<rparr>"

definition DEFAULT_MONITOR_FS_ENABLED :: ConfigurationEntry where
  "DEFAULT_MONITOR_FS_ENABLED = \<lparr>ce_k = ''monitor.filesystem.enabled'', ce_v = ''true''\<rparr>"

definition DEFAULT_API_MULTICAST_IP :: ConfigurationEntry where
  "DEFAULT_API_MULTICAST_IP = \<lparr>ce_k = ''dynamic_api.ip'', ce_v = ''224.224.224.3''\<rparr>"

definition DEFAULT_API_MULTICAST_PORT :: ConfigurationEntry where
  "DEFAULT_API_MULTICAST_PORT = \<lparr>ce_k = ''dynamic_api.port'', ce_v = ''11223''\<rparr>"

lemmas default_entries = DEFAULT_MONITOR_MCAST_IP_def DEFAULT_MONITOR_MCAST_PORT_def
  DEFAULT_MONITOR_MCAST_DELAY_def DEFAULT_MONITOR_HOMENODE_IP_def DEFAULT_MONITOR_HOMENODE_PORT_def
  DEFAULT_MONITOR_MCAST_ENABLED_def DEFAULT_MONITOR_FS_ENABLED_def DEFAULT_API_MULTICAST_IP_def
  DEFAULT_API_MULTICAST_PORT_def

definition config_set :: "string \<Rightarrow> string \<Rightarrow> config \<Rightarrow> config" where
  "config_set key value config = config(key \<mapsto> value)"

definition config_set_entry :: "ConfigurationEntry \<Rightarrow> config \<Rightarrow> config" where
  "config_set_entry entry config = config_set (ce_k entry) (ce_v entry) config"

definition loadDefaults :: "config \<Rightarrow> config" where
  "loadDefaults config =
     fold config_set_entry
       [DEFAULT_MONITOR_MCAST_IP, DEFAULT_MONITOR_MCAST_PORT, DEFAULT_MONITOR_HOMENODE_IP,
        DEFAULT_MONITOR_HOMENODE_PORT, DEFAULT_MONITOR_MCAST_DELAY, DEFAULT_MONITOR_FS_ENABLED,
        DEFAULT_MONITOR_MCAST_ENABLED, DEFAULT_API_MULTICAST_PORT, DEFAULT_API_MULTICAST_IP] config"

subsection \<open>Reading a file\<close>

definition full_key :: "string \<Rightarrow> string \<Rightarrow> string" where
  "full_key prefix key = (if prefix = [] then key else prefix @ ''.'' @ key)"

fun load_config_to_memory :: "(string \<times> toml) list \<Rightarrow> config \<Rightarrow> string \<Rightarrow> config option" where
  "load_config_to_memory [] conf prefix = Some conf"
| "load_config_to_memory ((key, value) # rest) conf prefix =
     (let k = full_key prefix key
      in case value of
           TTable tbl \<Rightarrow>
             (case load_config_to_memory tbl conf k of
                None \<Rightarrow> None
              | Some conf' \<Rightarrow> load_config_to_memory rest conf' prefix)
         | TString s \<Rightarrow> load_config_to_memory rest (conf(k \<mapsto> s)) prefix
         | TBoolean b \<Rightarrow> load_config_to_memory rest (conf(k \<mapsto> if b then ''true'' else ''false'')) prefix
         | TInteger i \<Rightarrow> load_config_to_memory rest (conf(k \<mapsto> to_string i)) prefix
         | TOther \<Rightarrow> None)"

text \<open>\<open>None\<close> is the null pointer dereference.\<close>

definition config_load ::
  "(string \<Rightarrow> string + (string \<times> toml) list) \<Rightarrow> string \<Rightarrow> config \<Rightarrow> (exn + config) option" where
  "config_load parse_file path config =
     (if path = [] then Some (Inl (ConfigurationException ''Empty pathname!''))
      else (case parse_file path of
              Inl what \<Rightarrow> Some (Inl (ConfigurationException what))
            | Inr tbl \<Rightarrow> map_option Inr (load_config_to_memory tbl config [])))"

definition key_not_found :: "string \<Rightarrow> exn" where
  "key_not_found key = ConfigurationException (''Key '' @ key @ '' not found!'')"

definition getParameter_int :: "string \<Rightarrow> config \<Rightarrow> exn + cint" where
  "getParameter_int key config = (case config key of Some v \<Rightarrow> stoi v | None \<Rightarrow> Inl (key_not_found key))"

definition getParameter_string :: "string \<Rightarrow> config \<Rightarrow> exn + string" where
  "getParameter_string key config = (case config key of Some v \<Rightarrow> Inr v | None \<Rightarrow> Inl (key_not_found key))"

subsection \<open>What loading a table means\<close>

text \<open>The options of a table as pairs of a path of keys and a text.\<close>

fun toml_options :: "(string \<times> toml) list \<Rightarrow> (string list \<times> string) list" where
  "toml_options [] = []"
| "toml_options ((key, value) # rest) =
     (case value of
        TTable tbl \<Rightarrow> map (\<lambda>(ks, v). (key # ks, v)) (toml_options tbl)
      | TString s \<Rightarrow> [([key], s)]
      | TBoolean b \<Rightarrow> [([key], if b then ''true'' else ''false'')]
      | TInteger i \<Rightarrow> [([key], to_string i)]
      | TOther \<Rightarrow> []) @ toml_options rest"

text \<open>Tables with distinct keys that are neither empty nor dotted, and no \<open>TOther\<close> anywhere.\<close>

fun toml_plain :: "(string \<times> toml) list \<Rightarrow> bool" where
  "toml_plain [] \<longleftrightarrow> True"
| "toml_plain ((key, value) # rest) \<longleftrightarrow>
     key \<noteq> [] \<and> CHR ''.'' \<notin> set key \<and> key \<notin> set (map fst rest) \<and>
     (case value of TTable tbl \<Rightarrow> toml_plain tbl | TOther \<Rightarrow> False | _ \<Rightarrow> True) \<and> toml_plain rest"

definition join_key :: "string \<Rightarrow> string list \<Rightarrow> string" where
  "join_key prefix ks = foldl full_key prefix ks"

lemma join_key_simps [simp]:
  "join_key p [] = p" "join_key p (k # ks) = join_key (full_key p k) ks"
  by (simp_all add: join_key_def)

lemma load_options:
  "toml_plain t \<Longrightarrow> load_config_to_memory t m p =
     Some (m ++ map_of (rev (map (\<lambda>(ks, v). (join_key p ks, v)) (toml_options t))))"
proof (induction t m p rule: load_config_to_memory.induct)
  case (2 key val rest m p)
  have one: "m(k \<mapsto> v) ++ map_of (rev xs) = m ++ map_of (rev ((k, v) # xs))" for k v and xs :: "(string \<times> string) list"
    by (simp add: map_add_assoc)
  show ?case
  proof (cases val)
    case (TTable t)
    with 2 show ?thesis by (simp add: comp_def case_prod_beta map_add_assoc)
  next
    case (TString s)
    have "load_config_to_memory rest (m(full_key p key \<mapsto> s)) p =
        Some (m(full_key p key \<mapsto> s) ++
          map_of (rev (map (\<lambda>(ks, v). (join_key p ks, v)) (toml_options rest))))"
      using "2.prems" by (intro "2.IH"(3) [OF refl TString]) simp
    with TString show ?thesis by (simp add: one del: rev.simps)
  next
    case (TBoolean b)
    have "load_config_to_memory rest (m(full_key p key \<mapsto> if b then ''true'' else ''false'')) p =
        Some (m(full_key p key \<mapsto> if b then ''true'' else ''false'') ++
          map_of (rev (map (\<lambda>(ks, v). (join_key p ks, v)) (toml_options rest))))"
      using "2.prems" by (intro "2.IH"(4) [OF refl TBoolean]) simp
    with TBoolean show ?thesis by (simp add: one del: rev.simps)
  next
    case (TInteger i)
    have "load_config_to_memory rest (m(full_key p key \<mapsto> to_string i)) p =
        Some (m(full_key p key \<mapsto> to_string i) ++
          map_of (rev (map (\<lambda>(ks, v). (join_key p ks, v)) (toml_options rest))))"
      using "2.prems" by (intro "2.IH"(5) [OF refl TInteger]) simp
    with TInteger show ?thesis by (simp add: one del: rev.simps)
  next
    case TOther
    with "2.prems" show ?thesis by simp
  qed
qed simp

text \<open>Two paths of keys of one table have different dotted keys.\<close>

definition dot_tail :: "string list \<Rightarrow> string" where
  "dot_tail ks = concat (map (\<lambda>k. CHR ''.'' # k) ks)"

lemma dot_tail_simps [simp]: "dot_tail [] = []" "dot_tail (k # ks) = CHR ''.'' # k @ dot_tail ks"
  by (simp_all add: dot_tail_def)

lemma join_key_prefix: "p \<noteq> [] \<Longrightarrow> join_key p ks = p @ dot_tail ks"
  by (induction ks arbitrary: p) (simp_all add: full_key_def)

definition plain_key :: "string \<Rightarrow> bool" where
  "plain_key k \<longleftrightarrow> k \<noteq> [] \<and> CHR ''.'' \<notin> set k"

lemma plain_split:
  assumes "plain_key k" and "plain_key k'" and "k @ dot_tail ks = k' @ dot_tail ks'"
  shows "k = k' \<and> dot_tail ks = dot_tail ks'"
proof -
  have head: "takeWhile (\<lambda>c. c \<noteq> CHR ''.'') (j @ dot_tail js) = j" if "plain_key j" for j js
  proof -
    have "takeWhile (\<lambda>c. c \<noteq> CHR ''.'') (j @ dot_tail js) = j @ takeWhile (\<lambda>c. c \<noteq> CHR ''.'') (dot_tail js)"
      using that by (intro takeWhile_append2) (auto simp: plain_key_def)
    then show ?thesis by (cases js) simp_all
  qed
  from head [OF assms(1), of ks] head [OF assms(2), of ks'] assms(3) have "k = k'" by simp
  with assms(3) show ?thesis by simp
qed

lemma dot_tail_inj: "list_all plain_key ks \<Longrightarrow> list_all plain_key ks' \<Longrightarrow> dot_tail ks = dot_tail ks' \<Longrightarrow> ks = ks'"
proof (induction ks arbitrary: ks')
  case Nil
  then show ?case by (cases ks') auto
next
  case (Cons k ks)
  then obtain k' r where ks': "ks' = k' # r" by (cases ks') auto
  with Cons.prems have "plain_key k" "plain_key k'" "k @ dot_tail ks = k' @ dot_tail r" by simp_all
  from plain_split [OF this] Cons.IH [of r] Cons.prems ks' show ?case by simp
qed

lemma join_key_inj:
  assumes "list_all plain_key ks" and "list_all plain_key ks'" and "ks \<noteq> []" and "ks' \<noteq> []"
    and "join_key [] ks = join_key [] ks'"
  shows "ks = ks'"
proof -
  obtain k r k' r' where "ks = k # r" "ks' = k' # r'" using assms(3,4) by (cases ks; cases ks') auto
  with assms plain_split [of k k' r r'] dot_tail_inj [of r r'] show ?thesis
    by (auto simp: full_key_def join_key_prefix plain_key_def)
qed

lemma toml_options_plain:
  "toml_plain t \<Longrightarrow> (ks, v) \<in> set (toml_options t) \<Longrightarrow> ks \<noteq> [] \<and> list_all plain_key ks \<and> hd ks \<in> fst ` set t"
proof (induction t arbitrary: ks v rule: toml_plain.induct)
  case (2 key val rest)
  then show ?case by (cases val) (auto simp: plain_key_def, (blast | force)+)
qed simp

lemma toml_options_distinct: "toml_plain t \<Longrightarrow> distinct (map fst (toml_options t))"
proof (induction t rule: toml_plain.induct)
  case (2 key val rest)
  have other: "ks \<noteq> key # js" if "(ks, v) \<in> set (toml_options rest)" for ks js v
  proof
    assume "ks = key # js"
    moreover have "toml_plain rest" using "2.prems" by simp
    ultimately have "key \<in> fst ` set rest" using toml_options_plain [OF _ that] by simp
    with "2.prems" show False by simp
  qed
  have rest: "distinct (map fst (toml_options rest))" using 2 by simp
  have single: "distinct (map fst (([key], w) # toml_options rest))" for w
    using rest other [of _ _ "[]"] by force
  show ?case
  proof (cases val)
    case (TTable t)
    have fst_cons: "map fst (map (\<lambda>(ks, v). (key # ks, v)) xs) = map ((#) key) (map fst xs)"
      for xs :: "(string list \<times> string) list"
      by (simp add: case_prod_beta comp_def)
    have "distinct (map fst (toml_options t))" using 2 TTable by simp
    then have "distinct (map ((#) key) (map fst (toml_options t)))"
      unfolding distinct_map [of "(#) key"] by (simp add: inj_on_def)
    moreover have "set (map ((#) key) (map fst (toml_options t))) \<inter> set (map fst (toml_options rest)) = {}"
      using other by force
    ultimately show ?thesis
      using rest by (simp only: TTable toml_options.simps toml.case map_append fst_cons distinct_append)
  qed (use single "2.prems" in simp_all)
qed simp

lemma load_plain_at:
  assumes "toml_plain t" and "load_config_to_memory t m [] = Some m'"
  shows "(ks, v) \<in> set (toml_options t) \<Longrightarrow> m' (join_key [] ks) = Some v"
    and "k \<notin> (\<lambda>(ks, _). join_key [] ks) ` set (toml_options t) \<Longrightarrow> m' k = m k"
proof -
  let ?xs = "map (\<lambda>(ks, v). (join_key [] ks, v)) (toml_options t)"
  have m': "m' = m ++ map_of (rev ?xs)"
    using assms load_options [OF assms(1), of m "[]"] by simp
  have keys: "map fst ?xs = map (join_key []) (map fst (toml_options t))"
    by (simp add: case_prod_beta comp_def)
  have "inj_on (join_key []) (set (map fst (toml_options t)))"
    using toml_options_plain [OF assms(1)] by (auto simp: inj_on_def intro: join_key_inj)
  then have "distinct (map fst ?xs)"
    using toml_options_distinct [OF assms(1)] by (simp only: keys distinct_map)
  then have dist: "distinct (map fst (rev ?xs))" by (simp only: rev_map [symmetric] distinct_rev)
  show "m' (join_key [] ks) = Some v" if "(ks, v) \<in> set (toml_options t)"
  proof -
    have "(join_key [] ks, v) \<in> set (rev ?xs)" using that by force
    with dist have "map_of (rev ?xs) (join_key [] ks) = Some v" by (intro map_of_is_SomeI)
    then show ?thesis by (simp add: m')
  qed
  show "m' k = m k" if "k \<notin> (\<lambda>(ks, _). join_key [] ks) ` set (toml_options t)"
  proof -
    have "map_of (rev ?xs) k = None"
      using that by (force simp: map_of_eq_None_iff)
    then show ?thesis by (simp add: m' map_add_def)
  qed
qed

subsection \<open>Properties\<close>


definition demo_toml :: "string \<Rightarrow> string + (string \<times> toml) list" where
  "demo_toml path =
     (if path = ''capio.toml''
      then Inr [(''monitor'', TTable [(''mcast'', TTable [(''delay_ms'', TInteger 50), (''enabled'', TBoolean False)])])]
      else Inl ''File could not be opened for reading'')"


text \<open>
  An integer option of a file is read back as the number the file holds when it fits in an
  \<open>int\<close>; when it does not, reading it throws \<open>std::out_of_range\<close>, not a configuration error.
\<close>

theorem config_integer_roundtrip:
  "\<exists>conf'. load_config_to_memory [(key, TInteger i)] conf [] = Some conf' \<and>
    getParameter_int key conf' =
      (if - (2 ^ 31) \<le> sint i \<and> sint i < 2 ^ 31 then Inr (word_of_int (sint i)) else Inl OutOfRange)"
  using stoi_to_string [of i] stoi_to_string_too_big [of i]
  by (auto simp: getParameter_int_def full_key_def)

text \<open>
  A floating point number, a date or an array anywhere in the file makes the loader read
  through a null pointer: it is not reported as an error.
\<close>

theorem config_load_unsupported_value:
  assumes "path \<noteq> []" and "parse_file path = Inr (t @ (key, TOther) # rest)" and "toml_plain t"
  shows "config_load parse_file path conf = None"
proof -
  have "load_config_to_memory (t @ (key, TOther) # rest) m p = None" for m p
    using assms(3)
  proof (induction t m p rule: load_config_to_memory.induct)
    case (2 k val ts m p)
    then show ?case by (cases val) (auto simp: load_options simp del: fun_upd_apply)
  qed simp
  with assms(1,2) show ?thesis by (simp add: config_load_def)
qed

theorem config_load_unsupported_value_witness:
  "config_load (\<lambda>_. Inr [(''timeout'', TOther)]) ''capio.toml'' Map.empty = None"
  by (rule config_load_unsupported_value [where t = "[]" and key = "''timeout''" and rest = "[]"]) simp_all

end
