(* ===== verification/CL_Monitor.thy ===== *)
theory CL_Monitor
  imports CL_Config CL_Path
begin

text \<open>
  \<open>capiocl::monitor\<close> (\<open>capiocl/monitor.h\<close>, \<open>src/Monitor.cpp\<close>, \<open>src/monitors/\<close>): who committed a
  file and where its home node is. \<open>Monitor\<close> asks a list of backends; a backend is the abstract
  \<open>MonitorInterface\<close>, whose methods throw, the \<open>MulticastMonitor\<close>, which keeps what it has heard
  and answers the queries of others, or the \<open>FileSystemMonitor\<close>, which leaves tokens on disk.

  Outside the code are the disk (\<open>disk\<close>: file contents by the components of an absolute path,
  and which directories and files can be created; links and dot components are not resolved) and
  the network (\<open>datagram\<close>s sent; what a listener receives while a query waits is an argument).
  Here sockets can always be opened; \<open>CL_Socket\<close> is about what happens when they cannot.
\<close>

definition NO_HOME_NODE :: string where
  "NO_HOME_NODE = ''<NONE>''"

record datagram =
  dst_ip :: string
  dst_port :: cint
  payload :: string

record disk =
  files :: "bool \<times> string list \<Rightarrow> string option"
  cwd :: string
  mkdir_ok :: "string \<Rightarrow> bool"
  open_ok :: "string \<Rightarrow> bool"

record world =
  the_disk :: disk
  sent :: "datagram list"

subsection \<open>Multicast messages\<close>

datatype MESSAGE_COMMANDS = SET | GET

primrec command_char :: "MESSAGE_COMMANDS \<Rightarrow> char" where
  "command_char SET = CHR ''!''"
| "command_char GET = CHR ''?''"

definition PATH_MAX :: nat where "PATH_MAX = 4096"

definition MESSAGE_SIZE :: nat where "MESSAGE_SIZE = 2 + PATH_MAX + PATH_MAX"

definition c_str :: "string \<Rightarrow> string" where
  "c_str s = takeWhile (\<lambda>c. c \<noteq> CHR 0x00) s"

text \<open>\<open>snprintf(message, sizeof(message), "%c %s", action, path.c_str())\<close> and \<open>sendto\<close>.\<close>

definition send_text :: "string \<Rightarrow> MESSAGE_COMMANDS \<Rightarrow> string" where
  "send_text path action = take (MESSAGE_SIZE - 1) (command_char action # CHR '' '' # c_str path)"

definition send_message :: "string \<Rightarrow> cint \<Rightarrow> string \<Rightarrow> MESSAGE_COMMANDS \<Rightarrow> datagram" where
  "send_message ip_addr ip_port path action =
     \<lparr>dst_ip = ip_addr, dst_port = ip_port, payload = send_text path action\<rparr>"

subsection \<open>The multicast backend\<close>

record mcast =
  MULTICAST_COMMIT_ADDR :: string
  MULTICAST_COMMIT_PORT :: cint
  MULTICAST_HOME_NODE_ADDR :: string
  MULTICAST_HOME_NODE_PORT :: cint
  MULTICAST_DELAY_MILLIS :: cint
  mc_committed_files :: "string list"
  mc_home_nodes :: "string \<Rightarrow> string option"
  mc_hostname :: string

definition new_MulticastMonitor :: "string \<Rightarrow> config \<Rightarrow> exn + mcast" where
  "new_MulticastMonitor host conf =
     rbind (getParameter_string ''monitor.mcast.commit.ip'' conf) (\<lambda>commit_ip.
     rbind (getParameter_int ''monitor.mcast.commit.port'' conf) (\<lambda>commit_port.
     rbind (getParameter_string ''monitor.mcast.homenode.ip'' conf) (\<lambda>home_ip.
     rbind (getParameter_int ''monitor.mcast.homenode.port'' conf) (\<lambda>home_port.
     rbind (getParameter_int ''monitor.mcast.delay_ms'' conf) (\<lambda>delay.
     Inr \<lparr>MULTICAST_COMMIT_ADDR = commit_ip, MULTICAST_COMMIT_PORT = commit_port,
          MULTICAST_HOME_NODE_ADDR = home_ip, MULTICAST_HOME_NODE_PORT = home_port,
          MULTICAST_DELAY_MILLIS = delay, mc_committed_files = [], mc_home_nodes = Map.empty,
          mc_hostname = host\<rparr>)))))"

text \<open>
  The body of \<open>commit_listener\<close> for one datagram: the datagrams it sends and the new list.
  \<open>substr(2)\<close> throws on a message of less than two characters.
\<close>

definition commit_receive ::
  "string \<Rightarrow> cint \<Rightarrow> string \<Rightarrow> string list \<Rightarrow> exn + datagram list \<times> string list" where
  "commit_receive ip_addr ip_port message committed_files =
     (let text = c_str message
      in if length text < 2 then Inl OutOfRange
         else let path = drop 2 text
              in if hd text = command_char SET
                 then Inr ([], push_new (=) path committed_files)
                 else if path \<in> set committed_files
                 then Inr ([send_message ip_addr ip_port path SET], committed_files)
                 else Inr ([], committed_files))"

text \<open>The loop of \<open>home_node_listener\<close> that cuts the message at its spaces.\<close>

fun tokens_from :: "string \<Rightarrow> string \<Rightarrow> string list" where
  "tokens_from acc [] = (if acc = [] then [] else [acc])"
| "tokens_from acc (c # s) =
     (if c = CHR '' '' then (if acc = [] then tokens_from [] s else acc # tokens_from [] s)
      else tokens_from (acc @ [c]) s)"

text \<open>
  The body of \<open>home_node_listener\<close>. The source takes \<open>tokens[1]\<close> and \<open>tokens[2]\<close> without looking how
  many tokens there are; \<open>None\<close> is the access out of range.
\<close>

definition home_receive ::
  "string \<Rightarrow> cint \<Rightarrow> string \<Rightarrow> string \<Rightarrow> (string \<Rightarrow> string option) \<Rightarrow>
     (datagram list \<times> (string \<Rightarrow> string option)) option" where
  "home_receive ip_addr ip_port this_hostname message home_nodes =
     (let tokens = tokens_from [] (c_str message)
      in if length tokens < 2 then None
         else let path = tokens ! 1
              in if hd (tokens ! 0) = command_char SET
                 then (if length tokens < 3 then None else Some ([], home_nodes(path \<mapsto> tokens ! 2)))
                 else (case home_nodes path of
                         None \<Rightarrow> Some ([], home_nodes)
                       | Some node \<Rightarrow>
                           if node = this_hostname
                           then Some ([send_message ip_addr ip_port (path @ '' '' @ this_hostname) SET], home_nodes)
                           else Some ([], home_nodes)))"

text \<open>
  The operations. \<open>arrived\<close> is what the listener thread receives while the operation sleeps; an
  exception in that thread ends the process.
\<close>

definition commit_listen :: "string \<Rightarrow> mcast \<Rightarrow> exn + datagram list \<times> mcast" where
  "commit_listen message m =
     rbind (commit_receive (MULTICAST_COMMIT_ADDR m) (MULTICAST_COMMIT_PORT m) message (mc_committed_files m))
       (\<lambda>(out, committed). Inr (out, m\<lparr>mc_committed_files := committed\<rparr>))"

definition listen_all :: "string list \<Rightarrow> datagram list \<times> mcast \<Rightarrow> exn + datagram list \<times> mcast" where
  "listen_all arrived om =
     rfold (\<lambda>message (out, m). rbind (commit_listen message m) (\<lambda>(out', m'). Inr (out @ out', m'))) arrived om"

definition mcast_knows :: "string \<Rightarrow> mcast \<Rightarrow> bool" where
  "mcast_knows path m \<longleftrightarrow> list_ex (\<lambda>q. path_eq q path) (mc_committed_files m)"

definition mcast_isCommitted ::
  "string \<Rightarrow> string list \<Rightarrow> mcast \<Rightarrow> exn + bool \<times> datagram list \<times> mcast" where
  "mcast_isCommitted path arrived m =
     (if mcast_knows path m then Inr (True, [], m)
      else rbind
             (listen_all arrived
               ([send_message (MULTICAST_COMMIT_ADDR m) (MULTICAST_COMMIT_PORT m) path GET], m))
             (\<lambda>(out, m'). Inr (mcast_knows path m', out, m')))"

definition mcast_setCommitted :: "string \<Rightarrow> mcast \<Rightarrow> datagram list \<times> mcast" where
  "mcast_setCommitted path m =
     ([send_message (MULTICAST_COMMIT_ADDR m) (MULTICAST_COMMIT_PORT m) path SET],
      m\<lparr>mc_committed_files := push_new path_eq path (mc_committed_files m)\<rparr>)"

definition home_listen :: "string \<Rightarrow> mcast \<Rightarrow> (datagram list \<times> mcast) option" where
  "home_listen message m =
     (case home_receive (MULTICAST_HOME_NODE_ADDR m) (MULTICAST_HOME_NODE_PORT m) (mc_hostname m) message
             (mc_home_nodes m) of
        None \<Rightarrow> None
      | Some (out, nodes) \<Rightarrow> Some (out, m\<lparr>mc_home_nodes := nodes\<rparr>))"

definition mcast_setHomeNode :: "string \<Rightarrow> mcast \<Rightarrow> datagram list \<times> mcast" where
  "mcast_setHomeNode path m =
     ([send_message (MULTICAST_HOME_NODE_ADDR m) (MULTICAST_HOME_NODE_PORT m)
         (path @ '' '' @ mc_hostname m) SET],
      m\<lparr>mc_home_nodes := (mc_home_nodes m)(path \<mapsto> mc_hostname m)\<rparr>)"

primrec home_listen_all :: "string list \<Rightarrow> datagram list \<times> mcast \<Rightarrow> (datagram list \<times> mcast) option" where
  "home_listen_all [] om = Some om"
| "home_listen_all (message # rest) om =
     (case home_listen message (snd om) of
        None \<Rightarrow> None
      | Some (out', m') \<Rightarrow> home_listen_all rest (fst om @ out', m'))"

definition mcast_getHomeNode ::
  "string \<Rightarrow> string list \<Rightarrow> mcast \<Rightarrow> (string \<times> datagram list \<times> mcast) option" where
  "mcast_getHomeNode path arrived m =
     (case mc_home_nodes m path of
        Some node \<Rightarrow> Some (node, [], m)
      | None \<Rightarrow>
          map_option
            (\<lambda>(out, m'). (case mc_home_nodes m' path of Some node \<Rightarrow> node | None \<Rightarrow> NO_HOME_NODE, out, m'))
            (home_listen_all arrived
              ([send_message (MULTICAST_HOME_NODE_ADDR m) (MULTICAST_HOME_NODE_PORT m) path GET], m)))"

subsection \<open>The file system backend\<close>

datatype CAPIO_CL_COMMIT_TOKEN_TYPES = COMMIT | HOME_NODE

primrec token_suffix :: "CAPIO_CL_COMMIT_TOKEN_TYPES \<Rightarrow> string" where
  "token_suffix COMMIT = ''.commit''"
| "token_suffix HOME_NODE = ''.home_node''"

text \<open>\<open>std::filesystem::absolute\<close>: the current directory in front of a relative path.\<close>

definition absolute :: "string \<Rightarrow> string \<Rightarrow> string" where
  "absolute current path = (if is_absolute path then path else path_append current path)"

definition compute_capiocl_token_name :: "string \<Rightarrow> string \<Rightarrow> CAPIO_CL_COMMIT_TOKEN_TYPES \<Rightarrow> string" where
  "compute_capiocl_token_name current path type =
     (let abs = absolute current path;
          new_filename = ''.'' @ filename abs @ token_suffix type
      in path_append (parent_path abs) new_filename)"

definition file_exists :: "disk \<Rightarrow> string \<Rightarrow> bool" where
  "file_exists d name \<longleftrightarrow> files d (path_key name) \<noteq> None"

text \<open>
  \<open>create_directories\<close> throws when it fails; an \<open>ofstream\<close> that cannot be opened does not, and what
  is written to it is lost.
\<close>

definition write_token :: "string \<Rightarrow> string \<Rightarrow> disk \<Rightarrow> exn + disk" where
  "write_token token_name content d =
     (if file_exists d token_name then Inr d
      else if \<not> mkdir_ok d (parent_path token_name) then Inl (FilesystemError (parent_path token_name))
      else if open_ok d token_name then Inr (d\<lparr>files := (files d)(path_key token_name \<mapsto> content)\<rparr>)
      else Inr d)"

definition generate_home_node_token :: "string \<Rightarrow> string \<Rightarrow> disk \<Rightarrow> exn + disk" where
  "generate_home_node_token path home_node d =
     write_token (compute_capiocl_token_name (cwd d) path HOME_NODE) (home_node @ [CHR 0x0A]) d"

definition generate_commit_token :: "string \<Rightarrow> disk \<Rightarrow> exn + disk" where
  "generate_commit_token path d = write_token (compute_capiocl_token_name (cwd d) path COMMIT) [] d"

record fsm =
  fs_hostname :: string
  fs_home_nodes :: "string \<Rightarrow> string option"

definition new_FileSystemMonitor :: "string \<Rightarrow> fsm" where
  "new_FileSystemMonitor host = \<lparr>fs_hostname = host, fs_home_nodes = Map.empty\<rparr>"

definition fs_setCommitted :: "string \<Rightarrow> disk \<Rightarrow> exn + disk" where
  "fs_setCommitted path d = generate_commit_token path d"

definition fs_isCommitted :: "string \<Rightarrow> disk \<Rightarrow> bool" where
  "fs_isCommitted path d = file_exists d (compute_capiocl_token_name (cwd d) path COMMIT)"

definition fs_setHomeNode :: "string \<Rightarrow> fsm \<Rightarrow> disk \<Rightarrow> exn + disk" where
  "fs_setHomeNode path m d = generate_home_node_token path (fs_hostname m) d"

text \<open>\<open>file >> home_node\<close>: the first word of the file.\<close>

definition first_word :: "string \<Rightarrow> string" where
  "first_word s = takeWhile (\<lambda>c. \<not> is_space c) (dropWhile is_space s)"

definition fs_getHomeNode :: "string \<Rightarrow> disk \<Rightarrow> fsm \<Rightarrow> string \<times> fsm" where
  "fs_getHomeNode path d m =
     (case fs_home_nodes m path of
        Some node \<Rightarrow> (node, m)
      | None \<Rightarrow>
          let home_node = (case files d (path_key (compute_capiocl_token_name (cwd d) path HOME_NODE)) of
                             None \<Rightarrow> NO_HOME_NODE
                           | Some content \<Rightarrow> first_word content)
          in (home_node, m\<lparr>fs_home_nodes := (fs_home_nodes m)(path \<mapsto> home_node)\<rparr>))"

subsection \<open>The abstract backend and the facade\<close>

datatype backend = MonitorInterface | MulticastMonitor mcast | FileSystemMonitor fsm

definition interface_error :: "string \<Rightarrow> string \<Rightarrow> exn" where
  "interface_error what path =
     MonitorException (''Attempted to use MonitorInterface as Monitor backend to '' @ what @ '' commit for: '' @ path)"

definition send_all :: "datagram list \<Rightarrow> world \<Rightarrow> world" where
  "send_all out w = w\<lparr>sent := sent w @ out\<rparr>"

text \<open>The virtual calls. A backend that throws leaves itself and the world as they were.\<close>

fun backend_isCommitted ::
  "string \<Rightarrow> string list \<Rightarrow> backend \<Rightarrow> world \<Rightarrow> (exn + bool) \<times> backend \<times> world" where
  "backend_isCommitted path arrived MonitorInterface w =
     (Inl (interface_error ''check'' path), MonitorInterface, w)"
| "backend_isCommitted path arrived (MulticastMonitor m) w =
     (case mcast_isCommitted path arrived m of
        Inl ex \<Rightarrow> (Inl ex, MulticastMonitor m, w)
      | Inr (b, out, m') \<Rightarrow> (Inr b, MulticastMonitor m', send_all out w))"
| "backend_isCommitted path arrived (FileSystemMonitor m) w =
     (Inr (fs_isCommitted path (the_disk w)), FileSystemMonitor m, w)"

fun backend_setCommitted :: "string \<Rightarrow> backend \<Rightarrow> world \<Rightarrow> (exn + unit) \<times> backend \<times> world" where
  "backend_setCommitted path MonitorInterface w = (Inl (interface_error ''set'' path), MonitorInterface, w)"
| "backend_setCommitted path (MulticastMonitor m) w =
     (let (out, m') = mcast_setCommitted path m in (Inr (), MulticastMonitor m', send_all out w))"
| "backend_setCommitted path (FileSystemMonitor m) w =
     (case fs_setCommitted path (the_disk w) of
        Inl ex \<Rightarrow> (Inl ex, FileSystemMonitor m, w)
      | Inr d \<Rightarrow> (Inr (), FileSystemMonitor m, w\<lparr>the_disk := d\<rparr>))"

fun backend_setHomeNode :: "string \<Rightarrow> backend \<Rightarrow> world \<Rightarrow> (exn + unit) \<times> backend \<times> world" where
  "backend_setHomeNode path MonitorInterface w = (Inl (interface_error ''set'' path), MonitorInterface, w)"
| "backend_setHomeNode path (MulticastMonitor m) w =
     (let (out, m') = mcast_setHomeNode path m in (Inr (), MulticastMonitor m', send_all out w))"
| "backend_setHomeNode path (FileSystemMonitor m) w =
     (case fs_setHomeNode path m (the_disk w) of
        Inl ex \<Rightarrow> (Inl ex, FileSystemMonitor m, w)
      | Inr d \<Rightarrow> (Inr (), FileSystemMonitor m, w\<lparr>the_disk := d\<rparr>))"

text \<open>\<open>None\<close> when the listener of a multicast backend reads out of range meanwhile.\<close>

fun backend_getHomeNode ::
  "string \<Rightarrow> string list \<Rightarrow> backend \<Rightarrow> world \<Rightarrow> ((exn + string) \<times> backend \<times> world) option" where
  "backend_getHomeNode path arrived MonitorInterface w =
     Some (Inl (interface_error ''set'' path), MonitorInterface, w)"
| "backend_getHomeNode path arrived (MulticastMonitor m) w =
     map_option (\<lambda>(node, out, m'). (Inr node, MulticastMonitor m', send_all out w))
       (mcast_getHomeNode path arrived m)"
| "backend_getHomeNode path arrived (FileSystemMonitor m) w =
     (let (node, m') = fs_getHomeNode path (the_disk w) m in Some (Inr node, FileSystemMonitor m', w))"

text \<open>
  \<open>Monitor\<close>: \<open>std::any_of\<close>, \<open>std::for_each\<close> and the loop of \<open>getHomeNode\<close> over the registered
  backends, in order, each leaving at the first exception. \<open>arrived i\<close> is what the listener of the
  \<open>i\<close>-th backend receives during its call.
\<close>

fun monitor_isCommitted ::
  "string \<Rightarrow> (nat \<Rightarrow> string list) \<Rightarrow> backend list \<Rightarrow> world \<Rightarrow> (exn + bool) \<times> backend list \<times> world" where
  "monitor_isCommitted path arrived [] w = (Inr False, [], w)"
| "monitor_isCommitted path arrived (b # bs) w =
     (case backend_isCommitted path (arrived 0) b w of
        (Inr False, b', w') \<Rightarrow>
          (let (r, bs', w'') = monitor_isCommitted path (\<lambda>i. arrived (Suc i)) bs w' in (r, b' # bs', w''))
      | (r, b', w') \<Rightarrow> (r, b' # bs, w'))"

fun for_each_backend ::
  "(backend \<Rightarrow> world \<Rightarrow> (exn + unit) \<times> backend \<times> world) \<Rightarrow> backend list \<Rightarrow> world \<Rightarrow>
     (exn + unit) \<times> backend list \<times> world" where
  "for_each_backend f [] w = (Inr (), [], w)"
| "for_each_backend f (b # bs) w =
     (case f b w of
        (Inl ex, b', w') \<Rightarrow> (Inl ex, b' # bs, w')
      | (Inr u, b', w') \<Rightarrow> (let (r, bs', w'') = for_each_backend f bs w' in (r, b' # bs', w'')))"

definition monitor_setCommitted :: "string \<Rightarrow> backend list \<Rightarrow> world \<Rightarrow> (exn + unit) \<times> backend list \<times> world" where
  "monitor_setCommitted path bs w = for_each_backend (backend_setCommitted path) bs w"

definition monitor_setHomeNode :: "string \<Rightarrow> backend list \<Rightarrow> world \<Rightarrow> (exn + unit) \<times> backend list \<times> world" where
  "monitor_setHomeNode path bs w = for_each_backend (backend_setHomeNode path) bs w"

definition registerMonitorBackend :: "backend \<Rightarrow> backend list \<Rightarrow> backend list" where
  "registerMonitorBackend b bs = bs @ [b]"

fun monitor_getHomeNode ::
  "string \<Rightarrow> (nat \<Rightarrow> string list) \<Rightarrow> backend list \<Rightarrow> world \<Rightarrow> string set \<Rightarrow>
     ((exn + string set) \<times> backend list \<times> world) option" where
  "monitor_getHomeNode path arrived [] w home_nodes = Some (Inr home_nodes, [], w)"
| "monitor_getHomeNode path arrived (b # bs) w home_nodes =
     (case backend_getHomeNode path (arrived 0) b w of
        None \<Rightarrow> None
      | Some (Inl ex, b', w') \<Rightarrow> Some (Inl ex, b' # bs, w')
      | Some (Inr node, b', w') \<Rightarrow>
          map_option (\<lambda>(r, bs', w''). (r, b' # bs', w''))
            (monitor_getHomeNode path (\<lambda>i. arrived (Suc i)) bs w'
              (if node = NO_HOME_NODE then home_nodes else insert node home_nodes)))"

end
