(* ===== verification/CL_Monitor_Spec.thy ===== *)
theory CL_Monitor_Spec
  imports CL_Monitor "HOL-Library.Sublist"
begin

text \<open>
  What the monitor guarantees. The two backends that record commits share one contract
  (\<open>monitor_backend\<close>): a commit that the environment accepts is known afterwards, nothing is
  forgotten, and nothing else becomes known; the locale derives what a whole sequence of commits
  leaves. The properties of the facade and of the tokens on disk follow.
\<close>

locale monitor_backend =
  fixes knows :: "string \<Rightarrow> 's \<Rightarrow> bool"
    and commit :: "string \<Rightarrow> 's \<Rightarrow> exn + 's"
    and accepts :: "string \<Rightarrow> 's \<Rightarrow> bool"
    and same :: "string \<Rightarrow> string \<Rightarrow> bool"
    and ok :: "'s \<Rightarrow> bool"
  assumes commit_known: "ok st \<Longrightarrow> accepts p st \<Longrightarrow> \<exists>st'. commit p st = Inr st' \<and> knows p st'"
    and commit_keeps: "ok st \<Longrightarrow> commit p st = Inr st' \<Longrightarrow> knows q st \<Longrightarrow> knows q st'"
    and commit_only: "ok st \<Longrightarrow> commit p st = Inr st' \<Longrightarrow> knows q st' \<Longrightarrow> knows q st \<or> same p q"
    and commit_ok: "ok st \<Longrightarrow> commit p st = Inr st' \<Longrightarrow> ok st'"
    and commit_accepts: "commit p st = Inr st' \<Longrightarrow> accepts q st' = accepts q st"
    and same_knows: "ok st \<Longrightarrow> same p q \<Longrightarrow> knows p st \<Longrightarrow> knows q st"
begin

lemma commits_exact:
  assumes "ok st" and "list_all (\<lambda>p. accepts p st) ps"
  shows "\<exists>st'. rfold commit ps st = Inr st' \<and> ok st' \<and>
    (\<forall>q. knows q st' \<longleftrightarrow> knows q st \<or> (\<exists>p \<in> set ps. same p q \<or> p = q))"
  using assms
proof (induction ps arbitrary: st)
  case (Cons p ps)
  obtain s where s: "commit p st = Inr s" "knows p s"
    using commit_known [OF Cons.prems(1)] Cons.prems(2) by auto
  have ok: "ok s" by (rule commit_ok [OF Cons.prems(1) s(1)])
  have "list_all (\<lambda>q. accepts q s) ps"
    using Cons.prems(2) by (simp add: commit_accepts [OF s(1)])
  from Cons.IH [OF ok this] obtain st' where st': "rfold commit ps s = Inr st'" "ok st'"
    "\<And>q. knows q st' \<longleftrightarrow> knows q s \<or> (\<exists>p \<in> set ps. same p q \<or> p = q)" by blast
  have "knows q s \<longleftrightarrow> knows q st \<or> same p q \<or> p = q" for q
    using commit_keeps [OF Cons.prems(1) s(1)] commit_only [OF Cons.prems(1) s(1)]
      same_knows [OF ok _ s(2)] s(2) by blast
  with s st' show ?case by auto
qed simp

end

subsection \<open>Tokens\<close>

lemma filename_no_slash: "slash \<notin> set (filename p)"
  by (auto simp: filename_def dest: set_takeWhileD)

lemma is_absolute_absolute: "is_absolute c \<Longrightarrow> is_absolute (absolute c p)"
  by (simp add: absolute_def path_append_absolute)

lemma is_absolute_parent:
  assumes "is_absolute p"
  shows "is_absolute (parent_path p)"
proof (cases "relative_path p = []")
  case True
  with assms show ?thesis by (simp add: parent_path_def)
next
  case False
  define q where "q = rev (dropWhile (\<lambda>c. c = slash) (dropWhile (\<lambda>c. c \<noteq> slash) (rev p)))"
  have "suffix (rev q) (rev p)"
    using suffix_order.trans [OF suffix_dropWhile suffix_dropWhile] by (simp add: q_def)
  then obtain ys where p: "p = q @ ys" by (auto simp: suffix_to_prefix prefix_def)
  have "parent_path p = (if q = [] then [slash] else q)"
    using False assms by (simp add: parent_path_def q_def [symmetric])
  moreover have "is_absolute q" if "q \<noteq> []" using assms that by (simp add: p)
  ultimately show ?thesis by simp
qed

lemma token_suffix_inj: "a @ token_suffix s = b @ token_suffix t \<longleftrightarrow> a = b \<and> s = t"
proof
  assume eq: "a @ token_suffix s = b @ token_suffix t"
  have "last (x @ token_suffix u) = (case u of COMMIT \<Rightarrow> CHR ''t'' | HOME_NODE \<Rightarrow> CHR ''e'')" for x u
    by (cases u) simp_all
  with arg_cong [OF eq, of last] have "s = t" by (cases s; cases t) simp_all
  with eq show "a = b \<and> s = t" by simp
qed simp

lemma token_key:
  assumes "is_absolute c"
  shows "path_key (compute_capiocl_token_name c p t) =
    (True, dir_names (parent_path (absolute c p)) @ [''.'' @ filename (absolute c p) @ token_suffix t])"
proof -
  have "slash \<notin> set (token_suffix t)" by (cases t) simp_all
  then have "slash \<notin> set (''.'' @ filename (absolute c p) @ token_suffix t)"
    using filename_no_slash by simp
  from path_key_append [OF _ _ this] assms show ?thesis
    by (simp add: compute_capiocl_token_name_def Let_def is_absolute_parent is_absolute_absolute)
qed

text \<open>Two paths that name the same file of the same directory.\<close>

definition same_file :: "string \<Rightarrow> string \<Rightarrow> string \<Rightarrow> bool" where
  "same_file c p q \<longleftrightarrow>
     dir_names (parent_path (absolute c p)) = dir_names (parent_path (absolute c q)) \<and>
     filename (absolute c p) = filename (absolute c q)"

lemma token_key_eq:
  assumes "is_absolute c"
  shows "path_key (compute_capiocl_token_name c p s) = path_key (compute_capiocl_token_name c q t) \<longleftrightarrow>
    same_file c p q \<and> s = t"
  by (auto simp: token_key [OF assms] same_file_def token_suffix_inj)

subsection \<open>The backends keep the contract\<close>

lemma write_token_cases:
  assumes "write_token t content d = Inr d'"
  shows "d' = d \<or> (\<not> file_exists d t \<and> mkdir_ok d (parent_path t) \<and> open_ok d t \<and>
    d' = d\<lparr>files := (files d)(path_key t \<mapsto> content)\<rparr>)"
  using assms by (auto simp: write_token_def split: if_splits)

lemma write_token_same:
  "write_token t content d = Inr d' \<Longrightarrow> cwd d' = cwd d \<and> mkdir_ok d' = mkdir_ok d \<and> open_ok d' = open_ok d"
  by (drule write_token_cases) auto

text \<open>What it takes for a token to appear.\<close>

definition can_write :: "disk \<Rightarrow> string \<Rightarrow> bool" where
  "can_write d t \<longleftrightarrow> mkdir_ok d (parent_path t) \<and> open_ok d t"

definition fs_accepts :: "string \<Rightarrow> string \<Rightarrow> disk \<Rightarrow> bool" where
  "fs_accepts c p d \<longleftrightarrow> can_write d (compute_capiocl_token_name c p COMMIT)"

interpretation fs: monitor_backend fs_isCommitted fs_setCommitted "fs_accepts c" "same_file c"
  "\<lambda>d. cwd d = c \<and> is_absolute c" for c
proof unfold_locales
  fix p q and d d' :: disk
  let ?t = "\<lambda>p. compute_capiocl_token_name c p COMMIT"
  show "fs_setCommitted p d = Inr d' \<Longrightarrow> fs_accepts c q d' = fs_accepts c q d"
    using write_token_same by (auto simp: fs_setCommitted_def generate_commit_token_def fs_accepts_def can_write_def)
  assume ok: "cwd d = c \<and> is_absolute c"
  then have eq: "fs_isCommitted q d \<longleftrightarrow> file_exists d (?t q)" "fs_setCommitted p d = write_token (?t p) [] d" for p q
    by (auto simp: fs_isCommitted_def fs_setCommitted_def generate_commit_token_def)
  have key: "path_key (?t p) = path_key (?t q) \<longleftrightarrow> same_file c p q" for p q
    using ok token_key_eq by simp
  show "fs_accepts c p d \<Longrightarrow> \<exists>d'. fs_setCommitted p d = Inr d' \<and> fs_isCommitted p d'"
  proof (cases "file_exists d (?t p)")
    case True
    then show ?thesis by (simp add: eq write_token_def)
  next
    case False
    let ?d = "d\<lparr>files := (files d)(path_key (?t p) \<mapsto> [])\<rparr>"
    assume "fs_accepts c p d"
    with False have "write_token (?t p) [] d = Inr ?d"
      by (simp add: write_token_def fs_accepts_def can_write_def)
    moreover have "fs_isCommitted p ?d"
      using ok by (simp add: fs_isCommitted_def file_exists_def)
    ultimately show ?thesis by (simp add: eq)
  qed
  show "same_file c p q \<Longrightarrow> fs_isCommitted p d \<Longrightarrow> fs_isCommitted q d"
    by (simp add: eq file_exists_def key [symmetric])
  assume "fs_setCommitted p d = Inr d'"
  then have w: "write_token (?t p) [] d = Inr d'" by (simp add: eq)
  from write_token_same [OF w] ok show "cwd d' = c \<and> is_absolute c" by simp
  then have eq': "fs_isCommitted q d' \<longleftrightarrow> file_exists d' (?t q)" for q by (simp add: fs_isCommitted_def)
  show "fs_isCommitted q d \<Longrightarrow> fs_isCommitted q d'"
    using write_token_cases [OF w] by (auto simp: eq eq' file_exists_def)
  show "fs_isCommitted q d' \<Longrightarrow> fs_isCommitted q d \<or> same_file c p q"
    using write_token_cases [OF w] by (auto simp: eq eq' file_exists_def key [symmetric] split: if_splits)
qed

lemma knows_push: "mcast_knows q (m\<lparr>mc_committed_files := push_new path_eq p (mc_committed_files m)\<rparr>) \<longleftrightarrow>
    mcast_knows q m \<or> path_eq p q"
  using path_eq_trans by (auto simp: mcast_knows_def push_new_def list_ex_iff)

interpretation mc: monitor_backend mcast_knows "\<lambda>p m. Inr (snd (mcast_setCommitted p m))" "\<lambda>_ _. True"
  path_eq "\<lambda>_. True"
proof unfold_locales
  fix p q and m m' :: mcast
  show "path_eq p q \<Longrightarrow> mcast_knows p m \<Longrightarrow> mcast_knows q m"
    using path_eq_trans by (auto simp: mcast_knows_def list_ex_iff)
qed (auto simp: mcast_setCommitted_def knows_push)

subsection \<open>Properties of the file system backend\<close>

lemma same_file_refl [simp]: "same_file c p p"
  by (simp add: same_file_def)


definition demo_disk :: disk where
  "demo_disk = \<lparr>files = Map.empty, cwd = ''/home/u'', mkdir_ok = (\<lambda>_. True), open_ok = (\<lambda>_. True)\<rparr>"


text \<open>
  Two tokens have the same name exactly when they are of the same kind and their paths name the
  same file of the same directory: a commit token is never taken for a home node token.
\<close>

theorem token_names_distinct:
  assumes "is_absolute c"
  shows "path_eq (compute_capiocl_token_name c p s) (compute_capiocl_token_name c q t) \<longleftrightarrow>
    same_file c p q \<and> s = t"
  by (simp add: path_eq_key token_key_eq [OF assms])

theorem token_names_distinct_witness:
  "compute_capiocl_token_name ''/w'' ''d/f'' COMMIT = ''/w/d/.f.commit'' \<and>
   \<not> path_eq (compute_capiocl_token_name ''/w'' ''d/f'' COMMIT) (compute_capiocl_token_name ''/w'' ''d/f'' HOME_NODE)"
proof -
  have "compute_capiocl_token_name ''/w'' ''d/f'' COMMIT = ''/w/d/.f.commit''" and "is_absolute ''/w''"
    by code_simp+
  then show ?thesis using token_names_distinct [of "''/w''" "''d/f''" COMMIT "''d/f''" HOME_NODE] by simp
qed

lemma first_word_line: "list_all (\<lambda>c. \<not> is_space c) w \<Longrightarrow> first_word (w @ [CHR 0x0A]) = w"
proof -
  assume w: "list_all (\<lambda>c. \<not> is_space c) w"
  have nl: "is_space CHR 0x0A" by (simp add: is_space_def)
  show ?thesis
  proof (cases w)
    case Nil
    with nl show ?thesis by (simp add: first_word_def)
  next
    case (Cons c r)
    with w nl show ?thesis by (auto simp: first_word_def takeWhile_append list_all_iff)
  qed
qed

text \<open>
  The home node that one process writes to disk is the one every process that has not asked
  before reads back, when the host name is a word and there was no token yet.
\<close>

theorem fs_home_node_roundtrip:
  assumes "can_write d (compute_capiocl_token_name (cwd d) path HOME_NODE)"
    and "\<not> file_exists d (compute_capiocl_token_name (cwd d) path HOME_NODE)"
    and "list_all (\<lambda>c. \<not> is_space c) (fs_hostname m)" and "fs_home_nodes reader path = None"
  shows "\<exists>d'. fs_setHomeNode path m d = Inr d' \<and> fst (fs_getHomeNode path d' reader) = fs_hostname m"
  using assms first_word_line [OF assms(3)]
  by (simp add: fs_setHomeNode_def generate_home_node_token_def write_token_def can_write_def
      fs_getHomeNode_def Let_def)

theorem fs_home_node_roundtrip_witness:
  "\<exists>d'. fs_setHomeNode ''f'' (new_FileSystemMonitor ''node1'') demo_disk = Inr d' \<and>
     fst (fs_getHomeNode ''f'' d' (new_FileSystemMonitor ''node2'')) = ''node1''"
proof -
  have "can_write demo_disk (compute_capiocl_token_name (cwd demo_disk) ''f'' HOME_NODE)"
    and "\<not> file_exists demo_disk (compute_capiocl_token_name (cwd demo_disk) ''f'' HOME_NODE)"
    and "list_all (\<lambda>c. \<not> is_space c) (fs_hostname (new_FileSystemMonitor ''node1''))"
    by (code_simp, code_simp, code_simp)
  from fs_home_node_roundtrip [OF this, of "new_FileSystemMonitor ''node2''"] show ?thesis
    by (simp add: new_FileSystemMonitor_def)
qed

text \<open>
  A process that asks for a home node before it is set keeps the answer \<open>NO_HOME_NODE\<close>: it is
  cached, and whatever is written to the disk later is never looked at again.
\<close>

theorem fs_home_node_absence_is_cached:
  assumes "fst (fs_getHomeNode path d m) = NO_HOME_NODE"
  shows "fst (fs_getHomeNode path d' (snd (fs_getHomeNode path d m))) = NO_HOME_NODE"
  using assms by (auto simp: fs_getHomeNode_def Let_def split: option.splits)

theorem fs_home_node_absence_is_cached_witness:
  "(let asked = snd (fs_getHomeNode ''f'' demo_disk (new_FileSystemMonitor ''node2''));
        d' = projr (fs_setHomeNode ''f'' (new_FileSystemMonitor ''node1'') demo_disk)
    in fst (fs_getHomeNode ''f'' d' asked) = NO_HOME_NODE \<and>
       fst (fs_getHomeNode ''f'' d' (new_FileSystemMonitor ''node2'')) = ''node1'')"
proof -
  have "fst (fs_getHomeNode ''f'' demo_disk (new_FileSystemMonitor ''node2'')) = NO_HOME_NODE"
    by code_simp
  moreover have "fst (fs_getHomeNode ''f'' (projr (fs_setHomeNode ''f'' (new_FileSystemMonitor ''node1'') demo_disk))
      (new_FileSystemMonitor ''node2'')) = ''node1''"
    by code_simp
  ultimately show ?thesis
    using fs_home_node_absence_is_cached unfolding Let_def by blast
qed

subsection \<open>Properties of the facade\<close>

lemma for_each_commit:
  assumes "for_each_backend (backend_setCommitted path) bs w = (Inr (), bs', w')"
  shows "MonitorInterface \<notin> set bs' \<and> length bs' = length bs \<and>
    (\<forall>m. MulticastMonitor m \<in> set bs' \<longrightarrow> mcast_knows path m) \<and>
    ((\<exists>m. MulticastMonitor m \<in> set bs) \<longleftrightarrow> (\<exists>m. MulticastMonitor m \<in> set bs'))"
  using assms
proof (induction bs arbitrary: w bs' w')
  case (Cons b bs)
  obtain r b1 w1 where step: "backend_setCommitted path b w = (r, b1, w1)" by (cases "backend_setCommitted path b w")
  with Cons.prems obtain bs1 where rest: "for_each_backend (backend_setCommitted path) bs w1 = (Inr (), bs1, w')"
      and bs': "bs' = b1 # bs1" and r: "r = Inr ()"
    by (cases r) (auto split: prod.splits)
  have "b1 \<noteq> MonitorInterface \<and> (\<forall>m. b1 = MulticastMonitor m \<longrightarrow> mcast_knows path m) \<and>
      ((\<exists>m. b = MulticastMonitor m) \<longleftrightarrow> (\<exists>m. b1 = MulticastMonitor m))"
    using step r by (cases b) (auto simp: mcast_setCommitted_def knows_push split: sum.splits)
  with Cons.IH [OF rest] show ?case by (auto simp: bs')
qed simp

lemma any_of_known:
  assumes "MonitorInterface \<notin> set bs" and "\<forall>m. MulticastMonitor m \<in> set bs \<longrightarrow> mcast_knows path m"
    and "\<exists>m. MulticastMonitor m \<in> set bs"
  shows "fst (monitor_isCommitted path arrived bs w) = Inr True"
  using assms
proof (induction bs arbitrary: arrived w)
  case (Cons b bs)
  show ?case
  proof (cases b)
    case (MulticastMonitor m)
    with Cons.prems show ?thesis by (simp add: mcast_isCommitted_def)
  next
    case (FileSystemMonitor m)
    show ?thesis
    proof (cases "fs_isCommitted path (the_disk w)")
      case False
      with FileSystemMonitor have b: "backend_isCommitted path (arrived 0) b w = (Inr False, b, w)" by simp
      have "fst (monitor_isCommitted path (\<lambda>i. arrived (Suc i)) bs w) = Inr True"
        by (rule Cons.IH) (use Cons.prems FileSystemMonitor in auto)
      with b show ?thesis by (auto simp: case_prod_beta)
    qed (simp add: FileSystemMonitor)
  qed (use Cons.prems in auto)
qed simp

text \<open>
  When \<open>setCommitted\<close> returns, on a monitor that has a multicast backend, \<open>isCommitted\<close> answers
  yes from then on, whatever the listeners receive meanwhile and whether or not the tokens of the
  other backends could be written.
\<close>

theorem monitor_commit_visible:
  assumes "monitor_setCommitted path bs w = (Inr (), bs', w')" and "\<exists>m. MulticastMonitor m \<in> set bs"
  shows "fst (monitor_isCommitted path arrived bs' w') = Inr True"
  using for_each_commit [OF assms(1) [unfolded monitor_setCommitted_def]] assms(2)
  by (intro any_of_known) auto

lemma mcast_defaults:
  "new_MulticastMonitor host (loadDefaults conf) =
     Inr \<lparr>MULTICAST_COMMIT_ADDR = ''224.224.224.1'', MULTICAST_COMMIT_PORT = 12345,
          MULTICAST_HOME_NODE_ADDR = ''224.224.224.2'', MULTICAST_HOME_NODE_PORT = 12345,
          MULTICAST_DELAY_MILLIS = 300, mc_committed_files = [], mc_home_nodes = Map.empty,
          mc_hostname = host\<rparr>"
proof -
  have look: "loadDefaults conf ''monitor.mcast.commit.ip'' = Some ''224.224.224.1''"
    "loadDefaults conf ''monitor.mcast.commit.port'' = Some ''12345''"
    "loadDefaults conf ''monitor.mcast.homenode.ip'' = Some ''224.224.224.2''"
    "loadDefaults conf ''monitor.mcast.homenode.port'' = Some ''12345''"
    "loadDefaults conf ''monitor.mcast.delay_ms'' = Some ''300''"
    by (simp_all add: loadDefaults_def config_set_entry_def config_set_def default_entries)
  have "dec_of 12345 = ''12345''" "dec_of 300 = ''300''"
    by (simp_all add: dec_of.simps digit_char_def char_of_def bit_0)
  with stoi_dec [of 12345] stoi_dec [of 300]
  have "stoi ''12345'' = Inr 12345" "stoi ''300'' = Inr 300" by simp_all
  with look show ?thesis
    by (simp add: new_MulticastMonitor_def getParameter_string_def getParameter_int_def)
qed

definition demo_mcast :: mcast where
  "demo_mcast = projr (new_MulticastMonitor ''node1'' (loadDefaults Map.empty))"

theorem monitor_commit_visible_witness:
  "fst (monitor_isCommitted ''f'' (\<lambda>_. [])
     (fst (snd (monitor_setCommitted ''f'' [MulticastMonitor demo_mcast] \<lparr>the_disk = demo_disk, sent = []\<rparr>)))
     (snd (snd (monitor_setCommitted ''f'' [MulticastMonitor demo_mcast] \<lparr>the_disk = demo_disk, sent = []\<rparr>)))) =
   Inr True"
proof (rule monitor_commit_visible)
  let ?r = "monitor_setCommitted ''f'' [MulticastMonitor demo_mcast] \<lparr>the_disk = demo_disk, sent = []\<rparr>"
  have "fst ?r = Inr ()"
    by (simp add: monitor_setCommitted_def mcast_setCommitted_def)
  then show "?r = (Inr (), fst (snd ?r), snd (snd ?r))" by (metis prod.collapse)
  show "\<exists>m. MulticastMonitor m \<in> set [MulticastMonitor demo_mcast]" by simp
qed

text \<open>
  With the default configuration, over whatever was configured before, the multicast backend
  starts, with the default delay and with separate groups for commits and home nodes.
\<close>

lemma default_configuration_starts_multicast:
  "\<exists>m. new_MulticastMonitor host (loadDefaults conf) = Inr m \<and> MULTICAST_DELAY_MILLIS m = 300 \<and>
    (MULTICAST_COMMIT_ADDR m, MULTICAST_COMMIT_PORT m) \<noteq> (MULTICAST_HOME_NODE_ADDR m, MULTICAST_HOME_NODE_PORT m)"
  by (simp add: mcast_defaults)

end
