(* ===== verification/CL_Multicast_Net.thy ===== *)
theory CL_Multicast_Net
  imports CL_Monitor_Spec
begin

text \<open>
  Several processes with multicast monitors on one network, as a step relation. A process commits a
  path, asks for one, or its listener receives a datagram that was sent to its group; a datagram can
  be lost, late, repeated or out of order, so the network is everything ever sent. Processes join
  with any configuration; one that stops is one that takes no more steps.

  The invariant is that a process only believes what somebody committed. The properties of the
  home node protocol are at the end.
\<close>

record net =
  nodes :: "mcast list"
  wire :: "datagram list"

datatype net_event = Commits nat string | Asks nat string | Hears nat datagram | Joins mcast

definition in_group :: "datagram \<Rightarrow> mcast \<Rightarrow> bool" where
  "in_group d m \<longleftrightarrow> dst_ip d = MULTICAST_COMMIT_ADDR m \<and> dst_port d = MULTICAST_COMMIT_PORT m"

inductive net_step :: "net \<Rightarrow> net_event \<Rightarrow> net \<Rightarrow> bool" where
  commits: "n < length (nodes N) \<Longrightarrow> mcast_setCommitted p (nodes N ! n) = (out, m) \<Longrightarrow>
    net_step N (Commits n p) (N\<lparr>nodes := (nodes N)[n := m], wire := wire N @ out\<rparr>)"
| asks: "n < length (nodes N) \<Longrightarrow> \<not> mcast_knows p (nodes N ! n) \<Longrightarrow>
    net_step N (Asks n p) (N\<lparr>wire := wire N @
      [send_message (MULTICAST_COMMIT_ADDR (nodes N ! n)) (MULTICAST_COMMIT_PORT (nodes N ! n)) p GET]\<rparr>)"
| hears: "n < length (nodes N) \<Longrightarrow> d \<in> set (wire N) \<Longrightarrow> in_group d (nodes N ! n) \<Longrightarrow>
    commit_listen (payload d) (nodes N ! n) = Inr (out, m) \<Longrightarrow>
    net_step N (Hears n d) (N\<lparr>nodes := (nodes N)[n := m], wire := wire N @ out\<rparr>)"
| joins: "new_MulticastMonitor host conf = Inr m \<Longrightarrow>
    net_step N (Joins m) (N\<lparr>nodes := nodes N @ [m]\<rparr>)"

inductive_cases net_stepE: "net_step N e N'"

inductive net_run :: "net_event list \<Rightarrow> net \<Rightarrow> bool" where
  empty: "net_run [] \<lparr>nodes = [], wire = []\<rparr>"
| further: "net_run es N \<Longrightarrow> net_step N e N' \<Longrightarrow> net_run (es @ [e]) N'"

fun commits_of :: "net_event list \<Rightarrow> string list" where
  "commits_of [] = []"
| "commits_of (Commits n p # es) = p # commits_of es"
| "commits_of (_ # es) = commits_of es"

lemma commits_of_append [simp]: "commits_of (es @ fs) = commits_of es @ commits_of fs"
  by (induction es rule: commits_of.induct) auto

subsection \<open>What a listener makes of a message\<close>

text \<open>The path that arrives: up to the first NUL, and what fits in the buffer.\<close>

definition wire_path :: "string \<Rightarrow> string" where
  "wire_path p = take (MESSAGE_SIZE - 3) (c_str p)"

definition wire_safe :: "string \<Rightarrow> bool" where
  "wire_safe p \<longleftrightarrow> CHR 0x00 \<notin> set p \<and> length p \<le> MESSAGE_SIZE - 3"

lemma c_str_id: "CHR 0x00 \<notin> set p \<Longrightarrow> c_str p = p"
  by (auto simp: c_str_def takeWhile_eq_all_conv)

lemma c_str_no_nul [simp]: "CHR 0x00 \<notin> set (c_str p)"
  by (auto simp: c_str_def dest: set_takeWhileD)

lemma wire_path_safe: "wire_safe p \<Longrightarrow> wire_path p = p"
  by (simp add: wire_path_def wire_safe_def c_str_id)

lemma wire_path_idem [simp]: "wire_path (wire_path p) = wire_path p"
proof -
  have "CHR 0x00 \<notin> set (take n (c_str p))" for n
    using c_str_no_nul [of p] by (auto dest: in_set_takeD)
  then show ?thesis by (simp add: wire_path_def c_str_id)
qed

lemma MESSAGE_SIZE_Suc: "MESSAGE_SIZE - 1 = Suc (Suc (MESSAGE_SIZE - 3))"
  by (simp add: MESSAGE_SIZE_def PATH_MAX_def)

lemma send_text_eq: "send_text p a = command_char a # CHR '' '' # wire_path p"
  by (simp only: send_text_def MESSAGE_SIZE_Suc take_Suc_Cons wire_path_def)

lemma c_str_send_text [simp]: "c_str (send_text p a) = send_text p a"
proof (rule c_str_id)
  have "CHR 0x00 \<notin> set (wire_path p)"
    using c_str_no_nul [of p] by (auto simp: wire_path_def dest: in_set_takeD)
  then show "CHR 0x00 \<notin> set (send_text p a)" by (cases a) (auto simp: send_text_eq)
qed

lemma commit_receive_text:
  "commit_receive ip port (send_text p a) cs =
     Inr (if a = SET then ([], push_new (=) (wire_path p) cs)
          else if wire_path p \<in> set cs then ([send_message ip port (wire_path p) SET], cs)
          else ([], cs))"
  by (cases a) (simp_all add: commit_receive_def, simp_all add: send_text_eq)

subsection \<open>The invariant\<close>

definition believed :: "string set \<Rightarrow> string set" where
  "believed C = C \<union> wire_path ` C"

definition net_inv :: "string set \<Rightarrow> net \<Rightarrow> bool" where
  "net_inv C N \<longleftrightarrow>
     (\<forall>m \<in> set (nodes N). set (mc_committed_files m) \<subseteq> believed C) \<and>
     (\<forall>d \<in> set (wire N). \<exists>q a. payload d = send_text q a \<and> (a = SET \<longrightarrow> q \<in> believed C))"

lemma believed_wire: "q \<in> believed C \<Longrightarrow> wire_path q \<in> believed C"
  by (auto simp: believed_def)

lemma believed_mono: "C \<subseteq> D \<Longrightarrow> believed C \<subseteq> believed D"
  by (auto simp: believed_def)

lemma net_inv_mono: "C \<subseteq> D \<Longrightarrow> net_inv C N \<Longrightarrow> net_inv D N"
  unfolding net_inv_def using believed_mono [of C D] by blast

lemma update_nodes: "\<forall>m \<in> set ms. P m \<Longrightarrow> P m' \<Longrightarrow> \<forall>m \<in> set (ms[n := m']). P m"
  using set_update_subset_insert [of ms n m'] by blast

lemma commit_listen_text:
  assumes "commit_listen (payload d) m = Inr (out, m')" and "payload d = send_text q a"
    and "a = SET \<longrightarrow> q \<in> believed C" and "set (mc_committed_files m) \<subseteq> believed C"
  shows "set (mc_committed_files m') \<subseteq> believed C \<and>
    (\<forall>d \<in> set out. \<exists>q a. payload d = send_text q a \<and> (a = SET \<longrightarrow> q \<in> believed C))"
  using assms
  by (auto simp: commit_listen_def commit_receive_text send_message_def believed_wire split: if_splits) blast

lemma net_step_inv:
  assumes "net_step N e N'" and "net_inv C N"
  shows "net_inv (C \<union> set (commits_of [e])) N'"
  using assms(1)
proof cases
  case (commits n p out m)
  have inv: "net_inv (insert p C) N" by (rule net_inv_mono [OF _ assms(2)]) blast
  have "p \<in> believed (insert p C)" by (simp add: believed_def)
  moreover have "set (mc_committed_files (nodes N ! n)) \<subseteq> believed (insert p C)"
    using inv commits(3) by (simp add: net_inv_def)
  ultimately have "set (mc_committed_files m) \<subseteq> believed (insert p C)"
    and "\<forall>d \<in> set out. payload d = send_text p SET"
    using commits(4) by (auto simp: mcast_setCommitted_def push_new_def send_message_def split: if_splits)
  with inv commits \<open>p \<in> believed (insert p C)\<close> show ?thesis
    by (auto simp: net_inv_def dest!: set_update_subset_insert [THEN subsetD])
next
  case (asks n p)
  with assms(2) show ?thesis by (auto simp: net_inv_def send_message_def)
next
  case (hears n d out m)
  obtain q a where "payload d = send_text q a" "a = SET \<longrightarrow> q \<in> believed C"
    using assms(2) hears by (auto simp: net_inv_def)
  moreover have "set (mc_committed_files (nodes N ! n)) \<subseteq> believed C"
    using assms(2) hears by (simp add: net_inv_def)
  ultimately have "set (mc_committed_files m) \<subseteq> believed C \<and>
      (\<forall>d \<in> set out. \<exists>q a. payload d = send_text q a \<and> (a = SET \<longrightarrow> q \<in> believed C))"
    using commit_listen_text hears by blast
  with assms(2) hears show ?thesis
    by (auto simp: net_inv_def dest!: set_update_subset_insert [THEN subsetD])
next
  case (joins host conf m)
  then have "mc_committed_files m = []" by (auto simp: new_MulticastMonitor_def rbind_Inr_iff)
  with assms(2) joins show ?thesis by (auto simp: net_inv_def)
qed

lemma net_run_inv: "net_run es N \<Longrightarrow> net_inv (set (commits_of es)) N"
proof (induction rule: net_run.induct)
  case empty
  show ?case by (simp add: net_inv_def)
next
  case (further es N e N')
  from net_step_inv [OF further(2,3)] show ?case by simp
qed

lemma net_step_length: "net_step N e N' \<Longrightarrow> length (nodes N) \<le> length (nodes N')"
  by (auto elim!: net_stepE)

text \<open>A process never forgets a commit.\<close>

lemma knows_subset: "set (mc_committed_files m) \<subseteq> set (mc_committed_files m') \<Longrightarrow> mcast_knows p m \<Longrightarrow> mcast_knows p m'"
  by (auto simp: mcast_knows_def list_ex_iff)

lemma commit_listen_keeps:
  "commit_listen msg m = Inr (out, m') \<Longrightarrow> set (mc_committed_files m) \<subseteq> set (mc_committed_files m')"
  by (auto simp: commit_listen_def commit_receive_def Let_def rbind_Inr_iff split: if_splits)

lemma net_step_keeps:
  assumes "net_step N e N'" and "n < length (nodes N)" and "mcast_knows p (nodes N ! n)"
  shows "mcast_knows p (nodes N' ! n)"
  using assms(1)
proof cases
  case (commits k q out m)
  have "set (mc_committed_files (nodes N ! k)) \<subseteq> set (mc_committed_files m)"
    using commits(4) by (auto simp: mcast_setCommitted_def push_new_def)
  with commits assms(2,3) show ?thesis by (auto simp: nth_list_update knows_subset)
next
  case (hears k d out m)
  from commit_listen_keeps [OF hears(6)] hears assms(2,3) show ?thesis
    by (auto simp: nth_list_update knows_subset)
qed (use assms(2,3) in \<open>auto simp: nth_append\<close>)

subsection \<open>Properties of the commit protocol\<close>


definition demo_start :: mcast where
  "demo_start = projr (new_MulticastMonitor ''node1'' (loadDefaults Map.empty))"

lemma demo_start: "new_MulticastMonitor ''node1'' (loadDefaults Map.empty) = Inr demo_start"
  by (simp add: demo_start_def mcast_defaults)

definition demo_net :: net where
  "demo_net = \<lparr>nodes = [snd (mcast_setCommitted ''f'' demo_start), demo_start],
               wire = fst (mcast_setCommitted ''f'' demo_start)\<rparr>"

lemma demo_net_run: "net_run [Joins demo_start, Joins demo_start, Commits 0 ''f''] demo_net"
proof -
  let ?N0 = "\<lparr>nodes = [], wire = []\<rparr>" and ?N1 = "\<lparr>nodes = [demo_start], wire = []\<rparr>"
  let ?N2 = "\<lparr>nodes = [demo_start, demo_start], wire = []\<rparr>"
  have "net_step ?N0 (Joins demo_start) ?N1" and "net_step ?N1 (Joins demo_start) ?N2"
    using net_step.joins [OF demo_start, of ?N0] net_step.joins [OF demo_start, of ?N1] by simp_all
  moreover have "net_step ?N2 (Commits 0 ''f'') demo_net"
    using net_step.commits [of 0 ?N2 "''f''" "fst (mcast_setCommitted ''f'' demo_start)"
        "snd (mcast_setCommitted ''f'' demo_start)"]
    by (simp add: demo_net_def)
  ultimately show ?thesis
    using net_run.further [OF net_run.further [OF net_run.further [OF net_run.empty]]] by simp
qed


text \<open>
  No datagram the protocol itself produces can make a listener throw, although \<open>substr(2)\<close>
  does on shorter ones; and hearing it never makes a process forget a commit.
\<close>

theorem listener_never_throws:
  assumes "net_run es N" and "d \<in> set (wire N)"
  shows "\<exists>out m'. commit_listen (payload d) m = Inr (out, m') \<and> (mcast_knows p m \<longrightarrow> mcast_knows p m')"
proof -
  obtain q a where "payload d = send_text q a"
    using net_run_inv [OF assms(1)] assms(2) by (auto simp: net_inv_def)
  then have "\<exists>out m'. commit_listen (payload d) m = Inr (out, m')"
    by (simp add: commit_listen_def commit_receive_text)
  then obtain out m' where "commit_listen (payload d) m = Inr (out, m')" by blast
  with commit_listen_keeps [OF this] knows_subset show ?thesis by blast
qed

theorem listener_never_throws_witness:
  "(\<exists>out m'. commit_listen ''! f'' demo_start = Inr (out, m')) \<and> commit_listen ''!'' demo_start = Inl OutOfRange"
proof -
  let ?d = "hd (wire demo_net)"
  have "payload ?d = ''! f''"
    by (simp add: demo_net_def mcast_setCommitted_def send_message_def send_text_eq wire_path_safe
        wire_safe_def MESSAGE_SIZE_def PATH_MAX_def)
  moreover have "?d \<in> set (wire demo_net)" by (simp add: demo_net_def mcast_setCommitted_def)
  moreover have "commit_listen ''!'' demo_start = Inl OutOfRange"
    by (simp add: commit_listen_def commit_receive_def c_str_def)
  ultimately show ?thesis using listener_never_throws [OF demo_net_run] by metis
qed



subsection \<open>Properties of the home node protocol\<close>

lemma tokens_word: "CHR '' '' \<notin> set w \<Longrightarrow> tokens_from acc (w @ s) = tokens_from (acc @ w) s"
  by (induction w arbitrary: acc) auto

lemma tokens_space [simp]: "acc \<noteq> [] \<Longrightarrow> tokens_from acc (CHR '' '' # s) = acc # tokens_from [] s"
  by simp

lemma c_str_text_safe: "wire_safe x \<Longrightarrow> c_str (send_text x a) = command_char a # CHR '' '' # x"
  by (simp only: c_str_send_text) (simp add: send_text_eq wire_path_safe)

text \<open>A path or host name that the space separated message carries whole.\<close>

definition home_word :: "string \<Rightarrow> bool" where
  "home_word w \<longleftrightarrow> w \<noteq> [] \<and> CHR '' '' \<notin> set w"

lemma home_message_tokens:
  assumes "home_word p" and "home_word h" and "wire_safe (p @ '' '' @ h)"
  shows "tokens_from [] (c_str (send_text (p @ '' '' @ h) SET)) = [''!'', p, h]"
proof -
  have "tokens_from [] (p @ CHR '' '' # h) = [p, h]"
    using assms(1,2) tokens_word [of p "[]" "CHR '' '' # h"] tokens_word [of h "[]" "[]"]
    by (simp add: home_word_def)
  moreover have "tokens_from [] (c_str (send_text (p @ '' '' @ h) SET)) = ''!'' # tokens_from [] (p @ CHR '' '' # h)"
    using assms(3) by (simp add: c_str_text_safe del: c_str_send_text)
  ultimately show ?thesis by simp
qed

text \<open>
  The announcement of a home node reaches the table of every listener as it was made, when the
  path and the host name contain no space and fit the message.
\<close>

theorem home_node_announcement:
  assumes "home_word path" and "home_word (mc_hostname m)" and "wire_safe (path @ '' '' @ mc_hostname m)"
  shows "\<exists>d m'. mcast_setHomeNode path m = ([d], m') \<and> mc_home_nodes m' path = Some (mc_hostname m) \<and>
    home_listen (payload d) listener =
      Some ([], listener\<lparr>mc_home_nodes := (mc_home_nodes listener)(path \<mapsto> mc_hostname m)\<rparr>)"
  using home_message_tokens [OF assms]
  by (simp add: mcast_setHomeNode_def send_message_def home_listen_def home_receive_def
      del: c_str_send_text)

theorem home_node_announcement_witness:
  "\<exists>d m'. mcast_setHomeNode ''f'' demo_start = ([d], m') \<and>
    home_listen (payload d) demo_start = Some ([], demo_start\<lparr>mc_home_nodes := [''f'' \<mapsto> ''node1'']\<rparr>)"
proof -
  have start: "mc_hostname demo_start = ''node1''" "mc_home_nodes demo_start = Map.empty"
    by (simp_all add: demo_start_def mcast_defaults)
  then have "home_word ''f''" and "home_word (mc_hostname demo_start)"
    and "wire_safe (''f'' @ '' '' @ mc_hostname demo_start)"
    by (simp_all add: home_word_def wire_safe_def MESSAGE_SIZE_def PATH_MAX_def)
  from home_node_announcement [OF this, of demo_start] start show ?thesis by auto
qed

text \<open>
  With a space in the path the listeners learn something else: the path up to the space, with
  the rest of it as its home node.
\<close>

theorem home_node_of_spaced_path:
  assumes "home_word p" and "home_word q" and "home_word (mc_hostname m)"
    and "wire_safe (p @ '' '' @ q @ '' '' @ mc_hostname m)"
  shows "\<exists>d m'. mcast_setHomeNode (p @ '' '' @ q) m = ([d], m') \<and>
    home_listen (payload d) listener =
      Some ([], listener\<lparr>mc_home_nodes := (mc_home_nodes listener)(p \<mapsto> q)\<rparr>)"
proof -
  let ?h = "mc_hostname m"
  have "tokens_from [] (p @ CHR '' '' # q @ CHR '' '' # ?h) = [p, q, ?h]"
    using assms(1-3) tokens_word [of p "[]" "CHR '' '' # q @ CHR '' '' # ?h"]
      tokens_word [of q "[]" "CHR '' '' # ?h"] tokens_word [of ?h "[]" "[]"]
    by (simp add: home_word_def)
  then have "tokens_from [] (c_str (send_text (p @ CHR '' '' # q @ CHR '' '' # ?h) SET)) = [''!'', p, q, ?h]"
    using assms(4) by (simp add: c_str_text_safe del: c_str_send_text)
  then show ?thesis
    by (simp add: mcast_setHomeNode_def send_message_def home_listen_def home_receive_def
        del: c_str_send_text)
qed

theorem home_node_of_spaced_path_witness:
  "\<exists>d m'. mcast_setHomeNode ''my file'' demo_start = ([d], m') \<and>
    home_listen (payload d) demo_start = Some ([], demo_start\<lparr>mc_home_nodes := [''my'' \<mapsto> ''file'']\<rparr>)"
proof -
  have start: "mc_hostname demo_start = ''node1''" "mc_home_nodes demo_start = Map.empty"
    by (simp_all add: demo_start_def mcast_defaults)
  then have "home_word ''my''" and "home_word ''file''" and "home_word (mc_hostname demo_start)"
    and "wire_safe (''my'' @ '' '' @ ''file'' @ '' '' @ mc_hostname demo_start)"
    by (simp_all add: home_word_def wire_safe_def MESSAGE_SIZE_def PATH_MAX_def)
  from home_node_of_spaced_path [OF this, of demo_start] start show ?thesis by auto
qed

text \<open>
  Asking for the home node of the empty path makes every listener of the group, on every
  machine, read a token that is not there.
\<close>

theorem empty_home_query_breaks_listeners:
  "\<exists>out. (mc_home_nodes m [] = None \<longrightarrow> mcast_getHomeNode [] [] m = Some (NO_HOME_NODE, [out], m)) \<and>
    payload out = send_text [] GET \<and> home_listen (payload out) listener = None"
proof -
  let ?d = "send_message (MULTICAST_HOME_NODE_ADDR m) (MULTICAST_HOME_NODE_PORT m) [] GET"
  have "c_str (send_text [] GET) = ''? ''"
    using c_str_text_safe [of "[]" GET] by (simp add: wire_safe_def del: c_str_send_text)
  then have "home_listen (payload ?d) listener = None"
    by (simp add: send_message_def home_listen_def home_receive_def del: c_str_send_text)
  then show ?thesis
    by (intro exI [of _ ?d]) (simp add: mcast_getHomeNode_def, simp add: send_message_def)
qed

theorem empty_home_query_breaks_listeners_witness:
  "\<exists>out. mcast_getHomeNode [] [] demo_start = Some (NO_HOME_NODE, [out], demo_start) \<and>
    home_listen (payload out) demo_start = None"
proof -
  have "mc_home_nodes demo_start [] = None"
    by (simp add: demo_start_def mcast_defaults)
  then show ?thesis using empty_home_query_breaks_listeners [of demo_start demo_start] by blast
qed

end
