(* ===== verification/CL_Api.thy ===== *)
theory CL_Api
  imports CL_Engine_Spec CL_Config
begin

text \<open>
  Entries as JSON (\<open>CapioCLEntry::toJson\<close> and \<open>fromJson\<close> in \<open>src/Engine.cpp\<close>) and the API server
  (\<open>src/api.cpp\<close>), which receives datagrams that carry one entry for one path and adds it to the
  engine.

  The JSON library is a parameter: parsing and printing, and the conversions of a value to a
  string, a \<open>long\<close> and a \<open>bool\<close>, any of which may throw a \<open>json_exception\<close>. A value is \<open>json\<close>; the
  members of an object are found by key, so their order is of no consequence here.
\<close>

datatype json =
    JNull
  | JBool bool
  | JInt int
  | JDouble string
  | JString string
  | JArray "json list"
  | JObject "(string \<times> json) list"

record jsoncons =
  json_parse :: "string \<Rightarrow> exn + json"
  json_to_string :: "json \<Rightarrow> string"
  as_string :: "json \<Rightarrow> exn + string"
  as_long :: "json \<Rightarrow> exn + long"
  as_bool :: "json \<Rightarrow> exn + bool"

definition json_contains :: "string \<Rightarrow> json \<Rightarrow> bool" where
  "json_contains key j = (case j of JObject ms \<Rightarrow> map_of ms key \<noteq> None | _ \<Rightarrow> False)"

definition json_at :: "string \<Rightarrow> json \<Rightarrow> exn + json" where
  "json_at key j =
     (case j of
        JObject ms \<Rightarrow> (case map_of ms key of Some v \<Rightarrow> Inr v | None \<Rightarrow> Inl JsonException)
      | _ \<Rightarrow> Inl JsonException)"

text \<open>\<open>get_value_or\<close>: the default for an absent key (and for null); a value that is no object throws.\<close>

definition get_value_or :: "(json \<Rightarrow> exn + 'a) \<Rightarrow> string \<Rightarrow> 'a \<Rightarrow> json \<Rightarrow> exn + 'a" where
  "get_value_or conv key dflt j =
     (case j of
        JObject ms \<Rightarrow> (case map_of ms key of Some v \<Rightarrow> conv v | None \<Rightarrow> Inr dflt)
      | JNull \<Rightarrow> Inr dflt
      | _ \<Rightarrow> Inl JsonException)"

definition json_array :: "json \<Rightarrow> exn + json list" where
  "json_array j = (case j of JArray xs \<Rightarrow> Inr xs | _ \<Rightarrow> Inl JsonException)"

definition as_strings :: "jsoncons \<Rightarrow> json \<Rightarrow> exn + string list" where
  "as_strings J j =
     rbind (json_array j) (\<lambda>xs. rfold (\<lambda>x acc. rbind (as_string J x) (\<lambda>s. Inr (acc @ [s]))) xs [])"

subsection \<open>Entries\<close>

definition CapioCLEntry_fromJson :: "jsoncons \<Rightarrow> string \<Rightarrow> exn + CapioCLEntry" where
  "CapioCLEntry_fromJson J text =
     rbind (json_parse J text) (\<lambda>j.
     let e = default_entry in
     rbind (if json_contains ''producers'' j then rbind (json_at ''producers'' j) (as_strings J)
            else Inr (producers e)) (\<lambda>ps.
     rbind (if json_contains ''consumers'' j then rbind (json_at ''consumers'' j) (as_strings J)
            else Inr (consumers e)) (\<lambda>cs.
     rbind (if json_contains ''file_dependencies'' j then rbind (json_at ''file_dependencies'' j) (as_strings J)
            else Inr (file_dependencies e)) (\<lambda>ds.
     rbind (get_value_or (as_string J) ''commit_rule'' (commit_rule e) j) (\<lambda>commit.
     rbind (get_value_or (as_string J) ''fire_rule'' (fire_rule e) j) (\<lambda>fire.
     rbind (get_value_or (as_long J) ''directory_children_count'' (directory_children_count e) j) (\<lambda>children.
     rbind (get_value_or (as_long J) ''commit_on_close_count'' (commit_on_close_count e) j) (\<lambda>closes.
     rbind (get_value_or (as_bool J) ''enable_directory_count_update'' (enable_directory_count_update e) j) (\<lambda>upd.
     rbind (get_value_or (as_bool J) ''store_in_memory'' (store_in_memory e) j) (\<lambda>mem.
     rbind (get_value_or (as_bool J) ''permanent'' (permanent e) j) (\<lambda>perm.
     rbind (get_value_or (as_bool J) ''excluded'' (excluded e) j) (\<lambda>excl.
     rbind (get_value_or (as_bool J) ''is_file'' (is_file e) j) (\<lambda>isf.
     Inr \<lparr>producers = ps, consumers = cs, file_dependencies = ds, commit_rule = commit, fire_rule = fire,
          directory_children_count = children, commit_on_close_count = closes,
          enable_directory_count_update = upd, store_in_memory = mem, permanent = perm,
          excluded = excl, is_file = isf\<rparr>)))))))))))))"

definition entry_json :: "CapioCLEntry \<Rightarrow> json" where
  "entry_json e =
     JObject
       [(''producers'', JArray (map JString (producers e))),
        (''consumers'', JArray (map JString (consumers e))),
        (''file_dependencies'', JArray (map JString (file_dependencies e))),
        (''commit_rule'', JString (commit_rule e)),
        (''fire_rule'', JString (fire_rule e)),
        (''directory_children_count'', JInt (sint (directory_children_count e))),
        (''commit_on_close_count'', JInt (sint (commit_on_close_count e))),
        (''enable_directory_count_update'', JBool (enable_directory_count_update e)),
        (''store_in_memory'', JBool (store_in_memory e)),
        (''permanent'', JBool (permanent e)),
        (''excluded'', JBool (excluded e)),
        (''is_file'', JBool (is_file e))]"

definition CapioCLEntry_toJson :: "jsoncons \<Rightarrow> CapioCLEntry \<Rightarrow> string" where
  "CapioCLEntry_toJson J e = json_to_string J (entry_json e)"

subsection \<open>The server\<close>

text \<open>
  One datagram. \<open>continue\<close> and a caught \<open>json_exception\<close> leave the engine as it is. The name of
  the workflow is a reference into the engine, so a later \<open>setWorkflowName\<close> is seen.
\<close>

definition server_receive :: "platform \<Rightarrow> jsoncons \<Rightarrow> string \<Rightarrow> engine \<Rightarrow> engine" where
  "server_receive P J buffer st =
     (case rbind (json_parse J buffer) (\<lambda>data.
           rbind (get_value_or (as_string J) ''path'' [] data) (\<lambda>path.
           if path = [] then Inr st
           else
             rbind (get_value_or (as_string J) ''workflow_name'' [] data) (\<lambda>wf.
             if wf = [] then Inr st
             else
               rbind (get_value_or (as_string J) ''CapioClEntry'' [] data) (\<lambda>jsonEntry.
               if jsonEntry = [] then Inr st
               else
                 rbind (CapioCLEntry_fromJson J jsonEntry) (\<lambda>rule.
                 if wf = getWorkflowName st then Inr (add_entry P path rule st) else Inr st))))) of
        Inl _ \<Rightarrow> st
      | Inr st' \<Rightarrow> st')"

definition server_run :: "platform \<Rightarrow> jsoncons \<Rightarrow> string list \<Rightarrow> engine \<Rightarrow> engine" where
  "server_run P J buffers st = fold (server_receive P J) buffers st"

text \<open>The address and port the server listens on; a parameter that is missing or bad gives the default.\<close>

definition api_address :: "config \<Rightarrow> string" where
  "api_address conf =
     (case getParameter_string ''dynamic_api.ip'' conf of
        Inr v \<Rightarrow> v | Inl _ \<Rightarrow> ce_v DEFAULT_API_MULTICAST_IP)"

definition api_port :: "config \<Rightarrow> exn + cint" where
  "api_port conf =
     (case getParameter_int ''dynamic_api.port'' conf of
        Inr v \<Rightarrow> Inr v | Inl _ \<Rightarrow> stoi (ce_v DEFAULT_API_MULTICAST_PORT))"

subsection \<open>Reading back what was written\<close>

text \<open>What the documentation of the library says of its own values.\<close>

definition json_conversions :: "jsoncons \<Rightarrow> bool" where
  "json_conversions J \<longleftrightarrow>
     (\<forall>s. as_string J (JString s) = Inr s) \<and> (\<forall>b. as_bool J (JBool b) = Inr b) \<and>
     (\<forall>n. as_long J (JInt (sint n)) = Inr n)"

lemma as_strings_JString: "json_conversions J \<Longrightarrow> as_strings J (JArray (map JString ss)) = Inr ss"
proof -
  assume J: "json_conversions J"
  have "rfold (\<lambda>x acc. rbind (as_string J x) (\<lambda>s. Inr (acc @ [s]))) (map JString ss) acc = Inr (acc @ ss)" for acc
    using J by (induction ss arbitrary: acc) (simp_all add: json_conversions_def)
  then show ?thesis by (simp add: as_strings_def json_array_def)
qed

lemma fromJson_entry_json:
  assumes "json_conversions J" and "json_parse J t = Inr (entry_json e)"
  shows "CapioCLEntry_fromJson J t = Inr e"
proof -
  have at: "json_contains ''producers'' (entry_json e)" "json_contains ''consumers'' (entry_json e)"
    "json_contains ''file_dependencies'' (entry_json e)"
    "json_at ''producers'' (entry_json e) = Inr (JArray (map JString (producers e)))"
    "json_at ''consumers'' (entry_json e) = Inr (JArray (map JString (consumers e)))"
    "json_at ''file_dependencies'' (entry_json e) = Inr (JArray (map JString (file_dependencies e)))"
    by (simp_all add: json_contains_def json_at_def entry_json_def)
  have get: "get_value_or (as_string J) ''commit_rule'' d (entry_json e) = Inr (commit_rule e)"
    "get_value_or (as_string J) ''fire_rule'' d (entry_json e) = Inr (fire_rule e)"
    "get_value_or (as_long J) ''directory_children_count'' n (entry_json e) = Inr (directory_children_count e)"
    "get_value_or (as_long J) ''commit_on_close_count'' n (entry_json e) = Inr (commit_on_close_count e)"
    "get_value_or (as_bool J) ''enable_directory_count_update'' b (entry_json e) = Inr (enable_directory_count_update e)"
    "get_value_or (as_bool J) ''store_in_memory'' b (entry_json e) = Inr (store_in_memory e)"
    "get_value_or (as_bool J) ''permanent'' b (entry_json e) = Inr (permanent e)"
    "get_value_or (as_bool J) ''excluded'' b (entry_json e) = Inr (excluded e)"
    "get_value_or (as_bool J) ''is_file'' b (entry_json e) = Inr (is_file e)" for d n b
    using assms(1) by (simp_all add: get_value_or_def entry_json_def json_conversions_def)
  show ?thesis
    by (simp add: CapioCLEntry_fromJson_def assms(2) at get as_strings_JString [OF assms(1)])
qed

subsection \<open>Properties\<close>

text \<open>
  C32. An entry written as JSON is read back as the same entry, member by member, when the
  library reads back the text it wrote for it.
\<close>

theorem entry_json_roundtrip:
  assumes "json_conversions J" and "json_parse J (json_to_string J (entry_json e)) = Inr (entry_json e)"
  shows "CapioCLEntry_fromJson J (CapioCLEntry_toJson J e) = Inr e"
  using fromJson_entry_json [OF assms] by (simp add: CapioCLEntry_toJson_def)

text \<open>An example library that knows two texts: an entry, and a datagram that carries it.\<close>

definition demo_entry :: CapioCLEntry where
  "demo_entry = default_entry\<lparr>producers := [''a'', ''b''], commit_rule := ''whenever'', directory_children_count := 3\<rparr>"

definition demo_json :: jsoncons where
  "demo_json =
     \<lparr>json_parse = (\<lambda>t. if t = ''E'' then Inr (entry_json demo_entry)
        else if t = ''D'' then Inr (JObject [(''path'', JString ''f''), (''workflow_name'', JString ''CAPIO''),
                                              (''CapioClEntry'', JString ''E'')])
        else Inl JsonException),
      json_to_string = (\<lambda>_. ''E''),
      as_string = (\<lambda>j. case j of JString s \<Rightarrow> Inr s | _ \<Rightarrow> Inl JsonException),
      as_long = (\<lambda>j. case j of JInt i \<Rightarrow> Inr (word_of_int i) | _ \<Rightarrow> Inl JsonException),
      as_bool = (\<lambda>j. case j of JBool b \<Rightarrow> Inr b | _ \<Rightarrow> Inl JsonException)\<rparr>"

lemma demo_json_conversions: "json_conversions demo_json"
  by (simp add: json_conversions_def demo_json_def)

theorem entry_json_roundtrip_witness:
  "CapioCLEntry_fromJson demo_json (CapioCLEntry_toJson demo_json demo_entry) = Inr demo_entry"
  by (rule entry_json_roundtrip [OF demo_json_conversions]) (simp add: demo_json_def)

text \<open>
  A well formed datagram for the workflow of the engine adds the entry it carries to the path
  it names, whatever its commit and fire rules are: they are not checked. One for another
  workflow does nothing.
\<close>

theorem server_adds_entry:
  assumes "json_conversions J"
    and "json_parse J buffer =
      Inr (JObject [(''path'', JString path), (''workflow_name'', JString name), (''CapioClEntry'', JString body)])"
    and "path \<noteq> []" and "name \<noteq> []" and "body \<noteq> []" and "json_parse J body = Inr (entry_json e)"
  shows "server_receive P J buffer st = (if name = workflow_name st then add_entry P path e st else st)"
proof -
  let ?data = "JObject [(''path'', JString path), (''workflow_name'', JString name), (''CapioClEntry'', JString body)]"
  have "get_value_or (as_string J) ''path'' [] ?data = Inr path"
    and "get_value_or (as_string J) ''workflow_name'' [] ?data = Inr name"
    and "get_value_or (as_string J) ''CapioClEntry'' [] ?data = Inr body"
    using assms(1) by (simp_all add: get_value_or_def json_conversions_def)
  then show ?thesis
    using assms(3-5) fromJson_entry_json [OF assms(1,6)]
    by (simp add: server_receive_def assms(2) getWorkflowName_def)
qed

theorem server_adds_entry_witness:
  "map_option commit_rule (entry_at (server_receive demo demo_json ''D'' (new_engine demo)) ''f'') =
     Some ''whenever'' \<and> ''whenever'' \<notin> set commit_rules"
proof -
  have "server_receive demo demo_json ''D'' (new_engine demo) =
      (if ''CAPIO'' = workflow_name (new_engine demo) then add_entry demo ''f'' demo_entry (new_engine demo)
       else new_engine demo)"
    by (rule server_adds_entry [OF demo_json_conversions, where body = "''E''"]) (simp_all add: demo_json_def)
  moreover have "''CAPIO'' = workflow_name (new_engine demo)" by code_simp
  moreover have "map_option commit_rule (entry_at (add_entry demo ''f'' demo_entry (new_engine demo)) ''f'') =
      Some ''whenever''" and "''whenever'' \<notin> set commit_rules" by code_simp+
  ultimately show ?thesis by simp
qed

lemma server_receive_cases:
  "server_receive P J buffer st = st \<or> (\<exists>path e. path \<noteq> [] \<and> server_receive P J buffer st = add_entry P path e st)"
  unfolding server_receive_def
  by (split sum.split) (auto simp: rbind_Inr_iff split: if_splits)

lemma wf_add_entry: "engine_wf st \<Longrightarrow> engine_wf (add_entry P p e st)"
  by (auto simp: add_entry_def engine_wf_def um_wf_emplace split: option.split
      intro: wf_modify_at [unfolded engine_wf_def])

lemma known_add_entry: "known st q \<Longrightarrow> known (add_entry P p e st) q"
  by (simp add: add_entry_def known_def um_emplace_keeps del: not_None_eq split: option.split)

text \<open>
  C35. No datagram, however malformed, does anything but add one entry to one non-empty path: after
  any sequence of them the engine is well formed, no path is lost, and the global settings are as they were.
\<close>

theorem server_only_adds:
  assumes "engine_wf st"
  shows "engine_wf (server_run P J buffers st) \<and> set (getPaths st) \<subseteq> set (getPaths (server_run P J buffers st)) \<and>
    store_all_in_memory (server_run P J buffers st) = store_all_in_memory st \<and>
    workflow_name (server_run P J buffers st) = workflow_name st"
proof -
  let ?I = "\<lambda>s. engine_wf s \<and> set (getPaths st) \<subseteq> set (getPaths s) \<and>
    store_all_in_memory s = store_all_in_memory st \<and> workflow_name s = workflow_name st"
  have add: "?I (add_entry P p e s)" if "?I s" for p e s
  proof -
    have "workflow_name (add_entry P p e s) = workflow_name s"
      and "store_all_in_memory (add_entry P p e s) = store_all_in_memory s"
      by (simp_all add: add_entry_def modify_at_def split: option.split)
    moreover have "set (getPaths s) \<subseteq> set (getPaths (add_entry P p e s))"
      using known_add_entry by (auto simp: known_getPaths [symmetric])
    ultimately show ?thesis using that wf_add_entry by auto
  qed
  have "?I (server_run P J buffers st)"
    unfolding server_run_def
  proof (rule fold_invariant [where I = ?I])
    show "?I st" using assms by simp
    show "?I (server_receive P J b s)" if "?I s" for b s
      using server_receive_cases [of P J b s] add [OF that] that by metis
  qed
  then show ?thesis .
qed

theorem server_only_adds_witness:
  "set (getPaths demo_store) \<subseteq> set (getPaths (server_run demo demo_json [''D'', ''junk'', ''D''] demo_store))"
  using server_only_adds [OF demo_wf] by blast

end
