(* ===== verification/CL_Runtime.thy ===== *)
theory CL_Runtime
  imports CL_Engine_Spec CL_Multicast_Net
begin

text \<open>
  The whole \<open>Engine\<close> object: the store of entries together with its configuration and the backends
  of its monitor; the constructor, \<open>useDefaultConfiguration\<close>, \<open>loadConfiguration\<close>, and the
  operations that pass a question on to the monitor.
\<close>

record runtime =
  the_engine :: engine
  configuration :: config
  monitors :: "backend list"

definition useDefaultConfiguration :: "platform \<Rightarrow> runtime \<Rightarrow> exn + runtime" where
  "useDefaultConfiguration P rt =
     (let conf = loadDefaults (configuration rt)
      in rbind (new_MulticastMonitor (hostname P) conf) (\<lambda>m.
         Inr (rt\<lparr>configuration := conf,
                 monitors := registerMonitorBackend (FileSystemMonitor (new_FileSystemMonitor (hostname P)))
                               (registerMonitorBackend (MulticastMonitor m) (monitors rt))\<rparr>)))"

definition Engine :: "platform \<Rightarrow> bool \<Rightarrow> exn + runtime" where
  "Engine P use_default_settings =
     (let rt = \<lparr>the_engine = new_engine P, configuration = Map.empty, monitors = []\<rparr>
      in if use_default_settings then useDefaultConfiguration P rt else Inr rt)"

text \<open>
  The switches are compared with the string \<open>true\<close>; a missing one counts as \<open>false\<close>. An exception of
  the multicast backend, when the file enables it and leaves out one of its options, escapes.
\<close>

definition switch :: "string \<Rightarrow> config \<Rightarrow> bool" where
  "switch key conf =
     ((case getParameter_string key conf of Inr v \<Rightarrow> v | Inl _ \<Rightarrow> ''false'') = ''true'')"

definition register_configured :: "platform \<Rightarrow> runtime \<Rightarrow> exn + runtime" where
  "register_configured P rt =
     rbind (if switch ''monitor.mcast.enabled'' (configuration rt)
            then rbind (new_MulticastMonitor (hostname P) (configuration rt)) (\<lambda>m.
                 Inr (rt\<lparr>monitors := registerMonitorBackend (MulticastMonitor m) (monitors rt)\<rparr>))
            else Inr rt) (\<lambda>rt.
     Inr (if switch ''monitor.filesystem.enabled'' (configuration rt)
          then rt\<lparr>monitors := registerMonitorBackend (FileSystemMonitor (new_FileSystemMonitor (hostname P)))
                                 (monitors rt)\<rparr>
          else rt))"

definition loadConfiguration ::
  "platform \<Rightarrow> (string \<Rightarrow> string + (string \<times> toml) list) \<Rightarrow> string \<Rightarrow> runtime \<Rightarrow> (exn + runtime) option" where
  "loadConfiguration P parse_file path rt =
     (case config_load parse_file path (configuration rt) of
        None \<Rightarrow> None
      | Some (Inl ex) \<Rightarrow> Some (Inl ex)
      | Some (Inr conf) \<Rightarrow> Some (register_configured P (rt\<lparr>configuration := conf\<rparr>)))"

definition isCommitted ::
  "string \<Rightarrow> (nat \<Rightarrow> string list) \<Rightarrow> runtime \<Rightarrow> world \<Rightarrow> (exn + bool) \<times> runtime \<times> world" where
  "isCommitted path arrived rt w =
     (let (r, bs, w') = monitor_isCommitted path arrived (monitors rt) w in (r, rt\<lparr>monitors := bs\<rparr>, w'))"

definition setCommitted :: "string \<Rightarrow> runtime \<Rightarrow> world \<Rightarrow> (exn + unit) \<times> runtime \<times> world" where
  "setCommitted path rt w =
     (let (r, bs, w') = monitor_setCommitted path (monitors rt) w in (r, rt\<lparr>monitors := bs\<rparr>, w'))"

definition setHomeNode :: "string \<Rightarrow> runtime \<Rightarrow> world \<Rightarrow> (exn + unit) \<times> runtime \<times> world" where
  "setHomeNode path rt w =
     (let (r, bs, w') = monitor_setHomeNode path (monitors rt) w in (r, rt\<lparr>monitors := bs\<rparr>, w'))"

definition getHomeNode ::
  "string \<Rightarrow> (nat \<Rightarrow> string list) \<Rightarrow> runtime \<Rightarrow> world \<Rightarrow> ((exn + string set) \<times> runtime \<times> world) option" where
  "getHomeNode path arrived rt w =
     map_option (\<lambda>(r, bs, w'). (r, rt\<lparr>monitors := bs\<rparr>, w'))
       (monitor_getHomeNode path arrived (monitors rt) w {})"

subsection \<open>Construction\<close>

lemma useDefaultConfiguration_Inr:
  "\<exists>m. useDefaultConfiguration P rt =
    Inr (rt\<lparr>configuration := loadDefaults (configuration rt),
            monitors := monitors rt @ [MulticastMonitor m, FileSystemMonitor (new_FileSystemMonitor (hostname P))]\<rparr>)"
  by (auto simp: useDefaultConfiguration_def mcast_defaults registerMonitorBackend_def)

lemma useDefaultConfiguration_engine: "useDefaultConfiguration P rt = Inr rt' \<Longrightarrow> the_engine rt' = the_engine rt"
  using useDefaultConfiguration_Inr [of P rt] by auto

lemma Engine_default_Inr:
  "\<exists>rt. Engine P True = Inr rt \<and> the_engine rt = new_engine P"
  using useDefaultConfiguration_Inr [of P "\<lparr>the_engine = new_engine P, configuration = Map.empty, monitors = []\<rparr>"]
  by (auto simp: Engine_def)

lemma register_configured_engine: "register_configured P rt = Inr rt' \<Longrightarrow> the_engine rt' = the_engine rt"
  by (auto simp: register_configured_def rbind_Inr_iff split: if_splits)

lemma loadConfiguration_engine: "loadConfiguration P parse_file path rt = Some (Inr rt') \<Longrightarrow> the_engine rt' = the_engine rt"
  by (auto simp: loadConfiguration_def split: option.splits sum.splits dest: register_configured_engine)

end
