(* ===== verification/CL_Schema.thy ===== *)
theory CL_Schema
  imports CL_Api
begin

text \<open>
  The JSON schemas of the two file formats (\<open>schema/v1.json\<close>, \<open>schema/v1.1.json\<close>), as predicates on
  JSON values: \<open>obj_schema\<close> is an object without additional properties. The patterns for the commit
  rules are written out. \<open>integer\<close> is a number written without a fraction; a validator may also take
  a number like 2.0, which the documents of this program do not contain.
\<close>

definition obj_schema :: "(string \<times> (json \<Rightarrow> bool)) list \<Rightarrow> string list \<Rightarrow> json \<Rightarrow> bool" where
  "obj_schema props req j =
     (case j of
        JObject ms \<Rightarrow>
          list_all (\<lambda>(k, v). case map_of props k of Some p \<Rightarrow> p v | None \<Rightarrow> False) ms \<and>
          list_all (\<lambda>k. map_of ms k \<noteq> None) req
      | _ \<Rightarrow> False)"

definition is_JString :: "json \<Rightarrow> bool" where
  "is_JString j = (case j of JString _ \<Rightarrow> True | _ \<Rightarrow> False)"

definition is_JInt :: "json \<Rightarrow> bool" where
  "is_JInt j = (case j of JInt _ \<Rightarrow> True | _ \<Rightarrow> False)"

definition is_number :: "json \<Rightarrow> bool" where
  "is_number j = (case j of JInt _ \<Rightarrow> True | JDouble _ \<Rightarrow> True | _ \<Rightarrow> False)"

definition array_of :: "(json \<Rightarrow> bool) \<Rightarrow> json \<Rightarrow> bool" where
  "array_of p j = (case j of JArray xs \<Rightarrow> list_all p xs | _ \<Rightarrow> False)"

definition string_such :: "(string \<Rightarrow> bool) \<Rightarrow> json \<Rightarrow> bool" where
  "string_such p j = (case j of JString s \<Rightarrow> p s | _ \<Rightarrow> False)"

text \<open>\<open>on_close(:[0-9]+)?\<close>\<close>

definition on_close_pattern :: "string \<Rightarrow> bool" where
  "on_close_pattern s \<longleftrightarrow>
     s = ON_CLOSE \<or>
     (take 9 s = ON_CLOSE @ '':'' \<and> drop 9 s \<noteq> [] \<and> list_all is_digit (drop 9 s))"

definition name_committed :: "string \<Rightarrow> bool" where
  "name_committed s \<longleftrightarrow> on_close_pattern s \<or> s = ON_FILE \<or> s = ON_TERMINATION"

definition dirname_committed :: "string \<Rightarrow> bool" where
  "dirname_committed s \<longleftrightarrow> on_close_pattern s \<or> s = ON_FILE \<or> s = ON_N_FILES \<or> s = ON_TERMINATION"

text \<open>The \<open>if\<close>/\<open>then\<close> clauses: a property that starts with a rule makes another one required.\<close>

definition member :: "string \<Rightarrow> json \<Rightarrow> json option" where
  "member k j = (case j of JObject ms \<Rightarrow> map_of ms k | _ \<Rightarrow> None)"

definition needs :: "string \<Rightarrow> string \<Rightarrow> json \<Rightarrow> bool" where
  "needs rule k j =
     (case member ''committed'' j of
        Some (JString s) \<Rightarrow> (if take (length rule) s = rule then member k j \<noteq> None else True)
      | Some _ \<Rightarrow> member k j \<noteq> None
      | None \<Rightarrow> True)"

definition streaming_name_rule :: "json \<Rightarrow> bool" where
  "streaming_name_rule j \<longleftrightarrow>
     obj_schema
       [(''name'', array_of is_JString), (''committed'', string_such name_committed),
        (''mode'', string_such (\<lambda>s. s = UPDATE \<or> s = NO_UPDATE)), (''file_deps'', array_of is_JString),
        (''n_files'', is_JInt)] [''name''] j \<and>
     needs ON_FILE ''file_deps'' j"

definition streaming_dirname_rule :: "json \<Rightarrow> bool" where
  "streaming_dirname_rule j \<longleftrightarrow>
     obj_schema
       [(''dirname'', array_of is_JString), (''committed'', string_such dirname_committed),
        (''mode'', string_such (\<lambda>s. s = UPDATE \<or> s = NO_UPDATE)), (''file_deps'', array_of is_JString),
        (''n_files'', is_JInt)] [''dirname''] j \<and>
     needs ON_FILE ''file_deps'' j \<and> needs ON_N_FILES ''n_files'' j"

definition streaming_item :: "json \<Rightarrow> bool" where
  "streaming_item j \<longleftrightarrow> streaming_name_rule j \<noteq> streaming_dirname_rule j"

definition application :: "json \<Rightarrow> bool" where
  "application =
     obj_schema
       [(''name'', is_JString), (''input_stream'', array_of is_JString), (''output_stream'', array_of is_JString),
        (''streaming'', array_of streaming_item)] [''name'', ''input_stream'', ''output_stream'']"

definition common_properties :: "(string \<times> (json \<Rightarrow> bool)) list" where
  "common_properties =
     [(''name'', is_JString),
      (''aliases'', array_of (obj_schema [(''group_name'', is_JString), (''files'', array_of is_JString)]
                                [''group_name'', ''files''])),
      (''IO_Graph'', array_of application),
      (''permanent'', array_of is_JString),
      (''exclude'', array_of is_JString),
      (''home_node_policies'',
         obj_schema
           [(''create'', array_of is_JString), (''hashing'', array_of is_JString),
            (''manual'', array_of (obj_schema [(''name'', array_of is_JString), (''app_node'', is_JString)]
                                     [''name'', ''app_node'']))] []),
      (''storage'', obj_schema [(''memory'', array_of is_JString), (''fs'', array_of is_JString)] [])]"

definition schema_v1 :: "json \<Rightarrow> bool" where
  "schema_v1 = obj_schema common_properties [''name'', ''IO_Graph'']"

definition schema_v1_1 :: "json \<Rightarrow> bool" where
  "schema_v1_1 =
     obj_schema ([(''version'', is_number), (''configuration'', is_JString)] @ common_properties)
       [''name'', ''IO_Graph'', ''version'']"

subsection \<open>What a valid value has\<close>

lemma member_item: "member k j = Some v \<Longrightarrow> \<exists>ms. j = JObject ms \<and> (k, v) \<in> set ms"
  by (cases j) (auto simp: member_def dest: map_of_SomeD)

lemma obj_schema_item:
  "obj_schema props req (JObject ms) \<Longrightarrow> (k, v) \<in> set ms \<Longrightarrow> \<exists>p. map_of props k = Some p \<and> p v"
  by (auto simp: obj_schema_def list_all_iff split: option.splits)

lemma obj_schema_member:
  assumes "obj_schema props req j" and "member k j = Some v"
  shows "\<exists>p. map_of props k = Some p \<and> p v"
proof -
  obtain ms where "j = JObject ms" "(k, v) \<in> set ms" using member_item [OF assms(2)] by blast
  with assms(1) obj_schema_item show ?thesis by blast
qed

lemma obj_schema_required:
  "obj_schema props req j \<Longrightarrow> k \<in> set req \<Longrightarrow> \<exists>v. member k j = Some v"
  by (auto simp: obj_schema_def member_def list_all_iff split: json.splits)

lemma obj_schema_absent: "obj_schema props req j \<Longrightarrow> map_of props k = None \<Longrightarrow> member k j = None"
  using obj_schema_member [of props req j k] by (cases "member k j") auto

lemma json_at_member: "json_at k j = (case member k j of Some v \<Rightarrow> Inr v | None \<Rightarrow> Inl JsonException)"
  by (auto simp: json_at_def member_def split: json.split)

lemma json_contains_member: "json_contains k j \<longleftrightarrow> member k j \<noteq> None"
  by (auto simp: json_contains_def member_def split: json.split)

end
