(* ===== verification/CL_Parser.thy ===== *)
theory CL_Parser
  imports CL_Runtime CL_Schema
begin

text \<open>
  \<open>capiocl::parser::Parser\<close> (\<open>src/Parser.cpp\<close>, \<open>src/parsers/v1.cpp\<close>, \<open>src/parsers/v1.1.cpp\<close>): from a
  JSON file to an engine. The two formats differ in the schema and in where the configuration comes
  from; the sections are read by the same code in both.

  \<open>read_file\<close> is the content of a file, or \<open>None\<close> if it cannot be opened; validation decides the schema
  (\<open>CL_Schema\<close>). An exception loses the engine under construction, so it is all there is.
\<close>

definition resolve :: "string \<Rightarrow> string \<Rightarrow> string" where
  "resolve path resolve_prefix =
     (if resolve_prefix = [] then path else if is_absolute path then path else path_append resolve_prefix path)"

subsection \<open>One application\<close>

text \<open>
  The two loops over the streams. The name of the application is passed by reference and comes back
  without its white space, so it is part of the state.
\<close>

definition parse_stream ::
  "jsoncons \<Rightarrow> string \<Rightarrow> (string \<Rightarrow> string \<Rightarrow> engine \<Rightarrow> string \<times> engine) \<Rightarrow> json list \<Rightarrow>
     string \<times> engine \<Rightarrow> exn + string \<times> engine" where
  "parse_stream J resolve_prefix register items st =
     rfold (\<lambda>itm (app_name, engine).
       rbind (as_string J itm) (\<lambda>s. Inr (register (resolve s resolve_prefix) app_name engine))) items st"

definition parse_input_stream ::
  "platform \<Rightarrow> jsoncons \<Rightarrow> string \<Rightarrow> json \<Rightarrow> string \<times> engine \<Rightarrow> exn + string \<times> engine" where
  "parse_input_stream P J resolve_prefix app st =
     rbind (rbind (json_at ''input_stream'' app) json_array) (\<lambda>items.
     parse_stream J resolve_prefix (\<lambda>path name engine. addConsumer P path name (newFile P path engine)) items st)"

definition parse_output_stream ::
  "platform \<Rightarrow> jsoncons \<Rightarrow> string \<Rightarrow> json \<Rightarrow> string \<times> engine \<Rightarrow> exn + string \<times> engine" where
  "parse_output_stream P J resolve_prefix app st =
     rbind (rbind (json_at ''output_stream'' app) json_array) (\<lambda>items.
     parse_stream J resolve_prefix (\<lambda>path name engine. addProducer P path name (newFile P path engine)) items st)"

definition parse_paths :: "jsoncons \<Rightarrow> string \<Rightarrow> string \<Rightarrow> json \<Rightarrow> exn + string list" where
  "parse_paths J resolve_prefix key j =
     rbind (rbind (json_at key j) json_array) (\<lambda>items.
     rfold (\<lambda>nm acc. rbind (as_string J nm) (\<lambda>s. Inr (acc @ [resolve s resolve_prefix]))) items [])"

record stream_rule =
  sr_names :: "string list"
  sr_is_file :: bool
  sr_commit :: string
  sr_fire :: string
  sr_close :: long
  sr_files :: long
  sr_deps :: "string list"

text \<open>The commit rule, its close count after a colon, and the dependencies of \<open>on_file\<close>.\<close>

definition parse_committed :: "jsoncons \<Rightarrow> string \<Rightarrow> json \<Rightarrow> exn + string \<times> long \<times> string list" where
  "parse_committed J resolve_prefix stream_item =
     (if json_contains ''committed'' stream_item
      then rbind (rbind (json_at ''committed'' stream_item) (as_string J)) (\<lambda>committed.
           rbind (if CHR '':'' \<in> set committed
                  then rbind (stoi (tl (dropWhile (\<lambda>c. c \<noteq> CHR '':'') committed))) (\<lambda>n.
                       Inr (takeWhile (\<lambda>c. c \<noteq> CHR '':'') committed, to_long n))
                  else Inr (committed, 0)) (\<lambda>(commit, n_close).
           rbind (if commit = ON_FILE then parse_paths J resolve_prefix ''file_deps'' stream_item else Inr []) (\<lambda>deps.
           Inr (commit, n_close, deps))))
      else Inr (ON_TERMINATION, 0, []))"

definition parse_stream_item :: "jsoncons \<Rightarrow> string \<Rightarrow> json \<Rightarrow> exn + stream_rule" where
  "parse_stream_item J resolve_prefix stream_item =
     (let is_file = json_contains ''name'' stream_item
      in rbind (parse_paths J resolve_prefix (if is_file then ''name'' else ''dirname'') stream_item) (\<lambda>names.
         rbind (parse_committed J resolve_prefix stream_item) (\<lambda>(commit, n_close, deps).
         rbind (if json_contains ''mode'' stream_item
                then rbind (json_at ''mode'' stream_item) (as_string J) else Inr NO_UPDATE) (\<lambda>fire.
         rbind (if json_contains ''n_files'' stream_item \<and> \<not> is_file
                then rbind (json_at ''n_files'' stream_item) (as_long J) else Inr 0) (\<lambda>n_files.
         Inr \<lparr>sr_names = names, sr_is_file = is_file, sr_commit = commit, sr_fire = fire,
              sr_close = n_close, sr_files = n_files, sr_deps = deps\<rparr>)))))"

definition apply_stream_rule :: "platform \<Rightarrow> stream_rule \<Rightarrow> string \<Rightarrow> engine \<Rightarrow> exn + engine" where
  "apply_stream_rule P r path engine =
     (let e1 = (if sr_files r \<noteq> 0 then setDirectoryFileCount P path (sr_files r) engine else engine);
          e2 = (if sr_is_file r then setFile P path e1 else setDirectory P path e1)
      in rbind (setCommitRule P path (sr_commit r) e2) (\<lambda>e3.
         rbind (setFireRule P path (sr_fire r) e3) (\<lambda>e4.
         Inr (setFileDeps P path (sr_deps r) (setCommitedCloseNumber P path (sr_close r) e4)))))"

definition parse_streaming :: "platform \<Rightarrow> jsoncons \<Rightarrow> string \<Rightarrow> json \<Rightarrow> engine \<Rightarrow> exn + engine" where
  "parse_streaming P J resolve_prefix app engine =
     (if json_contains ''streaming'' app
      then rbind (rbind (json_at ''streaming'' app) json_array) (\<lambda>items.
           rfold (\<lambda>itm engine.
             rbind (parse_stream_item J resolve_prefix itm) (\<lambda>r.
             rfold (apply_stream_rule P r) (sr_names r) engine)) items engine)
      else Inr engine)"

definition parse_app :: "platform \<Rightarrow> jsoncons \<Rightarrow> string \<Rightarrow> json \<Rightarrow> engine \<Rightarrow> exn + engine" where
  "parse_app P J resolve_prefix app engine =
     rbind (rbind (json_at ''name'' app) (as_string J)) (\<lambda>app_name.
     rbind (parse_input_stream P J resolve_prefix app (app_name, engine)) (\<lambda>st.
     rbind (parse_output_stream P J resolve_prefix app st) (\<lambda>(app_name, engine).
     parse_streaming P J resolve_prefix app engine)))"

subsection \<open>The document\<close>

definition parse_each ::
  "jsoncons \<Rightarrow> string \<Rightarrow> (string \<Rightarrow> engine \<Rightarrow> engine) \<Rightarrow> json \<Rightarrow> engine \<Rightarrow> exn + engine" where
  "parse_each J key f doc engine =
     (if json_contains key doc
      then rbind (rbind (json_at key doc) json_array) (\<lambda>items.
           rfold (\<lambda>itm engine. rbind (as_string J itm) (\<lambda>s. Inr (f s engine))) items engine)
      else Inr engine)"

definition parse_storage :: "platform \<Rightarrow> jsoncons \<Rightarrow> json \<Rightarrow> engine \<Rightarrow> exn + engine" where
  "parse_storage P J doc engine =
     (if json_contains ''storage'' doc
      then rbind (json_at ''storage'' doc) (\<lambda>storage.
           rbind (parse_each J ''memory'' (setStoreFileInMemory P) storage engine)
             (parse_each J ''fs'' (setStoreFileInFileSystem P) storage))
      else Inr engine)"

definition parse_sections ::
  "platform \<Rightarrow> jsoncons \<Rightarrow> string \<Rightarrow> bool \<Rightarrow> json \<Rightarrow> engine \<Rightarrow> exn + engine" where
  "parse_sections P J resolve_prefix store_only_in_memory doc engine =
     rbind (rbind (json_at ''IO_Graph'' doc) json_array) (\<lambda>apps.
     rbind (rfold (parse_app P J resolve_prefix) apps engine) (\<lambda>engine.
     rbind (parse_each J ''permanent''
              (\<lambda>s engine. let path = resolve s resolve_prefix in setPermanent P path True (newFile P path engine)) doc engine) (\<lambda>engine.
     rbind (parse_each J ''exclude''
              (\<lambda>s engine. let path = resolve s resolve_prefix in setExclude P path True (newFile P path engine)) doc engine) (\<lambda>engine.
     rbind (parse_storage P J doc engine) (\<lambda>engine.
     Inr (if store_only_in_memory then setAllStoreInMemory P engine else engine))))))"

definition read_json :: "jsoncons \<Rightarrow> (string \<Rightarrow> string option) \<Rightarrow> string \<Rightarrow> exn + json" where
  "read_json J read_file source =
     (case read_file source of Some content \<Rightarrow> json_parse J content | None \<Rightarrow> Inl JsonException)"

definition validate_json :: "json \<Rightarrow> (json \<Rightarrow> bool) \<Rightarrow> exn + json" where
  "validate_json doc schema = (if schema doc then Inr doc else Inl (ParserException ''JSON validation failed!''))"

definition parse_v1 ::
  "platform \<Rightarrow> jsoncons \<Rightarrow> (string \<Rightarrow> string option) \<Rightarrow> string \<Rightarrow> string \<Rightarrow> bool \<Rightarrow> exn + runtime" where
  "parse_v1 P J read_file source resolve_prefix store_only_in_memory =
     rbind (Engine P True) (\<lambda>rt.
     rbind (useDefaultConfiguration P rt) (\<lambda>rt.
     rbind (read_json J read_file source) (\<lambda>doc.
     rbind (validate_json doc schema_v1) (\<lambda>doc.
     rbind (rbind (json_at ''name'' doc) (as_string J)) (\<lambda>name.
     rbind (parse_sections P J resolve_prefix store_only_in_memory doc (setWorkflowName name (the_engine rt))) (\<lambda>engine.
     Inr (rt\<lparr>the_engine := engine\<rparr>)))))))"

text \<open>\<open>None\<close> is the null pointer of the configuration loader.\<close>

definition parse_v1_1 ::
  "platform \<Rightarrow> jsoncons \<Rightarrow> (string \<Rightarrow> string + (string \<times> toml) list) \<Rightarrow> (string \<Rightarrow> string option) \<Rightarrow>
     string \<Rightarrow> string \<Rightarrow> bool \<Rightarrow> (exn + runtime) option" where
  "parse_v1_1 P J parse_toml read_file source resolve_prefix store_only_in_memory =
     (case rbind (Engine P False) (\<lambda>rt.
           rbind (read_json J read_file source) (\<lambda>doc.
           rbind (validate_json doc schema_v1_1) (\<lambda>doc.
           rbind (rbind (json_at ''name'' doc) (as_string J)) (\<lambda>name.
           Inr (doc, rt\<lparr>the_engine := setWorkflowName name (the_engine rt)\<rparr>))))) of
        Inl ex \<Rightarrow> Some (Inl ex)
      | Inr (doc, rt) \<Rightarrow>
          map_option
            (\<lambda>r. rbind r (\<lambda>rt.
                 rbind (parse_sections P J resolve_prefix store_only_in_memory doc (the_engine rt)) (\<lambda>engine.
                 Inr (rt\<lparr>the_engine := engine\<rparr>))))
            (if json_contains ''configuration'' doc
             then (case rbind (json_at ''configuration'' doc) (as_string J) of
                     Inl ex \<Rightarrow> Some (Inl ex)
                   | Inr path \<Rightarrow> loadConfiguration P parse_toml path rt)
             else Some (useDefaultConfiguration P rt)))"

definition parse ::
  "platform \<Rightarrow> jsoncons \<Rightarrow> (string \<Rightarrow> string + (string \<times> toml) list) \<Rightarrow> (string \<Rightarrow> string option) \<Rightarrow>
     string \<Rightarrow> string \<Rightarrow> bool \<Rightarrow> (exn + runtime) option" where
  "parse P J parse_toml read_file source resolve_prefix store_only_in_memory =
     (if source = [] then Some (Inl (ParserException ''Empty source file name!''))
      else if read_file source = None then Some (Inl (ParserException ''Failed to open file!''))
      else (case rbind (read_json J read_file source) (\<lambda>doc.
                 if json_contains ''version'' doc then rbind (json_at ''version'' doc) (as_string J) else Inr V1) of
              Inl ex \<Rightarrow> Some (Inl ex)
            | Inr release \<Rightarrow>
                if release = V1 then Some (parse_v1 P J read_file source resolve_prefix store_only_in_memory)
                else if release = V1_1
                then parse_v1_1 P J parse_toml read_file source resolve_prefix store_only_in_memory
                else Some (Inl (ParserException ''Invalid CAPIO-CL specification version!''))))"

subsection \<open>Every parsed engine keeps the invariants\<close>

context entry_invariant begin

lemma inv_parse_each:
  assumes "parse_each J key f doc st = Inr st'" and "all_entries I st"
    and "\<And>s st. all_entries I st \<Longrightarrow> all_entries I (f s st)"
  shows "all_entries I st'"
  using assms(1,2) unfolding parse_each_def
  by (auto simp: rbind_Inr_iff assms(3) elim!: rfold_invariant split: if_splits)

lemma inv_parse_stream:
  assumes "parse_stream J resolve_prefix reg items (n, st) = Inr (n', st')" and "all_entries I st"
    and "\<And>p n st. all_entries I st \<Longrightarrow> all_entries I (snd (reg p n st))"
  shows "all_entries I st'"
proof -
  have "all_entries I (snd (n', st'))"
    by (rule rfold_invariant [where I = "\<lambda>ns. all_entries I (snd ns)", OF assms(1) [unfolded parse_stream_def]])
       (use assms(2,3) in \<open>auto simp: rbind_Inr_iff split: prod.splits\<close>, metis assms(3) snd_conv)
  then show ?thesis by simp
qed

lemma inv_apply_stream_rule:
  assumes "apply_stream_rule P r p st = Inr st'" and "all_entries I st"
  shows "all_entries I st'"
proof -
  define e2 where "e2 = (let e1 = (if sr_files r \<noteq> 0 then setDirectoryFileCount P p (sr_files r) st else st)
      in if sr_is_file r then setFile P p e1 else setDirectory P p e1)"
  have "all_entries I e2"
    using assms(2) by (simp add: e2_def Let_def inv_setters inv_setDirectory inv_setDirectoryFileCount)
  moreover obtain e3 e4 where "setCommitRule P p (sr_commit r) e2 = Inr e3"
    and "setFireRule P p (sr_fire r) e3 = Inr e4"
    and "st' = setFileDeps P p (sr_deps r) (setCommitedCloseNumber P p (sr_close r) e4)"
    using assms(1) by (auto simp: apply_stream_rule_def e2_def Let_def rbind_Inr_iff)
  ultimately show ?thesis
    using inv_setRule by (auto intro!: inv_setFileDeps inv_setters)
qed

lemma inv_parse_streaming:
  assumes "parse_streaming P J resolve_prefix app st = Inr st'" and "all_entries I st"
  shows "all_entries I st'"
  using assms unfolding parse_streaming_def
  by (auto simp: rbind_Inr_iff intro: inv_apply_stream_rule elim!: rfold_invariant split: if_splits)

lemma inv_parse_app:
  assumes "parse_app P J resolve_prefix app st = Inr st'" and "all_entries I st"
  shows "all_entries I st'"
proof -
  obtain name n1 s1 n2 s2 where
    "parse_input_stream P J resolve_prefix app (name, st) = Inr (n1, s1)"
    and "parse_output_stream P J resolve_prefix app (n1, s1) = Inr (n2, s2)"
    and "parse_streaming P J resolve_prefix app s2 = Inr st'"
    using assms(1) by (auto simp: parse_app_def rbind_Inr_iff)
  moreover from this(1) have "all_entries I s1"
    by (auto simp: parse_input_stream_def rbind_Inr_iff newFile_def elim!: inv_parse_stream
        intro: assms(2) inv_addConsumer inv_newFile)
  moreover from this calculation(2) have "all_entries I s2"
    by (auto simp: parse_output_stream_def rbind_Inr_iff newFile_def elim!: inv_parse_stream
        intro: inv_addProducer inv_newFile)
  ultimately show ?thesis using inv_parse_streaming by blast
qed

lemma inv_parse_sections:
  assumes "parse_sections P J resolve_prefix only doc st = Inr st'" and "all_entries I st"
  shows "all_entries I st'"
proof -
  obtain apps s1 s2 s3 s4 where
    apps: "rfold (parse_app P J resolve_prefix) apps st = Inr s1"
    and perm: "parse_each J ''permanent''
      (\<lambda>s e. let path = resolve s resolve_prefix in setPermanent P path True (newFile P path e)) doc s1 = Inr s2"
    and excl: "parse_each J ''exclude''
      (\<lambda>s e. let path = resolve s resolve_prefix in setExclude P path True (newFile P path e)) doc s2 = Inr s3"
    and stor: "parse_storage P J doc s3 = Inr s4"
    and st': "st' = (if only then setAllStoreInMemory P s4 else s4)"
    using assms(1) by (auto simp: parse_sections_def rbind_Inr_iff)
  have "all_entries I s1" by (rule rfold_invariant [where I = "all_entries I", OF apps assms(2)]) (rule inv_parse_app)
  with perm have "all_entries I s2"
    by (rule inv_parse_each) (auto simp: Let_def newFile_def intro!: inv_setters)
  with excl have "all_entries I s3"
    by (rule inv_parse_each) (auto simp: Let_def newFile_def intro!: inv_setters)
  with stor have "all_entries I s4"
    by (auto simp: parse_storage_def rbind_Inr_iff split: if_splits intro!: inv_setters elim!: inv_parse_each)
  then show ?thesis by (simp add: st' inv_globals)
qed

end

end
