(* ===== verification/CL_Parser_Spec.thy ===== *)
theory CL_Parser_Spec
  imports CL_Parser
begin

text \<open>
  The properties of the parser: a document that validates is read without an exception, unless one
  of its numbers is too big; and every engine that is read satisfies the invariants of the entries.
\<close>

subsection \<open>Validation makes the conversions succeed\<close>

text \<open>The numbers of a stream item fit their C++ types.\<close>

definition item_fits :: "json \<Rightarrow> bool" where
  "item_fits item \<longleftrightarrow>
     (case member ''committed'' item of
        Some (JString s) \<Rightarrow> (if CHR '':'' \<in> set s then dec_value (drop 9 s) < 2 ^ 31 else True)
      | _ \<Rightarrow> True) \<and>
     (case member ''n_files'' item of Some (JInt i) \<Rightarrow> - (2 ^ 63) \<le> i \<and> i < 2 ^ 63 | _ \<Rightarrow> True)"

definition doc_fits :: "json \<Rightarrow> bool" where
  "doc_fits doc \<longleftrightarrow>
     (case member ''IO_Graph'' doc of
        Some (JArray apps) \<Rightarrow>
          list_all
            (\<lambda>app. case member ''streaming'' app of Some (JArray items) \<Rightarrow> list_all item_fits items | _ \<Rightarrow> True) apps
      | _ \<Rightarrow> True)"

lemma array_ofE:
  assumes "array_of p v"
  obtains xs where "v = JArray xs" "list_all p xs"
  using assms by (auto simp: array_of_def split: json.splits)

lemma as_string_total: "json_conversions J \<Longrightarrow> is_JString v \<Longrightarrow> \<exists>s. v = JString s \<and> as_string J v = Inr s"
  by (auto simp: is_JString_def json_conversions_def split: json.splits)

lemma parse_paths_total:
  assumes "json_conversions J" and "member key j = Some v" and "array_of is_JString v"
  shows "\<exists>ps. parse_paths J pre key j = Inr ps"
proof -
  obtain xs where xs: "v = JArray xs" "list_all is_JString xs" using array_ofE [OF assms(3)] .
  have "\<exists>s'. rfold (\<lambda>nm acc. rbind (as_string J nm) (\<lambda>s. Inr (acc @ [resolve s pre]))) xs [] = Inr s'"
  proof (rule rfold_total)
    fix x acc assume "x \<in> set xs"
    then obtain s where "as_string J x = Inr s"
      using xs(2) as_string_total [OF assms(1)] by (auto simp: list_all_iff)
    then show "\<exists>s'. rbind (as_string J x) (\<lambda>s. Inr (acc @ [resolve s pre])) = Inr s'" by simp
  qed
  then show ?thesis by (simp add: parse_paths_def json_at_member assms(2) xs(1) json_array_def)
qed

lemma parse_each_total:
  assumes "json_conversions J" and "\<And>v. member key j = Some v \<Longrightarrow> array_of is_JString v"
  shows "\<exists>st'. parse_each J key f j st = Inr st'"
proof (cases "member key j")
  case None
  then show ?thesis by (simp add: parse_each_def json_contains_member)
next
  case (Some v)
  obtain xs where xs: "v = JArray xs" "list_all is_JString xs" using array_ofE [OF assms(2) [OF Some]] .
  have "\<exists>s'. rfold (\<lambda>itm e. rbind (as_string J itm) (\<lambda>s. Inr (f s e))) xs st = Inr s'"
  proof (rule rfold_total)
    fix x and s :: engine assume "x \<in> set xs"
    then obtain t where "as_string J x = Inr t"
      using xs(2) as_string_total [OF assms(1)] by (auto simp: list_all_iff)
    then show "\<exists>s'. rbind (as_string J x) (\<lambda>t. Inr (f t s)) = Inr s'" by simp
  qed
  with Some xs(1) show ?thesis
    by (simp add: parse_each_def json_contains_member json_at_member json_array_def)
qed

lemma parse_stream_total:
  assumes "json_conversions J" and "list_all is_JString xs"
  shows "\<exists>n st'. parse_stream J pre reg xs st = Inr (n, st')"
proof -
  have "\<exists>s'. parse_stream J pre reg xs st = Inr s'"
    unfolding parse_stream_def
  proof (rule rfold_total)
    fix x and s :: "string \<times> engine" assume "x \<in> set xs"
    then obtain t where "as_string J x = Inr t"
      using assms as_string_total [OF assms(1)] by (auto simp: list_all_iff)
    then show "\<exists>s'. (case s of (n, e) \<Rightarrow> rbind (as_string J x) (\<lambda>t. Inr (reg (resolve t pre) n e))) = Inr s'"
      by (simp split: prod.split)
  qed
  then show ?thesis by auto
qed

subsection \<open>Stream items\<close>

lemma on_close_cases:
  assumes "on_close_pattern s"
  obtains "s = ON_CLOSE" | ds where "s = ON_CLOSE @ '':'' @ ds" "ds \<noteq> []" "list_all is_digit ds" "drop 9 s = ds"
proof (cases "s = ON_CLOSE")
  case False
  with assms have "take 9 s = ON_CLOSE @ '':''" "drop 9 s \<noteq> []" "list_all is_digit (drop 9 s)"
    by (auto simp: on_close_pattern_def)
  moreover from this(1) have "s = ON_CLOSE @ '':'' @ drop 9 s"
    using append_take_drop_id [of 9 s] by simp
  ultimately show ?thesis using that(2) by blast
qed

text \<open>What a valid commit rule is, and how it is taken apart.\<close>

definition split_committed :: "string \<Rightarrow> exn + string \<times> long" where
  "split_committed s =
     (if CHR '':'' \<in> set s
      then rbind (stoi (tl (dropWhile (\<lambda>c. c \<noteq> CHR '':'') s))) (\<lambda>n.
           Inr (takeWhile (\<lambda>c. c \<noteq> CHR '':'') s, to_long n))
      else Inr (s, 0))"

lemma split_on_close:
  assumes "ds \<noteq> []" and "list_all is_digit ds"
  shows "split_committed (ON_CLOSE @ '':'' @ ds) =
    (if dec_value ds < 2 ^ 31 then Inr (ON_CLOSE, of_nat (dec_value ds)) else Inl OutOfRange)"
  using assms by (simp add: split_committed_def rule_consts stoi_digits to_long_of_nat)

lemma split_plain: "s \<in> set commit_rules \<Longrightarrow> split_committed s = Inr (s, 0)"
  by (auto simp: split_committed_def commit_rules_def rule_consts)

lemma split_valid:
  assumes "dirname_committed s \<or> name_committed s" and "CHR '':'' \<in> set s \<longrightarrow> dec_value (drop 9 s) < 2 ^ 31"
  shows "\<exists>r n. split_committed s = Inr (r, n) \<and> r \<in> set commit_rules \<and> (r = ON_FILE \<longrightarrow> s = ON_FILE)"
proof (cases "on_close_pattern s")
  case True
  then show ?thesis
  proof (cases rule: on_close_cases)
    case 1
    then show ?thesis using split_plain [of ON_CLOSE] by (simp add: rule_members)
  next
    case (2 ds)
    then have "dec_value ds < 2 ^ 31" using assms(2) by simp
    with 2 split_on_close [of ds] show ?thesis by (simp add: commit_rules_def rule_consts)
  qed
next
  case False
  with assms(1) have "s \<in> set commit_rules"
    by (auto simp: dirname_committed_def name_committed_def rule_members)
  then show ?thesis using split_plain by simp
qed

lemma parse_committed_split:
  "parse_committed J pre item =
     (if json_contains ''committed'' item
      then rbind (rbind (json_at ''committed'' item) (as_string J)) (\<lambda>committed.
           rbind (split_committed committed) (\<lambda>(commit, n_close).
           rbind (if commit = ON_FILE then parse_paths J pre ''file_deps'' item else Inr []) (\<lambda>deps.
           Inr (commit, n_close, deps))))
      else Inr (ON_TERMINATION, 0, []))"
  by (simp add: parse_committed_def split_committed_def)

text \<open>What either kind of stream item provides, in the terms the parser asks for.\<close>

definition item_valid :: "json \<Rightarrow> bool" where
  "item_valid item \<longleftrightarrow>
     (\<exists>v. member (if member ''name'' item \<noteq> None then ''name'' else ''dirname'') item = Some v \<and> array_of is_JString v) \<and>
     (\<forall>v. member ''committed'' item = Some v \<longrightarrow>
        (\<exists>s. v = JString s \<and> (dirname_committed s \<or> name_committed s) \<and>
          (s = ON_FILE \<longrightarrow> (\<exists>w. member ''file_deps'' item = Some w \<and> array_of is_JString w)))) \<and>
     (\<forall>v. member ''mode'' item = Some v \<longrightarrow> (\<exists>s \<in> set fire_rules. v = JString s)) \<and>
     (\<forall>v. member ''n_files'' item = Some v \<longrightarrow> is_JInt v)"

lemma needs_file_deps: "needs ON_FILE ''file_deps'' item \<Longrightarrow> member ''committed'' item = Some (JString ON_FILE) \<Longrightarrow>
    \<exists>w. member ''file_deps'' item = Some w"
  by (auto simp: needs_def)

lemma string_suchE: "string_such p v \<Longrightarrow> \<exists>s. v = JString s \<and> p s"
  by (auto simp: string_such_def split: json.splits)

lemma item_valid_name:
  assumes "streaming_name_rule item"
  shows "item_valid item"
proof -
  have obj: "obj_schema
       [(''name'', array_of is_JString), (''committed'', string_such name_committed),
        (''mode'', string_such (\<lambda>s. s = UPDATE \<or> s = NO_UPDATE)), (''file_deps'', array_of is_JString),
        (''n_files'', is_JInt)] [''name''] item" and deps: "needs ON_FILE ''file_deps'' item"
    using assms by (simp_all add: streaming_name_rule_def)
  note at = obj_schema_member [OF obj]
  obtain v where "member ''name'' item = Some v" using obj_schema_required [OF obj] by auto
  with at [of "''name''"] at [of "''committed''"] at [of "''mode''"] at [of "''file_deps''"] at [of "''n_files''"]
    needs_file_deps [OF deps]
  show ?thesis
    by (fastforce simp: item_valid_def rule_members dest!: string_suchE)
qed

lemma item_valid_dirname:
  assumes "streaming_dirname_rule item"
  shows "item_valid item"
proof -
  have obj: "obj_schema
       [(''dirname'', array_of is_JString), (''committed'', string_such dirname_committed),
        (''mode'', string_such (\<lambda>s. s = UPDATE \<or> s = NO_UPDATE)), (''file_deps'', array_of is_JString),
        (''n_files'', is_JInt)] [''dirname''] item" and deps: "needs ON_FILE ''file_deps'' item"
    using assms by (simp_all add: streaming_dirname_rule_def)
  note at = obj_schema_member [OF obj]
  obtain v where "member ''dirname'' item = Some v" using obj_schema_required [OF obj] by auto
  moreover have "member ''name'' item = None" by (rule obj_schema_absent [OF obj]) simp
  ultimately show ?thesis
    using at [of "''dirname''"] at [of "''committed''"] at [of "''mode''"] at [of "''file_deps''"] at [of "''n_files''"]
      needs_file_deps [OF deps]
    by (fastforce simp: item_valid_def rule_members dest!: string_suchE)
qed

lemma item_valid_streaming: "streaming_item item \<Longrightarrow> item_valid item"
  using item_valid_name item_valid_dirname by (auto simp: streaming_item_def)

lemma parse_committed_total:
  assumes "json_conversions J" and "item_valid item" and "item_fits item"
  shows "\<exists>r n ds. parse_committed J pre item = Inr (r, n, ds) \<and> r \<in> set commit_rules"
proof (cases "member ''committed'' item")
  case None
  then show ?thesis by (simp add: parse_committed_split json_contains_member rule_members)
next
  case (Some v)
  then obtain s where s: "v = JString s" "dirname_committed s \<or> name_committed s"
    "s = ON_FILE \<longrightarrow> (\<exists>w. member ''file_deps'' item = Some w \<and> array_of is_JString w)"
    using assms(2) by (auto simp: item_valid_def)
  have "CHR '':'' \<in> set s \<longrightarrow> dec_value (drop 9 s) < 2 ^ 31"
    using assms(3) Some s(1) by (auto simp: item_fits_def)
  with s(2) obtain r n where r: "split_committed s = Inr (r, n)" "r \<in> set commit_rules" "r = ON_FILE \<longrightarrow> s = ON_FILE"
    using split_valid by blast
  have "\<exists>ds. (if r = ON_FILE then parse_paths J pre ''file_deps'' item else Inr []) = Inr ds"
    using r(3) s(3) parse_paths_total [OF assms(1)] by auto
  then obtain ds where "(if r = ON_FILE then parse_paths J pre ''file_deps'' item else Inr []) = Inr ds" ..
  moreover have "as_string J v = Inr s" using assms(1) s(1) by (simp add: json_conversions_def)
  ultimately show ?thesis
    using Some r by (simp add: parse_committed_split json_contains_member json_at_member)
qed

lemma parse_stream_item_total:
  assumes "json_conversions J" and "item_valid item" and "item_fits item"
  shows "\<exists>r. parse_stream_item J pre item = Inr r \<and> sr_commit r \<in> set commit_rules \<and> sr_fire r \<in> set fire_rules"
proof -
  let ?key = "if json_contains ''name'' item then ''name'' else ''dirname''"
  obtain v where "member ?key item = Some v" "array_of is_JString v"
    using assms(2) unfolding item_valid_def json_contains_member by blast
  then obtain names where names: "parse_paths J pre ?key item = Inr names"
    using parse_paths_total [OF assms(1)] by blast
  obtain r n ds where r: "parse_committed J pre item = Inr (r, n, ds)" "r \<in> set commit_rules"
    using parse_committed_total [OF assms] by blast
  have "\<exists>f \<in> set fire_rules. (if json_contains ''mode'' item
      then rbind (json_at ''mode'' item) (as_string J) else Inr NO_UPDATE) = Inr f"
    using assms(1,2) by (cases "member ''mode'' item")
      (auto simp: json_contains_member json_at_member item_valid_def json_conversions_def rule_members)
  then obtain f where f: "f \<in> set fire_rules"
    "(if json_contains ''mode'' item then rbind (json_at ''mode'' item) (as_string J) else Inr NO_UPDATE) = Inr f"
    by blast
  have "\<exists>k. (if json_contains ''n_files'' item \<and> \<not> json_contains ''name'' item
      then rbind (json_at ''n_files'' item) (as_long J) else Inr 0) = Inr k"
  proof (cases "member ''n_files'' item")
    case (Some v)
    then obtain i where i: "v = JInt i"
      using assms(2) by (auto simp: item_valid_def is_JInt_def split: json.splits)
    with Some assms(3) have "sint (word_of_int i :: long) = i"
      by (intro sint_of_int_in_range) (auto simp: item_fits_def)
    with assms(1) have "as_long J (JInt i) = Inr (word_of_int i)"
      by (metis json_conversions_def)
    with Some i show ?thesis by (simp add: json_contains_member json_at_member)
  qed (simp add: json_contains_member)
  then obtain k where "(if json_contains ''n_files'' item \<and> \<not> json_contains ''name'' item
      then rbind (json_at ''n_files'' item) (as_long J) else Inr 0) = Inr k" ..
  with names r f show ?thesis by (simp add: parse_stream_item_def Let_def)
qed

lemma apply_stream_rule_total:
  "sr_commit r \<in> set commit_rules \<Longrightarrow> sr_fire r \<in> set fire_rules \<Longrightarrow> \<exists>st'. apply_stream_rule P r p st = Inr st'"
  by (simp add: apply_stream_rule_def Let_def setCommitRule_eq setFireRule_eq sanitize_commit_cases
      sanitize_fire_cases)

subsection \<open>The whole document\<close>

lemma parse_app_total:
  assumes "json_conversions J" and "application app"
    and "\<And>items. member ''streaming'' app = Some (JArray items) \<Longrightarrow> list_all item_fits items"
  shows "\<exists>st'. parse_app P J pre app st = Inr st'"
proof -
  have obj: "obj_schema
       [(''name'', is_JString), (''input_stream'', array_of is_JString), (''output_stream'', array_of is_JString),
        (''streaming'', array_of streaming_item)] [''name'', ''input_stream'', ''output_stream''] app"
    using assms(2) by (simp add: application_def)
  note at = obj_schema_member [OF obj] and req = obj_schema_required [OF obj]
  obtain v where v: "member ''name'' app = Some v" using req [of "''name''"] by auto
  obtain i where i: "member ''input_stream'' app = Some i" using req [of "''input_stream''"] by auto
  obtain u where u: "member ''output_stream'' app = Some u" using req [of "''output_stream''"] by auto
  obtain name where name: "as_string J v = Inr name"
    using at [OF v] as_string_total [OF assms(1)] by auto
  obtain ins where "i = JArray ins" "list_all is_JString ins" using at [OF i] by (auto elim: array_ofE)
  then have "\<exists>n s. parse_input_stream P J pre app (name, st) = Inr (n, s)"
    using parse_stream_total [OF assms(1)] by (simp add: parse_input_stream_def json_at_member i json_array_def)
  then obtain n1 s1 where inp: "parse_input_stream P J pre app (name, st) = Inr (n1, s1)" by blast
  obtain us where "u = JArray us" "list_all is_JString us" using at [OF u] by (auto elim: array_ofE)
  then have "\<exists>n s. parse_output_stream P J pre app (n1, s1) = Inr (n, s)"
    using parse_stream_total [OF assms(1)] by (simp add: parse_output_stream_def json_at_member u json_array_def)
  then obtain n2 s2 where out: "parse_output_stream P J pre app (n1, s1) = Inr (n2, s2)" by blast
  have "\<exists>s. parse_streaming P J pre app s2 = Inr s"
  proof (cases "member ''streaming'' app")
    case (Some w)
    then obtain items where items: "w = JArray items" "list_all streaming_item items"
      using at [OF Some] by (auto elim: array_ofE)
    have fits: "list_all item_fits items" using assms(3) Some items(1) by simp
    have "\<exists>s. rfold (\<lambda>itm e. rbind (parse_stream_item J pre itm) (\<lambda>r. rfold (apply_stream_rule P r) (sr_names r) e))
        items s2 = Inr s"
    proof (rule rfold_total)
      fix itm and e :: engine assume "itm \<in> set items"
      then have "item_valid itm" "item_fits itm"
        using items(2) fits item_valid_streaming by (auto simp: list_all_iff)
      then obtain r where r: "parse_stream_item J pre itm = Inr r" "sr_commit r \<in> set commit_rules" "sr_fire r \<in> set fire_rules"
        using parse_stream_item_total [OF assms(1)] by blast
      have "\<exists>s. rfold (apply_stream_rule P r) (sr_names r) e = Inr s"
        by (rule rfold_total) (rule apply_stream_rule_total [OF r(2,3)])
      with r(1) show "\<exists>s. rbind (parse_stream_item J pre itm) (\<lambda>r. rfold (apply_stream_rule P r) (sr_names r) e) = Inr s"
        by simp
    qed
    with Some items(1) show ?thesis
      by (simp add: parse_streaming_def json_contains_member json_at_member json_array_def)
  qed (simp add: parse_streaming_def json_contains_member)
  with name inp out show ?thesis by (simp add: parse_app_def json_at_member v)
qed

definition schema_common :: "json \<Rightarrow> bool" where
  "schema_common doc \<longleftrightarrow>
     (\<exists>v. member ''name'' doc = Some v \<and> is_JString v) \<and>
     (\<exists>v. member ''IO_Graph'' doc = Some v \<and> array_of application v) \<and>
     (\<forall>v. member ''permanent'' doc = Some v \<longrightarrow> array_of is_JString v) \<and>
     (\<forall>v. member ''exclude'' doc = Some v \<longrightarrow> array_of is_JString v) \<and>
     (\<forall>v. member ''storage'' doc = Some v \<longrightarrow>
        obj_schema [(''memory'', array_of is_JString), (''fs'', array_of is_JString)] [] v)"

lemma schema_v1_common: "schema_v1 doc \<Longrightarrow> schema_common doc"
proof -
  assume "schema_v1 doc"
  then have obj: "obj_schema common_properties [''name'', ''IO_Graph''] doc" by (simp add: schema_v1_def)
  note at = obj_schema_member [OF obj, unfolded common_properties_def] and req = obj_schema_required [OF obj]
  obtain v w where "member ''name'' doc = Some v" "member ''IO_Graph'' doc = Some w"
    using req [of "''name''"] req [of "''IO_Graph''"] by auto
  with at [of "''name''"] at [of "''IO_Graph''"] at [of "''permanent''"] at [of "''exclude''"] at [of "''storage''"]
  show ?thesis by (simp add: schema_common_def)
qed

lemma schema_v1_1_common: "schema_v1_1 doc \<Longrightarrow> schema_common doc"
proof -
  assume "schema_v1_1 doc"
  then have obj: "obj_schema ([(''version'', is_number), (''configuration'', is_JString)] @ common_properties)
      [''name'', ''IO_Graph'', ''version''] doc" by (simp add: schema_v1_1_def)
  note at = obj_schema_member [OF obj, unfolded common_properties_def] and req = obj_schema_required [OF obj]
  obtain v w where "member ''name'' doc = Some v" "member ''IO_Graph'' doc = Some w"
    using req [of "''name''"] req [of "''IO_Graph''"] by auto
  with at [of "''name''"] at [of "''IO_Graph''"] at [of "''permanent''"] at [of "''exclude''"] at [of "''storage''"]
  show ?thesis by (simp add: schema_common_def)
qed

lemma parse_storage_total:
  assumes "json_conversions J" and "schema_common doc"
  shows "\<exists>st'. parse_storage P J doc st = Inr st'"
proof (cases "member ''storage'' doc")
  case (Some v)
  then have obj: "obj_schema [(''memory'', array_of is_JString), (''fs'', array_of is_JString)] [] v"
    using assms(2) by (simp add: schema_common_def)
  note at = obj_schema_member [OF obj]
  obtain s1 where "parse_each J ''memory'' (setStoreFileInMemory P) v st = Inr s1"
    using parse_each_total [OF assms(1), of "''memory''" v] at [of "''memory''"] by fastforce
  moreover obtain s2 where "parse_each J ''fs'' (setStoreFileInFileSystem P) v s1 = Inr s2"
    using parse_each_total [OF assms(1), of "''fs''" v] at [of "''fs''"] by fastforce
  ultimately show ?thesis using Some by (simp add: parse_storage_def json_contains_member json_at_member)
qed (simp add: parse_storage_def json_contains_member)

lemma parse_sections_total:
  assumes "json_conversions J" and "schema_common doc" and "doc_fits doc"
  shows "\<exists>st'. parse_sections P J pre only doc st = Inr st'"
proof -
  obtain v apps where apps: "member ''IO_Graph'' doc = Some v" "v = JArray apps" "list_all application apps"
    using assms(2) by (auto simp: schema_common_def elim: array_ofE)
  have "\<exists>s. rfold (parse_app P J pre) apps st = Inr s"
  proof (rule rfold_total)
    fix app and s assume app: "app \<in> set apps"
    show "\<exists>s'. parse_app P J pre app s = Inr s'"
    proof (rule parse_app_total [OF assms(1)])
      show "application app" using apps(3) app by (simp add: list_all_iff)
      show "list_all item_fits items" if "member ''streaming'' app = Some (JArray items)" for items
        using assms(3) apps app that by (force simp: doc_fits_def list_all_iff)
    qed
  qed
  then obtain s1 where s1: "rfold (parse_app P J pre) apps st = Inr s1" ..
  let ?perm = "\<lambda>s e. let path = resolve s pre in setPermanent P path True (newFile P path e)"
  let ?excl = "\<lambda>s e. let path = resolve s pre in setExclude P path True (newFile P path e)"
  obtain s2 where s2: "parse_each J ''permanent'' ?perm doc s1 = Inr s2"
    using parse_each_total [OF assms(1), of "''permanent''" doc] assms(2) by (fastforce simp: schema_common_def)
  obtain s3 where s3: "parse_each J ''exclude'' ?excl doc s2 = Inr s3"
    using parse_each_total [OF assms(1), of "''exclude''" doc] assms(2) by (fastforce simp: schema_common_def)
  obtain s4 where s4: "parse_storage P J doc s3 = Inr s4"
    using parse_storage_total [OF assms(1,2)] by blast
  show ?thesis
    using s1 s2 s3 s4 by (simp add: parse_sections_def json_at_member apps(1,2) json_array_def)
qed

subsection \<open>From the file to the sections\<close>

lemma schema_v1_no_version: "schema_v1 doc \<Longrightarrow> member ''version'' doc = None"
  by (auto simp: schema_v1_def common_properties_def intro: obj_schema_absent)

lemma schema_v1_1_version: "schema_v1_1 doc \<Longrightarrow> \<exists>v. member ''version'' doc = Some v"
  unfolding schema_v1_1_def by (rule obj_schema_required) auto

lemma schema_name: "json_conversions J \<Longrightarrow> schema_common doc \<Longrightarrow>
    \<exists>name. member ''name'' doc = Some (JString name) \<and> rbind (json_at ''name'' doc) (as_string J) = Inr name"
  by (auto simp: schema_common_def json_at_member dest: as_string_total)

lemma parse_v1_Inr_iff:
  assumes "read_json J read_file source = Inr doc"
  shows "parse_v1 P J read_file source pre only = Inr rt \<longleftrightarrow>
    schema_v1 doc \<and> (\<exists>name rt1 rt2 engine. Engine P True = Inr rt1 \<and> useDefaultConfiguration P rt1 = Inr rt2 \<and>
      rbind (json_at ''name'' doc) (as_string J) = Inr name \<and>
      parse_sections P J pre only doc (setWorkflowName name (the_engine rt2)) = Inr engine \<and>
      rt = rt2\<lparr>the_engine := engine\<rparr>)"
  using assms by (auto simp: parse_v1_def validate_json_def rbind_Inr_iff)

lemma parse_v1_total:
  assumes "json_conversions J" and "read_json J read_file source = Inr doc"
    and "schema_v1 doc" and "doc_fits doc"
  shows "\<exists>rt. parse_v1 P J read_file source pre only = Inr rt"
proof -
  obtain rt1 where 1: "Engine P True = Inr rt1" using Engine_default_Inr by blast
  obtain rt2 where 2: "useDefaultConfiguration P rt1 = Inr rt2" using useDefaultConfiguration_Inr [of P rt1] by blast
  obtain name where 3: "rbind (json_at ''name'' doc) (as_string J) = Inr name"
    using schema_name [OF assms(1) schema_v1_common [OF assms(3)]] by blast
  obtain engine where 4: "parse_sections P J pre only doc (setWorkflowName name (the_engine rt2)) = Inr engine"
    using parse_sections_total [OF assms(1) schema_v1_common [OF assms(3)] assms(4)] by blast
  from 1 2 3 4 assms(3) show ?thesis by (auto simp: parse_v1_Inr_iff [OF assms(2)])
qed

lemma parse_v1_1_total:
  assumes "json_conversions J" and "read_json J read_file source = Inr doc"
    and "schema_v1_1 doc" and "doc_fits doc" and "\<not> json_contains ''configuration'' doc"
  shows "\<exists>rt. parse_v1_1 P J parse_toml read_file source pre only = Some (Inr rt)"
proof -
  obtain rt1 where 1: "Engine P False = Inr rt1" by (simp add: Engine_def)
  obtain name where 3: "rbind (json_at ''name'' doc) (as_string J) = Inr name"
    using schema_name [OF assms(1) schema_v1_1_common [OF assms(3)]] by blast
  let ?rt = "rt1\<lparr>the_engine := setWorkflowName name (the_engine rt1)\<rparr>"
  obtain rt2 where 2: "useDefaultConfiguration P ?rt = Inr rt2" using useDefaultConfiguration_Inr [of P ?rt] by blast
  obtain engine where 4: "parse_sections P J pre only doc (the_engine rt2) = Inr engine"
    using parse_sections_total [OF assms(1) schema_v1_1_common [OF assms(3)] assms(4)] by blast
  show ?thesis
    using assms(2,3,5) 1 2 3 4 by (simp add: parse_v1_1_def validate_json_def)
qed

lemma parse_v1_1_engine:
  assumes "parse_v1_1 P J parse_toml read_file source pre only = Some (Inr rt)"
    and "read_json J read_file source = Inr doc"
  shows "schema_v1_1 doc" "\<exists>name. rbind (json_at ''name'' doc) (as_string J) = Inr name \<and>
    parse_sections P J pre only doc (setWorkflowName name (new_engine P)) = Inr (the_engine rt)"
proof -
  obtain name rt1 rt2 engine where valid: "schema_v1_1 doc"
    and name: "rbind (json_at ''name'' doc) (as_string J) = Inr name" and eng: "Engine P False = Inr rt1"
    and conf: "(if json_contains ''configuration'' doc
       then (case rbind (json_at ''configuration'' doc) (as_string J) of
               Inl ex \<Rightarrow> Some (Inl ex)
             | Inr path \<Rightarrow> loadConfiguration P parse_toml path (rt1\<lparr>the_engine := setWorkflowName name (the_engine rt1)\<rparr>))
       else Some (useDefaultConfiguration P (rt1\<lparr>the_engine := setWorkflowName name (the_engine rt1)\<rparr>))) = Some (Inr rt2)"
    and secs: "parse_sections P J pre only doc (the_engine rt2) = Inr engine" "rt = rt2\<lparr>the_engine := engine\<rparr>"
    using assms unfolding parse_v1_1_def
    by (auto simp: validate_json_def rbind_Inr_iff split: sum.splits if_splits)
  show "schema_v1_1 doc" by (rule valid)
  have "the_engine rt2 = setWorkflowName name (the_engine rt1)"
    using conf by (auto split: if_splits sum.splits dest: loadConfiguration_engine useDefaultConfiguration_engine)
  with eng name secs show "\<exists>name. rbind (json_at ''name'' doc) (as_string J) = Inr name \<and>
    parse_sections P J pre only doc (setWorkflowName name (new_engine P)) = Inr (the_engine rt)"
    by (auto simp: Engine_def)
qed

lemma parse_v1_engine:
  assumes "parse_v1 P J read_file source pre only = Inr rt"
    and "read_json J read_file source = Inr doc"
  shows "schema_v1 doc" "\<exists>name. rbind (json_at ''name'' doc) (as_string J) = Inr name \<and>
    parse_sections P J pre only doc (setWorkflowName name (new_engine P)) = Inr (the_engine rt)"
  using assms(1) unfolding parse_v1_Inr_iff [OF assms(2)]
  using Engine_default_Inr [of P] by (auto dest!: useDefaultConfiguration_engine)

text \<open>Every engine the parser returns was filled from the document by the common code of the two formats.\<close>

lemma parse_engine:
  assumes "parse P J parse_toml read_file source pre only = Some (Inr rt)"
    and "read_json J read_file source = Inr doc"
  shows "schema_v1 doc \<or> schema_v1_1 doc \<and> rbind (json_at ''version'' doc) (as_string J) = Inr V1_1"
    and "\<exists>name. rbind (json_at ''name'' doc) (as_string J) = Inr name \<and>
      parse_sections P J pre only doc (setWorkflowName name (new_engine P)) = Inr (the_engine rt)"
proof -
  have "parse_v1 P J read_file source pre only = Inr rt \<or>
      parse_v1_1 P J parse_toml read_file source pre only = Some (Inr rt) \<and>
        rbind (json_at ''version'' doc) (as_string J) = Inr V1_1"
    using assms unfolding parse_def
    by (auto simp: V1_def V1_1_def split: if_splits sum.splits)
  then show "schema_v1 doc \<or> schema_v1_1 doc \<and> rbind (json_at ''version'' doc) (as_string J) = Inr V1_1"
    and "\<exists>name. rbind (json_at ''name'' doc) (as_string J) = Inr name \<and>
      parse_sections P J pre only doc (setWorkflowName name (new_engine P)) = Inr (the_engine rt)"
    using parse_v1_engine [OF _ assms(2)] parse_v1_1_engine [OF _ assms(2)] by blast+
qed

subsection \<open>Properties\<close>

lemma read_json_eq: "read_file source = Some content \<Longrightarrow> read_json J read_file source = json_parse J content"
  by (simp add: read_json_def)

lemma parse_accepts_valid_lemma:
  assumes "json_conversions J" and "source \<noteq> []" and "read_file source = Some content"
    and "json_parse J content = Inr doc" and "doc_fits doc" and "\<not> json_contains ''configuration'' doc"
  shows "(\<exists>rt. parse P J parse_toml read_file source pre only = Some (Inr rt)) \<longleftrightarrow>
    schema_v1 doc \<or> schema_v1_1 doc \<and> rbind (json_at ''version'' doc) (as_string J) = Inr V1_1"
proof
  assume "\<exists>rt. parse P J parse_toml read_file source pre only = Some (Inr rt)"
  then show "schema_v1 doc \<or> schema_v1_1 doc \<and> rbind (json_at ''version'' doc) (as_string J) = Inr V1_1"
    using parse_engine(1) read_json_eq [of read_file, OF assms(3)] assms(4) by metis
next
  have doc: "read_json J read_file source = Inr doc" using assms(3,4) by (simp add: read_json_def)
  assume "schema_v1 doc \<or> schema_v1_1 doc \<and> rbind (json_at ''version'' doc) (as_string J) = Inr V1_1"
  then show "\<exists>rt. parse P J parse_toml read_file source pre only = Some (Inr rt)"
  proof
    assume v: "schema_v1 doc"
    have "\<not> json_contains ''version'' doc" using schema_v1_no_version [OF v] by (simp add: json_contains_member)
    with doc assms(2,3) parse_v1_total [OF assms(1) doc v assms(5)] show ?thesis by (simp add: parse_def)
  next
    assume v: "schema_v1_1 doc \<and> rbind (json_at ''version'' doc) (as_string J) = Inr V1_1"
    then have "json_contains ''version'' doc" using schema_v1_1_version by (auto simp: json_contains_member)
    with v doc assms(2,3) parse_v1_1_total [OF assms(1) doc _ assms(5,6)] show ?thesis
      by (auto simp: parse_def V1_def V1_1_def)
  qed
qed


text \<open>An example document, and a library that reads every text as it.\<close>

definition demo_doc :: json where
  "demo_doc =
     JObject
       [(''name'', JString ''wf''),
        (''IO_Graph'', JArray
          [JObject
             [(''name'', JString ''my app''), (''input_stream'', JArray [JString ''in'']),
              (''output_stream'', JArray [JString ''out'']),
              (''streaming'', JArray
                 [JObject [(''name'', JArray [JString ''out'']), (''committed'', JString ''on_close''),
                           (''mode'', JString ''no_update'')]])]]),
        (''permanent'', JArray [JString ''out'']), (''exclude'', JArray [JString ''tmp'']),
        (''storage'', JObject [(''memory'', JArray [JString ''out''])])]"

definition demo_reader :: jsoncons where
  "demo_reader = demo_json\<lparr>json_parse := (\<lambda>_. Inr demo_doc)\<rparr>"

lemma demo_reader_conversions: "json_conversions demo_reader"
  by (simp add: json_conversions_def demo_reader_def demo_json_def)

lemma demo_doc_valid: "schema_v1 demo_doc" "doc_fits demo_doc" "\<not> json_contains ''configuration'' demo_doc"
  by code_simp+


text \<open>
  C33. Every engine the parser returns is well formed, has only rules of the language, lists nobody
  twice and no name with white space, whatever the file contains.
\<close>

theorem parsed_engine_valid:
  assumes "parse P J parse_toml read_file source pre only = Some (Inr rt)"
    and "entry_at (the_engine rt) path = Some e"
  shows "engine_wf (the_engine rt) \<and> entry_rules_valid e \<and> entry_distinct e \<and> entry_names_clean e"
proof -
  obtain doc where doc: "read_json J read_file source = Inr doc"
    using assms(1) by (auto simp: parse_def rbind_Inr_iff split: if_splits sum.splits)
  obtain name where run: "parse_sections P J pre only doc (setWorkflowName name (new_engine P)) = Inr (the_engine rt)"
    using parse_engine(2) [OF assms(1) doc] by blast
  note start = rules_valid.inv_globals(1) [OF rules_valid.inv_new_engine]
    names_distinct.inv_globals(1) [OF names_distinct.inv_new_engine]
    names_clean.inv_globals(1) [OF names_clean.inv_new_engine]
  from rules_valid.inv_parse_sections [OF run start(1)] names_distinct.inv_parse_sections [OF run start(2)]
    names_clean.inv_parse_sections [OF run start(3)] assms(2)
  show ?thesis by (simp add: all_entries_iff)
qed

text \<open>
  The number after \<open>on_close:\<close> becomes the close count of the rule exactly when it fits in an
  \<open>int\<close>; a greater one, which the schemas allow, makes the parser throw \<open>std::out_of_range\<close>, which
  is not one of its own exceptions.
\<close>

theorem close_count_exact:
  assumes "json_conversions J" and "member ''committed'' item = Some (JString (ON_CLOSE @ '':'' @ ds))"
    and "ds \<noteq> []" and "list_all is_digit ds"
  shows "dirname_committed (ON_CLOSE @ '':'' @ ds) \<and> name_committed (ON_CLOSE @ '':'' @ ds) \<and>
    parse_committed J pre item =
      (if dec_value ds < 2 ^ 31 then Inr (ON_CLOSE, of_nat (dec_value ds), []) else Inl OutOfRange)"
proof -
  have "on_close_pattern (ON_CLOSE @ '':'' @ ds)"
    using assms(3,4) by (simp add: on_close_pattern_def rule_consts)
  moreover have "as_string J (JString (ON_CLOSE @ '':'' @ ds)) = Inr (ON_CLOSE @ '':'' @ ds)"
    using assms(1) by (simp add: json_conversions_def)
  moreover have "ON_CLOSE \<noteq> ON_FILE" by (simp add: rule_consts)
  ultimately show ?thesis
    using split_on_close [OF assms(3,4)]
    by (simp add: parse_committed_split json_contains_member json_at_member assms(2) dirname_committed_def
        name_committed_def)
qed

theorem close_count_exact_witness:
  "parse_committed demo_reader [] (JObject [(''committed'', JString (ON_CLOSE @ '':'' @ ''2''))]) = Inr (ON_CLOSE, 2, []) \<and>
   parse_committed demo_reader [] (JObject [(''committed'', JString (ON_CLOSE @ '':'' @ ''2147483648''))]) = Inl OutOfRange"
proof -
  have "list_all is_digit ''2''" "list_all is_digit ''2147483648''" "dec_value ''2'' = 2" by code_simp+
  moreover have "dec_value ''2147483648'' = 2147483648" by (simp add: dec_value_def digit_val_def)
  ultimately show ?thesis
    using close_count_exact [OF demo_reader_conversions, of "JObject [(''committed'', JString (ON_CLOSE @ '':'' @ ''2''))]" "''2''" "[]"]
      close_count_exact [OF demo_reader_conversions, of "JObject [(''committed'', JString (ON_CLOSE @ '':'' @ ''2147483648''))]" "''2147483648''" "[]"]
    by (simp add: member_def)
qed

text \<open>The engine of the example.\<close>

lemma demo_parse:
  "\<exists>rt. parse demo demo_reader (\<lambda>_. Inl []) (\<lambda>_. Some ''text'') ''f.json'' ''/p'' False = Some (Inr rt) \<and>
     parse_sections demo demo_reader ''/p'' False demo_doc (setWorkflowName ''wf'' (new_engine demo)) = Inr (the_engine rt)"
proof -
  have doc: "read_json demo_reader (\<lambda>_. Some ''text'') ''f.json'' = Inr demo_doc"
    by (simp add: read_json_def demo_reader_def)
  obtain rt where "parse_v1 demo demo_reader (\<lambda>_. Some ''text'') ''f.json'' ''/p'' False = Inr rt"
    using parse_v1_total [OF demo_reader_conversions doc demo_doc_valid(1,2)] by blast
  moreover have "\<not> json_contains ''version'' demo_doc" by code_simp
  ultimately have rt: "parse demo demo_reader (\<lambda>_. Inl []) (\<lambda>_. Some ''text'') ''f.json'' ''/p'' False = Some (Inr rt)"
    using doc by (simp add: parse_def)
  moreover have "rbind (json_at ''name'' demo_doc) (as_string demo_reader) = Inr ''wf''" by code_simp
  ultimately show ?thesis using parse_engine(2) [OF rt doc] by auto
qed

lemma demo_parsed_entry:
  "case parse_sections demo demo_reader ''/p'' False demo_doc (setWorkflowName ''wf'' (new_engine demo)) of
     Inr st \<Rightarrow> entry_at st ''/p/out'' \<noteq> None | Inl _ \<Rightarrow> False"
  by code_simp

theorem parsed_engine_valid_witness:
  "\<exists>rt e. parse demo demo_reader (\<lambda>_. Inl []) (\<lambda>_. Some ''text'') ''f.json'' ''/p'' False = Some (Inr rt) \<and>
     entry_at (the_engine rt) ''/p/out'' = Some e \<and> entry_rules_valid e"
proof -
  obtain rt where rt: "parse demo demo_reader (\<lambda>_. Inl []) (\<lambda>_. Some ''text'') ''f.json'' ''/p'' False = Some (Inr rt)"
    and "parse_sections demo demo_reader ''/p'' False demo_doc (setWorkflowName ''wf'' (new_engine demo)) = Inr (the_engine rt)"
    using demo_parse by blast
  with demo_parsed_entry obtain e where "entry_at (the_engine rt) ''/p/out'' = Some e" by auto
  with parsed_engine_valid [OF rt this] rt show ?thesis by blast
qed

end
