(* ===== verification/CL_Serializer.thy ===== *)
theory CL_Serializer
  imports CL_Parser_Spec
begin

text \<open>
  \<open>capiocl::serializer::Serializer\<close> (\<open>src/Serializer.cpp\<close>, \<open>src/serializers/v1.cpp\<close> and
  \<open>v1.1.cpp\<close>, which differ in one member): an engine written as a JSON document.

  The code iterates over a copy of the hash map, which is taken to have the order of the original;
  the two maps from applications to paths have an order of their own. \<open>pretty_print\<close> is the JSON
  library's, \<open>can_open\<close> says which files can be opened for writing, and the files themselves are a map.
\<close>

subsection \<open>One pass over the entries\<close>

text \<open>\<open>m[k].push_back(x)\<close>\<close>

definition um_push :: "(nat \<Rightarrow> string \<Rightarrow> nat) \<Rightarrow> string \<Rightarrow> 'a \<Rightarrow> 'a list umap \<Rightarrow> 'a list umap" where
  "um_push rank k x m = um_modify k (\<lambda>v. v @ [x]) (um_emplace rank k [] m)"

record collected =
  permanent_paths :: "string list"
  exclude_paths :: "string list"
  memory_storage :: "string list"
  fs_storage :: "string list"
  app_outputs :: "string list umap"
  app_inputs :: "string list umap"

definition collect_entry :: "platform \<Rightarrow> string \<times> CapioCLEntry \<Rightarrow> collected \<Rightarrow> collected" where
  "collect_entry P = (\<lambda>(path, entry) c.
     let c1 = (if permanent entry then c\<lparr>permanent_paths := permanent_paths c @ [path]\<rparr> else c);
         c2 = (if excluded entry then c1\<lparr>exclude_paths := exclude_paths c1 @ [path]\<rparr> else c1);
         c3 = (if store_in_memory entry then c2\<lparr>memory_storage := memory_storage c2 @ [path]\<rparr>
               else c2\<lparr>fs_storage := fs_storage c2 @ [path]\<rparr>)
     in c3\<lparr>app_outputs := fold (\<lambda>p. um_push (bucket_rank P) p path) (producers entry) (app_outputs c3),
           app_inputs := fold (\<lambda>p. um_push (bucket_rank P) p path) (consumers entry) (app_inputs c3)\<rparr>)"

definition collect :: "platform \<Rightarrow> CapioCLEntry umap \<Rightarrow> collected" where
  "collect P entries =
     fold (collect_entry P) entries
       \<lparr>permanent_paths = [], exclude_paths = [], memory_storage = [], fs_storage = [],
        app_outputs = [], app_inputs = []\<rparr>"

subsection \<open>The applications\<close>

definition strings_json :: "string list \<Rightarrow> json" where
  "strings_json ss = JArray (map JString ss)"

text \<open>With a close count the rule is written as \<open>on_close\<close>, whatever it is.\<close>

definition committed_text :: "CapioCLEntry \<Rightarrow> string" where
  "committed_text entry =
     (if 0 < sint (commit_on_close_count entry)
      then (if commit_rule entry = ON_CLOSE
            then commit_rule entry @ '':'' @ to_string (commit_on_close_count entry)
            else ON_CLOSE @ '':'' @ to_string (commit_on_close_count entry))
      else commit_rule entry)"

definition serialize_item :: "string \<Rightarrow> CapioCLEntry \<Rightarrow> json" where
  "serialize_item path entry =
     JObject
       ([(if is_file entry then ''name'' else ''dirname'', strings_json [path]),
         (''committed'', JString (committed_text entry))] @
        (if is_file entry then [] else [(''n_files'', JInt (sint (directory_children_count entry)))]) @
        [(''file_deps'', strings_json (file_dependencies entry)), (''mode'', JString (fire_rule entry))])"

text \<open>
  \<open>app_inputs[app_name]\<close> inserts an empty list for an application without inputs. \<open>files.at(path)\<close>
  throws for a path that is not there; the paths come from the same map.
\<close>

definition serialize_app ::
  "platform \<Rightarrow> CapioCLEntry umap \<Rightarrow> string \<times> string list \<Rightarrow> string list umap \<times> json list \<Rightarrow>
     exn + string list umap \<times> json list" where
  "serialize_app P entries = (\<lambda>(app_name, outputs) (inputs, io_graph).
     rbind (rfold (\<lambda>path streaming.
              case um_find entries path of
                None \<Rightarrow> Inl OutOfRange
              | Some entry \<Rightarrow> Inr (streaming @ [serialize_item path entry])) outputs []) (\<lambda>streaming.
     let inputs' = um_emplace (bucket_rank P) app_name [] inputs
     in Inr (inputs',
             io_graph @
               [JObject
                  [(''name'', JString app_name),
                   (''input_stream'', strings_json (case um_find inputs' app_name of Some v \<Rightarrow> v | None \<Rightarrow> [])),
                   (''output_stream'', strings_json outputs),
                   (''streaming'', JArray streaming)]])))"

text \<open>The comparison \<open>entry["name"].as<std::string>() == app_name\<close>, on a name that is a string.\<close>

definition app_named :: "string \<Rightarrow> json \<Rightarrow> bool" where
  "app_named app_name app \<longleftrightarrow> member ''name'' app = Some (JString app_name)"

definition add_input_only :: "string \<times> string list \<Rightarrow> json list \<Rightarrow> json list" where
  "add_input_only = (\<lambda>(app_name, inputs) io_graph.
     if list_ex (app_named app_name) io_graph then io_graph
     else io_graph @
       [JObject [(''name'', JString app_name), (''input_stream'', strings_json inputs), (''output_stream'', JArray [])]])"

subsection \<open>The document and the file\<close>

definition engine_doc :: "platform \<Rightarrow> (string \<times> json) list \<Rightarrow> engine \<Rightarrow> exn + json" where
  "engine_doc P version_members engine =
     (let entries = capio_cl_entries engine;
          c = collect P entries
      in rbind (rfold (serialize_app P entries) (app_outputs c) (app_inputs c, [])) (\<lambda>(inputs, io_graph).
         Inr (JObject
           (version_members @
            [(''name'', JString (getWorkflowName engine)),
             (''IO_Graph'', JArray (fold add_input_only inputs io_graph)),
             (''permanent'', strings_json (permanent_paths c)),
             (''exclude'', strings_json (exclude_paths c)),
             (''storage'', JObject [(''memory'', strings_json (memory_storage c)), (''fs'', strings_json (fs_storage c))])]))))"

definition write_doc ::
  "(json \<Rightarrow> string) \<Rightarrow> (string \<Rightarrow> bool) \<Rightarrow> string \<Rightarrow> (string \<Rightarrow> string option) \<Rightarrow> json \<Rightarrow>
     exn + (string \<Rightarrow> string option)" where
  "write_doc pretty_print can_open out_name disk_files doc =
     (if can_open out_name then Inr (disk_files(out_name \<mapsto> pretty_print doc @ [CHR 0x0A]))
      else Inl (SerializerException (''Failed to open output file: '' @ out_name)))"

definition serialize_v1 ::
  "platform \<Rightarrow> (json \<Rightarrow> string) \<Rightarrow> (string \<Rightarrow> bool) \<Rightarrow> engine \<Rightarrow> string \<Rightarrow> (string \<Rightarrow> string option) \<Rightarrow>
     exn + (string \<Rightarrow> string option)" where
  "serialize_v1 P pretty_print can_open engine out_name disk_files =
     rbind (engine_doc P [] engine) (write_doc pretty_print can_open out_name disk_files)"

definition serialize_v1_1 ::
  "platform \<Rightarrow> (json \<Rightarrow> string) \<Rightarrow> (string \<Rightarrow> bool) \<Rightarrow> engine \<Rightarrow> string \<Rightarrow> (string \<Rightarrow> string option) \<Rightarrow>
     exn + (string \<Rightarrow> string option)" where
  "serialize_v1_1 P pretty_print can_open engine out_name disk_files =
     rbind (engine_doc P [(''version'', JDouble ''1.1'')] engine) (write_doc pretty_print can_open out_name disk_files)"

definition dump ::
  "platform \<Rightarrow> (json \<Rightarrow> string) \<Rightarrow> (string \<Rightarrow> bool) \<Rightarrow> engine \<Rightarrow> string \<Rightarrow> string \<Rightarrow>
     (string \<Rightarrow> string option) \<Rightarrow> exn + (string \<Rightarrow> string option)" where
  "dump P pretty_print can_open engine out_name version disk_files =
     (if version = V1 then serialize_v1 P pretty_print can_open engine out_name disk_files
      else if version = V1_1 then serialize_v1_1 P pretty_print can_open engine out_name disk_files
      else Inl (SerializerException (''No serializer available for CAPIO-CL version: '' @ version)))"

subsection \<open>What the pass collects\<close>

lemma um_push_wf [simp]: "um_wf m \<Longrightarrow> um_wf (um_push r k x m)"
  by (simp add: um_push_def um_wf_emplace um.valid_modify)

definition um_list :: "'a list umap \<Rightarrow> string \<Rightarrow> 'a list" where
  "um_list m k = (case um_find m k of Some v \<Rightarrow> v | None \<Rightarrow> [])"

lemma um_find_push:
  "um_wf m \<Longrightarrow> um_find (um_push r k x m) j = (if j = k then Some (um_list m k @ [x]) else um_find m j)"
  by (auto simp: um_push_def um_find_modify um_find_emplace um_list_def split: option.split)

text \<open>The paths an application is named for, in the order of the store, once per mention.\<close>

definition paths_of :: "(CapioCLEntry \<Rightarrow> string list) \<Rightarrow> CapioCLEntry umap \<Rightarrow> string \<Rightarrow> string list" where
  "paths_of sel entries a = concat (map (\<lambda>(p, e). map (\<lambda>_. p) (filter (\<lambda>x. x = a) (sel e))) entries)"

lemma paths_of_snoc: "paths_of sel (entries @ [(p, e)]) a = paths_of sel entries a @ map (\<lambda>_. p) (filter (\<lambda>x. x = a) (sel e))"
  by (simp add: paths_of_def)

lemma paths_of_iff: "p \<in> set (paths_of sel entries a) \<longleftrightarrow> (\<exists>e. (p, e) \<in> set entries \<and> a \<in> set (sel e))"
  by (force simp: paths_of_def)

text \<open>A map that lists the paths of every application that has some.\<close>

definition lists_paths :: "(CapioCLEntry \<Rightarrow> string list) \<Rightarrow> CapioCLEntry umap \<Rightarrow> string list umap \<Rightarrow> bool" where
  "lists_paths sel entries m \<longleftrightarrow>
     um_wf m \<and> (\<forall>a. um_find m a = (if paths_of sel entries a = [] then None else Some (paths_of sel entries a)))"

lemma fold_push:
  assumes "um_wf m"
  shows "um_wf (fold (\<lambda>p. um_push r p path) ps m)"
    and "um_find (fold (\<lambda>p. um_push r p path) ps m) a =
      (if a \<in> set ps then Some (um_list m a @ map (\<lambda>_. path) (filter (\<lambda>x. x = a) ps)) else um_find m a)"
proof -
  have "um_wf (fold (\<lambda>p. um_push r p path) ps m) \<and>
    um_find (fold (\<lambda>p. um_push r p path) ps m) a =
      (if a \<in> set ps then Some (um_list m a @ map (\<lambda>_. path) (filter (\<lambda>x. x = a) ps)) else um_find m a)"
    using assms
  proof (induction ps rule: rev_induct)
    case (snoc p ps)
    then show ?case by (auto simp: um_find_push um_list_def filter_empty_conv)
  qed simp
  then show "um_wf (fold (\<lambda>p. um_push r p path) ps m)"
    and "um_find (fold (\<lambda>p. um_push r p path) ps m) a =
      (if a \<in> set ps then Some (um_list m a @ map (\<lambda>_. path) (filter (\<lambda>x. x = a) ps)) else um_find m a)" by simp_all
qed

lemma lists_paths_snoc:
  assumes "lists_paths sel entries m"
  shows "lists_paths sel (entries @ [(p, e)]) (fold (\<lambda>a. um_push r a p) (sel e) m)"
proof -
  have wf: "um_wf m" using assms by (simp add: lists_paths_def)
  have "um_list m a = paths_of sel entries a" for a using assms by (simp add: lists_paths_def um_list_def)
  then show ?thesis
    using assms fold_push [OF wf] by (auto simp: lists_paths_def paths_of_snoc filter_empty_conv)
qed

lemma collect_form:
  "permanent_paths (collect P entries) = map fst (filter (\<lambda>(_, e). permanent e) entries) \<and>
   exclude_paths (collect P entries) = map fst (filter (\<lambda>(_, e). excluded e) entries) \<and>
   memory_storage (collect P entries) = map fst (filter (\<lambda>(_, e). store_in_memory e) entries) \<and>
   fs_storage (collect P entries) = map fst (filter (\<lambda>(_, e). \<not> store_in_memory e) entries) \<and>
   lists_paths producers entries (app_outputs (collect P entries)) \<and>
   lists_paths consumers entries (app_inputs (collect P entries))"
proof (induction entries rule: rev_induct)
  case Nil
  show ?case by (simp add: collect_def lists_paths_def paths_of_def)
next
  case (snoc x entries)
  obtain p e where x: "x = (p, e)" by (cases x)
  have "collect P (entries @ [x]) = collect_entry P (p, e) (collect P entries)"
    by (simp add: collect_def x)
  with snoc.IH show ?case
    by (simp add: collect_entry_def x Let_def lists_paths_snoc)
qed

lemmas collect_lists = collect_form [THEN conjunct1] collect_form [THEN conjunct2, THEN conjunct1]
  collect_form [THEN conjunct2, THEN conjunct2, THEN conjunct1]
  collect_form [THEN conjunct2, THEN conjunct2, THEN conjunct2, THEN conjunct1]

lemmas collect_apps = collect_form [THEN conjunct2, THEN conjunct2, THEN conjunct2, THEN conjunct2, THEN conjunct1]
  collect_form [THEN conjunct2, THEN conjunct2, THEN conjunct2, THEN conjunct2, THEN conjunct2]

subsection \<open>The form of the document\<close>

definition producer_app :: "CapioCLEntry umap \<Rightarrow> string \<Rightarrow> json" where
  "producer_app entries a =
     JObject
       [(''name'', JString a),
        (''input_stream'', strings_json (paths_of consumers entries a)),
        (''output_stream'', strings_json (paths_of producers entries a)),
        (''streaming'', JArray (map (\<lambda>p. serialize_item p (the (um_find entries p))) (paths_of producers entries a)))]"

definition consumer_app :: "CapioCLEntry umap \<Rightarrow> string \<Rightarrow> json" where
  "consumer_app entries a =
     JObject
       [(''name'', JString a), (''input_stream'', strings_json (paths_of consumers entries a)),
        (''output_stream'', JArray [])]"

definition doc_members :: "string \<Rightarrow> CapioCLEntry umap \<Rightarrow> json list \<Rightarrow> (string \<times> json) list" where
  "doc_members name entries apps =
     [(''name'', JString name), (''IO_Graph'', JArray apps),
      (''permanent'', strings_json (map fst (filter (\<lambda>(_, e). permanent e) entries))),
      (''exclude'', strings_json (map fst (filter (\<lambda>(_, e). excluded e) entries))),
      (''storage'', JObject
         [(''memory'', strings_json (map fst (filter (\<lambda>(_, e). store_in_memory e) entries))),
          (''fs'', strings_json (map fst (filter (\<lambda>(_, e). \<not> store_in_memory e) entries)))])]"

lemma app_named_simps [simp]:
  "app_named b (producer_app entries a) \<longleftrightarrow> a = b" "app_named b (consumer_app entries a) \<longleftrightarrow> a = b"
  by (auto simp: app_named_def producer_app_def consumer_app_def member_def)

lemma rfold_items:
  "list_all (\<lambda>p. um_find entries p \<noteq> None) ps \<Longrightarrow>
   rfold (\<lambda>path streaming.
      case um_find entries path of
        None \<Rightarrow> Inl OutOfRange
      | Some entry \<Rightarrow> Inr (streaming @ [serialize_item path entry])) ps acc =
   Inr (acc @ map (\<lambda>p. serialize_item p (the (um_find entries p))) ps)"
  by (induction ps arbitrary: acc) auto

lemma paths_of_found: "um_wf entries \<Longrightarrow> list_all (\<lambda>p. um_find entries p \<noteq> None) (paths_of sel entries a)"
  by (auto simp: list_all_iff paths_of_iff um_items_find)

lemma serialize_app_form:
  assumes "um_wf entries" and "um_wf ins" and "um_list ins a = paths_of consumers entries a"
  shows "serialize_app P entries (a, paths_of producers entries a) (ins, g) =
    Inr (um_emplace (bucket_rank P) a [] ins, g @ [producer_app entries a])"
proof -
  have "(case um_find (um_emplace (bucket_rank P) a [] ins) a of Some v \<Rightarrow> v | None \<Rightarrow> []) = paths_of consumers entries a"
    using assms(2,3) by (auto simp: um_find_emplace um_list_def split: option.splits)
  then show ?thesis
    by (simp add: serialize_app_def rfold_items [OF paths_of_found [OF assms(1)]] producer_app_def Let_def)
qed

lemma rfold_serialize:
  assumes "um_wf entries" and "um_wf ins" and "\<And>b. um_list ins b = paths_of consumers entries b"
    and "list_all (\<lambda>(a, outs). outs = paths_of producers entries a) xs"
  shows "\<exists>ins'. rfold (serialize_app P entries) xs (ins, g) = Inr (ins', g @ map (\<lambda>x. producer_app entries (fst x)) xs) \<and>
    um_wf ins' \<and> (\<forall>b. um_list ins' b = paths_of consumers entries b) \<and>
    set (um_keys ins') = set (um_keys ins) \<union> fst ` set xs"
  using assms(2-4)
proof (induction xs arbitrary: ins g)
  case (Cons x xs)
  obtain a where x: "x = (a, paths_of producers entries a)" using Cons.prems(3) by (cases x) auto
  let ?ins = "um_emplace (bucket_rank P) a [] ins"
  have "um_list ?ins b = paths_of consumers entries b" for b
    using Cons.prems(2) [of b] by (auto simp: um_list_def um_find_emplace Cons.prems(1))
  moreover have "um_wf ?ins" using Cons.prems(1) by (rule um_wf_emplace)
  ultimately obtain ins' where "rfold (serialize_app P entries) xs (?ins, g @ [producer_app entries a]) =
        Inr (ins', (g @ [producer_app entries a]) @ map (\<lambda>x. producer_app entries (fst x)) xs)"
    "um_wf ins'" "\<forall>b. um_list ins' b = paths_of consumers entries b"
    "set (um_keys ins') = set (um_keys ?ins) \<union> fst ` set xs"
    using Cons.IH [of ?ins "g @ [producer_app entries a]"] Cons.prems(3) by auto
  with x show ?case
    by (auto simp: serialize_app_form [OF assms(1) Cons.prems(1,2)] um.keys_emplace [OF Cons.prems(1)])
qed auto

lemma fold_add_input_only:
  assumes "distinct (map fst xs)" and "list_all (\<lambda>(b, ins). ins = paths_of consumers entries b) xs"
  shows "fold add_input_only xs g =
    g @ map (consumer_app entries) (filter (\<lambda>b. \<not> list_ex (app_named b) g) (map fst xs))"
  using assms
proof (induction xs arbitrary: g)
  case (Cons x xs)
  obtain b where x: "x = (b, paths_of consumers entries b)" using Cons.prems(2) by (cases x) auto
  have "filter (\<lambda>c. \<not> list_ex (app_named c) (g @ [consumer_app entries b])) (map fst xs) =
      filter (\<lambda>c. \<not> list_ex (app_named c) g) (map fst xs)"
    using Cons.prems(1) x by (intro filter_cong) auto
  with Cons x show ?case
    by (simp add: add_input_only_def consumer_app_def [symmetric])
qed simp

text \<open>
  The document of an engine: never an exception, one application per producer and one per
  application that only consumes, and each path once in each section it belongs to.
\<close>

lemma engine_doc_form:
  assumes "engine_wf st"
  shows "\<exists>as bs. distinct (as @ bs) \<and> (\<forall>a. a \<in> set as \<longleftrightarrow> paths_of producers (capio_cl_entries st) a \<noteq> []) \<and>
    (\<forall>b. b \<in> set bs \<longleftrightarrow> paths_of producers (capio_cl_entries st) b = [] \<and> paths_of consumers (capio_cl_entries st) b \<noteq> []) \<and>
    engine_doc P vs st = Inr (JObject (vs @ doc_members (workflow_name st) (capio_cl_entries st)
      (map (producer_app (capio_cl_entries st)) as @ map (consumer_app (capio_cl_entries st)) bs)))"
proof -
  let ?es = "capio_cl_entries st" and ?c = "collect P (capio_cl_entries st)"
  have wf: "um_wf ?es" using assms by (simp add: engine_wf_def)
  have outs: "um_wf (app_outputs ?c)"
    "\<And>a. um_find (app_outputs ?c) a = (if paths_of producers ?es a = [] then None else Some (paths_of producers ?es a))"
    and ins: "um_wf (app_inputs ?c)"
    "\<And>a. um_find (app_inputs ?c) a = (if paths_of consumers ?es a = [] then None else Some (paths_of consumers ?es a))"
    using collect_apps [of ?es P] by (simp_all add: lists_paths_def)
  have "list_all (\<lambda>(a, outs). outs = paths_of producers ?es a) (app_outputs ?c)"
    using um_items_find [OF outs(1)] by (fastforce simp: list_all_iff outs(2) split: if_splits)
  moreover have "um_list (app_inputs ?c) b = paths_of consumers ?es b" for b by (simp add: um_list_def ins(2))
  ultimately obtain inputs where
    run: "rfold (serialize_app P ?es) (app_outputs ?c) (app_inputs ?c, []) =
        Inr (inputs, map (\<lambda>x. producer_app ?es (fst x)) (app_outputs ?c))"
    and inputs: "um_wf inputs" "\<And>b. um_list inputs b = paths_of consumers ?es b"
      "set (um_keys inputs) = set (um_keys (app_inputs ?c)) \<union> fst ` set (app_outputs ?c)"
    using rfold_serialize [OF wf ins(1), of "app_outputs ?c" P "[]"] by auto
  let ?as = "um_keys (app_outputs ?c)"
  let ?bs = "filter (\<lambda>b. b \<notin> set ?as) (um_keys inputs)"
  have g: "map (\<lambda>x. producer_app ?es (fst x)) (app_outputs ?c) = map (producer_app ?es) ?as"
    by (simp add: um_keys_def)
  have "i = paths_of consumers ?es b" if "(b, i) \<in> set inputs" for b i
    using um_items_find [OF inputs(1) that] inputs(2) [of b] by (simp add: um_list_def)
  then have "list_all (\<lambda>(b, i). i = paths_of consumers ?es b) inputs" by (auto simp: list_all_iff)
  moreover have "list_ex (app_named b) (map (producer_app ?es) ?as) \<longleftrightarrow> b \<in> set ?as" for b
    by (auto simp: list_ex_iff)
  ultimately have graph: "fold add_input_only inputs (map (producer_app ?es) ?as) =
      map (producer_app ?es) ?as @ map (consumer_app ?es) ?bs"
    using fold_add_input_only [of inputs ?es "map (producer_app ?es) ?as"] inputs(1)
    by (simp add: um_wf_def um_keys_def)
  have as: "a \<in> set ?as \<longleftrightarrow> paths_of producers ?es a \<noteq> []" for a by (simp add: um.key_iff outs(2))
  have bs: "b \<in> set ?bs \<longleftrightarrow> paths_of producers ?es b = [] \<and> paths_of consumers ?es b \<noteq> []" for b
  proof -
    have "b \<in> set (um_keys inputs) \<longleftrightarrow> paths_of consumers ?es b \<noteq> [] \<or> b \<in> set ?as"
      unfolding inputs(3) by (auto simp: um.key_iff ins(2) um_keys_def [of "app_outputs ?c"])
    with as [of b] show ?thesis by auto
  qed
  have "distinct (?as @ ?bs)" using outs(1) inputs(1) by (auto simp: um_keys_def um_wf_def)
  moreover have "engine_doc P vs st = Inr (JObject (vs @ doc_members (workflow_name st) ?es
      (map (producer_app ?es) ?as @ map (consumer_app ?es) ?bs)))"
    using run graph by (simp add: engine_doc_def Let_def g collect_lists doc_members_def getWorkflowName_def)
  ultimately show ?thesis using as bs by blast
qed

end
