(* ===== verification/CL_Serializer_Spec.thy ===== *)
theory CL_Serializer_Spec
  imports CL_Serializer
begin

text \<open>
  The properties of the serializer: what it writes, when that is valid for the schema the parser
  checks, and what it does when it cannot write.
\<close>

subsection \<open>When a document is valid\<close>

lemma array_of_strings [simp]: "array_of is_JString (strings_json ss)"
  by (simp add: array_of_def strings_json_def list_all_iff is_JString_def)

lemma array_of_map: "array_of p (JArray xs) = list_all p xs"
  by (simp add: array_of_def)

definition committed_ok :: "CapioCLEntry \<Rightarrow> bool" where
  "committed_ok e \<longleftrightarrow>
     0 < sint (commit_on_close_count e) \<or>
     (if is_file e then name_committed (commit_rule e) else dirname_committed (commit_rule e))"

definition readable :: "CapioCLEntry \<Rightarrow> bool" where
  "readable e \<longleftrightarrow> fire_rule e \<in> set fire_rules \<and> committed_ok e"

lemma on_close_count_pattern:
  assumes "0 < sint n"
  shows "on_close_pattern (ON_CLOSE @ '':'' @ to_string n)"
  using assms dec_of_digits by (simp add: on_close_pattern_def to_string_def rule_consts)

lemma committed_text_ok:
  "name_committed (committed_text e) \<longleftrightarrow>
     0 < sint (commit_on_close_count e) \<or> name_committed (commit_rule e)"
  "dirname_committed (committed_text e) \<longleftrightarrow>
     0 < sint (commit_on_close_count e) \<or> dirname_committed (commit_rule e)"
  using on_close_count_pattern
  by (auto simp: committed_text_def name_committed_def dirname_committed_def)

lemma item_members:
  "member ''name'' (serialize_item p e) = (if is_file e then Some (strings_json [p]) else None)"
  "member ''dirname'' (serialize_item p e) = (if is_file e then None else Some (strings_json [p]))"
  "member ''committed'' (serialize_item p e) = Some (JString (committed_text e))"
  "member ''n_files'' (serialize_item p e) = (if is_file e then None else Some (JInt (sint (directory_children_count e))))"
  "member ''file_deps'' (serialize_item p e) = Some (strings_json (file_dependencies e))"
  "member ''mode'' (serialize_item p e) = Some (JString (fire_rule e))"
  by (simp_all add: serialize_item_def member_def)

lemma needs_present: "map_of ms k \<noteq> None \<Longrightarrow> needs rule k (JObject ms)"
  by (auto simp: needs_def member_def split: option.split json.split)

lemma item_rules:
  "streaming_name_rule (serialize_item p e) \<longleftrightarrow>
     is_file e \<and> name_committed (committed_text e) \<and> fire_rule e \<in> set fire_rules"
  "streaming_dirname_rule (serialize_item p e) \<longleftrightarrow>
     \<not> is_file e \<and> dirname_committed (committed_text e) \<and> fire_rule e \<in> set fire_rules"
  by (auto simp: streaming_name_rule_def streaming_dirname_rule_def needs_present obj_schema_def serialize_item_def
      string_such_def is_JInt_def fire_rules_def)

lemma streaming_item_serialize: "streaming_item (serialize_item p e) \<longleftrightarrow> readable e"
  by (auto simp: streaming_item_def item_rules readable_def committed_ok_def committed_text_ok)

lemma application_producer:
  "application (producer_app entries a) \<longleftrightarrow>
     list_all (\<lambda>p. readable (the (um_find entries p))) (paths_of producers entries a)"
  by (simp add: application_def producer_app_def obj_schema_def is_JString_def array_of_map list_all_iff
      streaming_item_serialize)

lemma application_consumer: "application (consumer_app entries a)"
  by (simp add: application_def consumer_app_def obj_schema_def is_JString_def array_of_map)

lemma schema_doc_members:
  "schema_v1 (JObject (doc_members name entries apps)) \<longleftrightarrow> list_all application apps"
  "schema_v1_1 (JObject ((''version'', JDouble d) # doc_members name entries apps)) \<longleftrightarrow> list_all application apps"
  by (simp_all add: schema_v1_def schema_v1_1_def common_properties_def doc_members_def obj_schema_def is_JString_def
      is_number_def array_of_map)

definition all_readable :: "engine \<Rightarrow> bool" where
  "all_readable st \<longleftrightarrow> list_all (\<lambda>(_, e). producers e = [] \<or> readable e) (capio_cl_entries st)"

lemma applications_valid:
  assumes "engine_wf st" and "\<And>a. a \<in> set as \<longleftrightarrow> paths_of producers (capio_cl_entries st) a \<noteq> []"
  shows "list_all application (map (producer_app (capio_cl_entries st)) as @ map (consumer_app (capio_cl_entries st)) bs)
    \<longleftrightarrow> all_readable st"
proof -
  have "list_all application (map (producer_app (capio_cl_entries st)) as @ map (consumer_app (capio_cl_entries st)) bs)
      \<longleftrightarrow> (\<forall>a \<in> set as. \<forall>p \<in> set (paths_of producers (capio_cl_entries st) a). readable (the (entry_at st p)))"
    by (simp add: list.pred_map comp_def application_producer application_consumer) (simp add: list_all_iff)
  also have "\<dots> \<longleftrightarrow> (\<forall>p e a. (p, e) \<in> set (capio_cl_entries st) \<and> a \<in> set (producers e) \<longrightarrow> readable (the (entry_at st p)))"
  proof -
    have "a \<in> set as \<longleftrightarrow> (\<exists>p e. (p, e) \<in> set (capio_cl_entries st) \<and> a \<in> set (producers e))" for a
      unfolding assms(2) by (metis paths_of_iff ex_in_conv set_empty)
    then show ?thesis unfolding Ball_def paths_of_iff by blast
  qed
  also have "\<dots> \<longleftrightarrow> (\<forall>p e a. (p, e) \<in> set (capio_cl_entries st) \<and> a \<in> set (producers e) \<longrightarrow> readable e)"
    using assms(1) by (metis engine_wf_def option.sel um_items_find)
  also have "\<dots> \<longleftrightarrow> all_readable st"
    by (auto simp: all_readable_def list_all_iff) (metis last_in_set)
  finally show ?thesis .
qed

subsection \<open>When its numbers fit\<close>

definition entry_fits :: "CapioCLEntry \<Rightarrow> bool" where
  "entry_fits e \<longleftrightarrow> (if 0 < sint (commit_on_close_count e) then sint (commit_on_close_count e) < 2 ^ 31
                        else CHR '':'' \<notin> set (commit_rule e))"

definition all_fit :: "engine \<Rightarrow> bool" where
  "all_fit st \<longleftrightarrow> list_all (\<lambda>(_, e). producers e = [] \<or> entry_fits e) (capio_cl_entries st)"

lemma committed_text_count:
  "0 < sint (commit_on_close_count e) \<Longrightarrow> committed_text e = ON_CLOSE @ '':'' @ dec_of (nat (sint (commit_on_close_count e)))"
  by (simp add: committed_text_def to_string_def)

lemma item_fits_serialize:
  assumes "entry_fits e"
  shows "item_fits (serialize_item p e)"
proof (cases "0 < sint (commit_on_close_count e)")
  case True
  then have "drop 9 (committed_text e) = dec_of (nat (sint (commit_on_close_count e)))"
    by (simp add: committed_text_count rule_consts)
  moreover have "nat (sint (commit_on_close_count e)) < 2 ^ 31" using True assms by (simp add: entry_fits_def)
  ultimately show ?thesis
    using sint_long_range by (simp add: item_fits_def item_members entry_fits_def)
next
  case False
  then have "committed_text e = commit_rule e" by (simp add: committed_text_def)
  with False assms show ?thesis
    using sint_long_range by (simp add: item_fits_def item_members entry_fits_def)
qed

lemma serialized_items:
  assumes "engine_wf st" and "all_fit st"
  shows "list_all item_fits (map (\<lambda>p. serialize_item p (the (entry_at st p))) (paths_of producers (capio_cl_entries st) a))"
proof -
  have "item_fits (serialize_item p (the (entry_at st p)))" if p: "p \<in> set (paths_of producers (capio_cl_entries st) a)" for p
  proof -
    obtain e where e: "(p, e) \<in> set (capio_cl_entries st)" "a \<in> set (producers e)"
      using p by (auto simp: paths_of_iff)
    then have "entry_at st p = Some e" using assms(1) by (simp add: engine_wf_def um_items_find)
    moreover have "entry_fits e" using assms(2) e by (fastforce simp: all_fit_def list_all_iff)
    ultimately show ?thesis by (simp add: item_fits_serialize)
  qed
  then show ?thesis by (simp add: list_all_iff)
qed

lemma doc_fits_members:
  assumes "engine_wf st" and "all_fit st" and "vs = [] \<or> vs = [(''version'', JDouble ''1.1'')]"
  shows "doc_fits (JObject (vs @ doc_members name (capio_cl_entries st)
    (map (producer_app (capio_cl_entries st)) as @ map (consumer_app (capio_cl_entries st)) bs)))"
proof -
  have "member ''IO_Graph'' (JObject (vs @ doc_members name entries apps)) = Some (JArray apps)" for entries apps
    using assms(3) by (auto simp: member_def doc_members_def)
  moreover have "member ''streaming'' (producer_app (capio_cl_entries st) a) =
      Some (JArray (map (\<lambda>p. serialize_item p (the (entry_at st p))) (paths_of producers (capio_cl_entries st) a)))" for a
    by (simp add: member_def producer_app_def)
  moreover have "member ''streaming'' (consumer_app entries a) = None" for entries a
    by (simp add: member_def consumer_app_def)
  ultimately show ?thesis
    using serialized_items [OF assms(1,2)] by (simp add: doc_fits_def list.pred_map comp_def) (simp add: list_all_iff)
qed

subsection \<open>Properties\<close>

text \<open>The members that tell the version.\<close>

definition version_members :: "string \<Rightarrow> (string \<times> json) list" where
  "version_members version = (if version = V1_1 then [(''version'', JDouble ''1.1'')] else [])"

lemma dump_eq:
  "dump P pretty_print can_open st out_name version disk_files =
     (if version = V1 \<or> version = V1_1
      then rbind (engine_doc P (version_members version) st) (write_doc pretty_print can_open out_name disk_files)
      else Inl (SerializerException (''No serializer available for CAPIO-CL version: '' @ version)))"
  by (simp add: dump_def serialize_v1_def serialize_v1_1_def version_members_def version_consts)

text \<open>
  Writing an engine fails only for an unknown version or a file that cannot be opened, with a
  \<open>SerializerException\<close>; otherwise exactly the named file changes, and it holds the document.
\<close>

theorem dump_outcome:
  assumes "engine_wf st"
  shows "\<exists>doc. dump P pretty_print can_open st out_name version disk_files =
    (if version \<notin> {V1, V1_1} then Inl (SerializerException (''No serializer available for CAPIO-CL version: '' @ version))
     else if \<not> can_open out_name then Inl (SerializerException (''Failed to open output file: '' @ out_name))
     else Inr (disk_files(out_name \<mapsto> pretty_print doc @ [CHR 0x0A]))) \<and>
    engine_doc P (version_members version) st = Inr doc"
  using engine_doc_form [OF assms, of P "version_members version"] by (auto simp: dump_eq write_doc_def)

lemma dump_readable:
  assumes "engine_wf st" and "all_fit st" and "version \<in> {V1, V1_1}" and "out_name \<noteq> []"
    and "json_conversions J" and "as_string J (JDouble ''1.1'') = Inr ''1.1''"
    and "engine_doc P (version_members version) st = Inr doc"
    and "json_parse J (pretty_print doc @ [CHR 0x0A]) = Inr doc"
    and "dump P pretty_print can_open st out_name version disk_files = Inr disk_files'"
  shows "(\<exists>rt. parse P J parse_toml disk_files' out_name pre only = Some (Inr rt)) \<longleftrightarrow> all_readable st"
proof -
  obtain as bs where as: "\<And>a. a \<in> set as \<longleftrightarrow> paths_of producers (capio_cl_entries st) a \<noteq> []"
    and doc: "doc = JObject (version_members version @ doc_members (workflow_name st) (capio_cl_entries st)
      (map (producer_app (capio_cl_entries st)) as @ map (consumer_app (capio_cl_entries st)) bs))"
    using engine_doc_form [OF assms(1), of P "version_members version"] assms(7) by auto
  have v: "version_members version = [] \<or> version_members version = [(''version'', JDouble ''1.1'')]"
    by (simp add: version_members_def)
  have written: "disk_files' out_name = Some (pretty_print doc @ [CHR 0x0A])"
    using assms(3,7,9) by (auto simp: dump_eq write_doc_def split: if_splits)
  have fits: "doc_fits doc"
    unfolding doc by (rule doc_fits_members [OF assms(1,2) v])
  have conf: "\<not> json_contains ''configuration'' doc"
    using v by (auto simp: doc json_contains_def doc_members_def)
  have "schema_v1 doc \<or> schema_v1_1 doc \<and> rbind (json_at ''version'' doc) (as_string J) = Inr V1_1 \<longleftrightarrow> all_readable st"
    using v
  proof
    assume "version_members version = []"
    then have "schema_v1 doc = all_readable st"
      unfolding doc using applications_valid [OF assms(1) as] by (simp add: schema_doc_members)
    moreover have "\<not> schema_v1_1 doc"
      using schema_v1_1_version [of doc] \<open>version_members version = []\<close> by (auto simp: doc member_def doc_members_def)
    ultimately show ?thesis by simp
  next
    assume e: "version_members version = [(''version'', JDouble ''1.1'')]"
    then have "schema_v1_1 doc = all_readable st"
      unfolding doc using applications_valid [OF assms(1) as] by (simp add: schema_doc_members)
    moreover have "\<not> schema_v1 doc"
      using schema_v1_no_version [of doc] e by (auto simp: doc member_def)
    moreover have "rbind (json_at ''version'' doc) (as_string J) = Inr V1_1"
      using e assms(6) by (simp add: doc json_at_def V1_1_def)
    ultimately show ?thesis by simp
  qed
  with parse_accepts_valid_lemma [OF assms(5,4), of disk_files', OF written assms(8) fits conf] show ?thesis by simp
qed


text \<open>
  An example: a reachable engine with a file whose rule is \<open>on_n_files\<close>, and a library that reads
  every text as the document of that engine.
\<close>

definition demo_counted :: engine where
  "demo_counted = run_calls demo [AddProducer ''f'' ''a'', SetCommitRule ''f'' ON_N_FILES] (new_engine demo)"

definition demo_counted_doc :: json where
  "demo_counted_doc = (case engine_doc demo [] demo_counted of Inr doc \<Rightarrow> doc | Inl _ \<Rightarrow> JNull)"

definition demo_counted_reader :: jsoncons where
  "demo_counted_reader =
     demo_json\<lparr>json_parse := (\<lambda>_. Inr demo_counted_doc),
               as_string := (\<lambda>j. case j of JString s \<Rightarrow> Inr s | JDouble s \<Rightarrow> Inr s | _ \<Rightarrow> Inl JsonException)\<rparr>"

lemma demo_counted_reader: "json_conversions demo_counted_reader"
    "as_string demo_counted_reader (JDouble ''1.1'') = Inr ''1.1''"
  by (simp_all add: json_conversions_def demo_counted_reader_def demo_json_def)

lemma demo_counted: "engine_wf demo_counted" "all_fit demo_counted" "\<not> all_readable demo_counted"
    "engine_doc demo [] demo_counted = Inr demo_counted_doc"
  by code_simp+

theorem dump_outcome_witness:
  "\<exists>doc. dump demo (\<lambda>_. ''{}'') (\<lambda>_. True) demo_counted ''out'' V1 Map.empty = Inr [''out'' \<mapsto> ''{}'' @ [CHR 0x0A]] \<and>
     engine_doc demo (version_members V1) demo_counted = Inr doc"
  using dump_outcome [OF demo_counted(1), of demo "\<lambda>_. ''{}''" "\<lambda>_. True" "''out''" V1 Map.empty] by auto


end
