(* ===== verification/CL_Parser_Facts.thy ===== *)
theory CL_Parser_Facts
  imports CL_Parser_Spec
begin

text \<open>
  What a document says holds of the engine it is read into. Reading only adds: \<open>extends\<close> is the
  order in which every step of the parser goes up, so what one step registers is still there at the
  end.
\<close>

subsection \<open>Engines that only grow\<close>

definition grows :: "CapioCLEntry \<Rightarrow> CapioCLEntry \<Rightarrow> bool" where
  "grows e e' \<longleftrightarrow>
     set (producers e) \<subseteq> set (producers e') \<and> set (consumers e) \<subseteq> set (consumers e') \<and>
     (permanent e \<longrightarrow> permanent e') \<and> (excluded e \<longrightarrow> excluded e') \<and>
     (enable_directory_count_update e' \<longrightarrow> enable_directory_count_update e)"

definition extends :: "engine \<Rightarrow> engine \<Rightarrow> bool" where
  "extends st st' \<longleftrightarrow>
     workflow_name st' = workflow_name st \<and>
     (engine_wf st \<longrightarrow>
        engine_wf st' \<and> (\<forall>q e. entry_at st q = Some e \<longrightarrow> (\<exists>e'. entry_at st' q = Some e' \<and> grows e e')))"

lemma grows_refl [simp]: "grows e e"
  by (simp add: grows_def)

lemma grows_trans: "grows a b \<Longrightarrow> grows b c \<Longrightarrow> grows a c"
  by (auto simp: grows_def)

lemma extends_refl [simp]: "extends st st"
  by (simp add: extends_def)

lemma extends_trans: "extends a b \<Longrightarrow> extends b c \<Longrightarrow> extends a c"
  unfolding extends_def by (metis grows_trans)

lemma extends_order: "reflp extends" "transp extends"
  by (auto intro!: reflpI transpI intro: extends_trans)

lemma extends_entry:
  "extends st st' \<Longrightarrow> engine_wf st \<Longrightarrow> entry_at st q = Some e \<Longrightarrow> \<exists>e'. entry_at st' q = Some e' \<and> grows e e'"
  by (auto simp: extends_def)

lemma extends_wf: "extends st st' \<Longrightarrow> engine_wf st \<Longrightarrow> engine_wf st'"
  by (simp add: extends_def)

lemma extends_newFile [simp]: "extends st (newFile_internal P p st)"
proof -
  have "grows e e'" if "same_rules e e'" for e e'
    using same_rules_members [OF that] by (simp add: grows_def)
  then show ?thesis unfolding extends_def by (metis newFile_same_rules wf_newFile workflow_newFile)
qed

lemma extends_modify: "(\<And>e. grows e (f e)) \<Longrightarrow> extends st (modify_at p f st)"
  by (auto simp: extends_def entry_at_modify)

lemma extends_update: "(\<And>e. grows e (f e)) \<Longrightarrow> extends st (update_entry P p f st)"
  by (cases "p = []") (auto simp: update_entry_eq intro: extends_trans [OF extends_newFile extends_modify])

lemma extends_fold: "(\<And>x s. extends s (f x s)) \<Longrightarrow> extends st (fold f xs st)"
  by (rule fold_invariant [where I = "extends st"]) (auto intro: extends_trans)

lemma extends_setters:
  "extends st (setPermanent P p True st)" "extends st (setExclude P p True st)"
  "extends st (setFile P p st)" "extends st (setDirectory P p st)"
  "extends st (setCommitedCloseNumber P p n st)"
  "extends st (setStoreFileInMemory P p st)" "extends st (setStoreFileInFileSystem P p st)"
  "extends st (snd (addProducer P p a st))" "extends st (snd (addConsumer P p a st))"
  by (auto simp: setPermanent_def setExclude_def setFile_def setDirectory_def setCommitedCloseNumber_def
      setStoreFileInMemory_def setStoreFileInFileSystem_def addProducer_eq addConsumer_eq grows_def
      intro!: extends_update)

lemma extends_rules:
  "setCommitRule P p r st = Inr st' \<Longrightarrow> extends st st'" "setFireRule P p r st = Inr st' \<Longrightarrow> extends st st'"
  by (auto simp: setCommitRule_eq setFireRule_eq rbind_Inr_iff grows_def split: if_splits intro!: extends_update)

lemma extends_setFileDeps: "extends st (setFileDeps P p ds st)"
proof (cases "p = [] \<or> ds = []")
  case True
  then show ?thesis by (auto simp: setFileDeps.simps [of P p ds st])
next
  case False
  have "extends st (fold (newFile P) ds st)" by (rule extends_fold) (simp add: newFile_def)
  then have "extends st (newFile_internal P p (fold (newFile P) ds st))"
    by (rule extends_trans) simp
  then have "extends st (modify_at p (\<lambda>e. e\<lparr>file_dependencies := ds\<rparr>) (newFile_internal P p (fold (newFile P) ds st)))"
    by (rule extends_trans) (auto intro!: extends_modify simp: grows_def)
  with False show ?thesis by (simp add: setFileDeps_eq)
qed

lemma extends_setDirectoryFileCount: "extends st (setDirectoryFileCount P p n st)"
proof (induction P p n st rule: setDirectoryFileCount.induct)
  case (1 P p n st)
  let ?s = "fold (setDirectory P) (getPaths st) st"
  have loop: "extends st ?s" by (rule extends_fold) (simp add: extends_setters)
  show ?case
  proof (cases "p = [] \<or> known ?s p")
    case True
    with loop show ?thesis
      by (auto simp: setDirectoryFileCount.simps [of P p n st] Let_def known_def grows_def
          intro!: extends_modify elim!: extends_trans split: option.split)
  next
    case False
    then have "extends (newFile_internal P p ?s) (setDirectoryFileCount P p n (newFile_internal P p ?s))"
      using 1 by (auto simp: known_def)
    with loop have "extends st (setDirectoryFileCount P p n (newFile_internal P p ?s))"
      by (blast intro: extends_trans extends_newFile)
    with False show ?thesis by (simp add: setDirectoryFileCount.simps [of P p n st] Let_def known_def)
  qed
qed

lemma extends_setAllStoreInMemory: "extends st (setAllStoreInMemory P st)"
proof -
  have "extends (st\<lparr>store_all_in_memory := True\<rparr>) (setAllStoreInMemory P st)"
    unfolding setAllStoreInMemory_def Let_def by (rule extends_fold) (simp add: extends_setters)
  moreover have "extends st (st\<lparr>store_all_in_memory := True\<rparr>)" by (auto simp: extends_def engine_wf_def)
  ultimately show ?thesis using extends_trans by blast
qed

subsection \<open>Every step of the parser goes up\<close>

lemma extends_parse_each:
  assumes "parse_each J key f doc st = Inr st'" and "\<And>s st. extends st (f s st)"
  shows "extends st st'"
  using assms(1) unfolding parse_each_def
  by (auto simp: rbind_Inr_iff assms(2) elim!: rfold_relation [OF _ extends_order] split: if_splits)

lemma extends_apply_stream_rule:
  assumes "apply_stream_rule P r p st = Inr st'"
  shows "extends st st'"
proof -
  define e1 where "e1 = (if sr_files r \<noteq> 0 then setDirectoryFileCount P p (sr_files r) st else st)"
  define e2 where "e2 = (if sr_is_file r then setFile P p e1 else setDirectory P p e1)"
  have e12: "extends st e1" "extends e1 e2"
    by (auto simp: e1_def e2_def extends_setDirectoryFileCount extends_setters)
  obtain e3 e4 where e34: "setCommitRule P p (sr_commit r) e2 = Inr e3" "setFireRule P p (sr_fire r) e3 = Inr e4"
    and st': "st' = setFileDeps P p (sr_deps r) (setCommitedCloseNumber P p (sr_close r) e4)"
    using assms unfolding apply_stream_rule_def Let_def e1_def [symmetric] e2_def [symmetric] rbind_Inr_iff by auto
  from e12 extends_rules(1) [OF e34(1)] extends_rules(2) [OF e34(2)] have "extends st e4"
    by (blast intro: extends_trans)
  then show ?thesis
    unfolding st' by (blast intro: extends_trans extends_setters extends_setFileDeps)
qed

lemma extends_parse_streaming: "parse_streaming P J pre app st = Inr st' \<Longrightarrow> extends st st'"
  unfolding parse_streaming_def
  by (auto simp: rbind_Inr_iff intro: extends_apply_stream_rule elim!: rfold_relation [OF _ extends_order]
      split: if_splits)

lemma extends_parse_stream:
  assumes "parse_stream J pre reg items (n, st) = Inr (n', st')"
    and "\<And>p n st. extends st (snd (reg p n st))"
  shows "extends st st'"
proof -
  have "extends (snd (n, st)) (snd (n', st'))"
  proof (rule rfold_relation [where R = "\<lambda>a b. extends (snd a) (snd b)", OF assms(1) [unfolded parse_stream_def]])
    show "reflp (\<lambda>a b. extends (snd a) (snd b))" "transp (\<lambda>a b. extends (snd a) (snd b))"
      by (auto intro!: reflpI transpI intro: extends_trans)
  qed (use assms(2) in \<open>auto simp: rbind_Inr_iff split: prod.splits, metis snd_conv\<close>)
  then show ?thesis by simp
qed

lemma extends_register:
  "extends st (snd (addConsumer P p a (newFile P p st)))" "extends st (snd (addProducer P p a (newFile P p st)))"
  by (auto simp: newFile_def intro: extends_trans [OF extends_newFile] extends_setters)

lemma extends_io:
  "parse_input_stream P J pre app (n, st) = Inr (n', st') \<Longrightarrow> extends st st'"
  "parse_output_stream P J pre app (n, st) = Inr (n', st') \<Longrightarrow> extends st st'"
  by (auto simp: parse_input_stream_def parse_output_stream_def rbind_Inr_iff extends_register
      elim!: extends_parse_stream)

lemma extends_parse_app: "parse_app P J pre app st = Inr st' \<Longrightarrow> extends st st'"
  by (auto simp: parse_app_def rbind_Inr_iff split: prod.splits
      dest!: extends_io extends_parse_streaming intro: extends_trans)

lemma extends_flags:
  "extends st (let path = resolve s pre in setPermanent P path True (newFile P path st))"
  "extends st (let path = resolve s pre in setExclude P path True (newFile P path st))"
  by (auto simp: Let_def newFile_def intro: extends_trans [OF extends_newFile] extends_setters)

lemma extends_parse_storage: "parse_storage P J doc st = Inr st' \<Longrightarrow> extends st st'"
  by (auto simp: parse_storage_def rbind_Inr_iff extends_setters split: if_splits
      dest!: extends_parse_each intro: extends_trans)

subsection \<open>The claims of a document\<close>

text \<open>A document as its author reads it; what is missing or of another type is empty.\<close>

definition items_at :: "string \<Rightarrow> json \<Rightarrow> json list" where
  "items_at key j = (case member key j of Some (JArray xs) \<Rightarrow> xs | _ \<Rightarrow> [])"

definition strings_at :: "string \<Rightarrow> json \<Rightarrow> string list" where
  "strings_at key j = concat (map (\<lambda>x. case x of JString s \<Rightarrow> [s] | _ \<Rightarrow> []) (items_at key j))"

definition string_at :: "string \<Rightarrow> json \<Rightarrow> string" where
  "string_at key j = (case member key j of Some (JString s) \<Rightarrow> s | _ \<Rightarrow> [])"

lemma strings_at_iff: "s \<in> set (strings_at key j) \<longleftrightarrow> JString s \<in> set (items_at key j)"
proof -
  have "s \<in> set (case x of JString t \<Rightarrow> [t] | _ \<Rightarrow> []) \<longleftrightarrow> x = JString s" for x
    by (cases x) auto
  then show ?thesis by (auto simp: strings_at_def)
qed

lemma json_array_items: "rbind (json_at key j) json_array = Inr xs \<Longrightarrow> items_at key j = xs"
  by (auto simp: json_at_member json_array_def items_at_def rbind_Inr_iff split: option.splits json.splits)

definition entry_has :: "(CapioCLEntry \<Rightarrow> bool) \<Rightarrow> engine \<Rightarrow> string \<Rightarrow> bool" where
  "entry_has Q st path = (case entry_at st path of Some e \<Rightarrow> Q e | None \<Rightarrow> False)"

lemma entry_has_iff: "entry_has Q st path \<longleftrightarrow> (\<exists>e. entry_at st path = Some e \<and> Q e)"
  by (simp add: entry_has_def split: option.split)

lemma extends_has:
  assumes "extends st st'" and "engine_wf st" and "\<And>e e'. grows e e' \<Longrightarrow> Q e \<Longrightarrow> Q e'" and "entry_has Q st p"
  shows "entry_has Q st' p"
  using extends_entry [OF assms(1,2)] assms(3,4) by (fastforce simp: entry_has_iff)

lemma extends_claims:
  assumes "extends st st'" and "engine_wf st"
  shows "entry_has (\<lambda>e. a \<in> set (producers e)) st p \<Longrightarrow> entry_has (\<lambda>e. a \<in> set (producers e)) st' p"
    and "entry_has (\<lambda>e. a \<in> set (consumers e)) st p \<Longrightarrow> entry_has (\<lambda>e. a \<in> set (consumers e)) st' p"
    and "entry_has permanent st p \<Longrightarrow> entry_has permanent st' p"
    and "entry_has excluded st p \<Longrightarrow> entry_has excluded st' p"
    and "entry_has (\<lambda>_. True) st p \<Longrightarrow> entry_has (\<lambda>_. True) st' p"
  by (rule extends_has [OF assms]; auto simp: grows_def)+

lemma update_has: "p \<noteq> [] \<Longrightarrow> (\<And>e. Q (f e)) \<Longrightarrow> entry_has Q (update_entry P p f st) p"
  using newFile_present [of p P st] by (auto simp: update_entry_eq entry_has_iff entry_at_modify)

text \<open>One round of a loop over strings registers its fact, and the later rounds keep it.\<close>

lemma parse_each_has:
  assumes run: "parse_each J key f doc st = Inr st'" and J: "json_conversions J"
    and up: "\<And>s st. extends st (f s st)" and wf: "engine_wf st"
    and Q: "\<And>e e'. grows e e' \<Longrightarrow> Q e \<Longrightarrow> Q e'" and s: "s \<in> set (strings_at key doc)"
    and fact: "\<And>st. entry_has Q (f s st) (resolve s pre)"
  shows "entry_has Q st' (resolve s pre)"
proof -
  from s have has: "json_contains key doc"
    by (cases "member key doc") (auto simp: strings_at_iff items_at_def json_contains_member)
  with run obtain xs where xs: "rbind (json_at key doc) json_array = Inr xs"
    and loop: "rfold (\<lambda>itm engine. rbind (as_string J itm) (\<lambda>s. Inr (f s engine))) xs st = Inr st'"
    by (auto simp: parse_each_def rbind_Inr_iff)
  have "JString s \<in> set xs" using s json_array_items [OF xs] by (simp add: strings_at_iff)
  moreover have "extends a b" if "rbind (as_string J x) (\<lambda>s. Inr (f s a)) = Inr b" for x a b
    using that up by (auto simp: rbind_Inr_iff)
  ultimately obtain s1 s2 where "extends st s1" "rbind (as_string J (JString s)) (\<lambda>s. Inr (f s s1)) = Inr s2"
    and up2: "extends s2 st'"
    using rfold_round [OF loop extends_order] by metis
  moreover from this(2) J have s2: "s2 = f s s1" by (simp add: json_conversions_def)
  moreover have "engine_wf s2" using calculation up wf extends_wf by blast
  moreover have "entry_has Q s2 (resolve s pre)" unfolding s2 by (rule fact)
  ultimately show ?thesis using Q up2 by (blast intro: extends_has)
qed

lemma parse_stream_has:
  assumes run: "parse_stream J pre reg items (n, st) = Inr (n', st')" and J: "json_conversions J"
    and up: "\<And>p n st. extends st (snd (reg p n st))" and wf: "engine_wf st"
    and Q: "\<And>e e'. grows e e' \<Longrightarrow> Q e \<Longrightarrow> Q e'" and s: "JString s \<in> set items"
    and name: "\<And>p m st. erase_spaces (fst (reg p m st)) = erase_spaces m"
    and fact: "\<And>m st. erase_spaces m = erase_spaces n \<Longrightarrow> entry_has Q (snd (reg (resolve s pre) m st)) (resolve s pre)"
  shows "entry_has Q st' (resolve s pre)"
proof -
  define R where "R = (\<lambda>a b :: string \<times> engine. extends (snd a) (snd b) \<and> erase_spaces (fst b) = erase_spaces (fst a))"
  have R: "reflp R" "transp R" by (auto simp: R_def intro!: reflpI transpI intro: extends_trans)
  have step: "R a b" if "(case a of (m, e) \<Rightarrow> rbind (as_string J x) (\<lambda>s. Inr (reg (resolve s pre) m e))) = Inr b" for x a b
    using that up name by (cases a) (auto simp: rbind_Inr_iff R_def)
  obtain s1 s2 where 1: "R (n, st) s1" "R s2 (n', st')"
    and 2: "(case s1 of (m, e) \<Rightarrow> rbind (as_string J (JString s)) (\<lambda>s. Inr (reg (resolve s pre) m e))) = Inr s2"
    using rfold_round [OF run [unfolded parse_stream_def] R _ s] step by blast
  obtain m e where "s1 = (m, e)" by (cases s1)
  with 1 2 J have "s2 = reg (resolve s pre) m e" "erase_spaces m = erase_spaces n" "extends st e"
    by (auto simp: json_conversions_def R_def)
  moreover from this have "engine_wf (snd s2)" using up wf extends_wf by metis
  moreover have "entry_has Q (snd s2) (resolve s pre)" using calculation(1,2) fact by simp
  moreover have "extends (snd s2) st'" using 1(2) by (simp add: R_def)
  ultimately show ?thesis using Q by (blast intro: extends_has)
qed

subsection \<open>One application\<close>

lemma register_producer:
  "erase_spaces (fst (addProducer P p m st)) = erase_spaces m"
  "p \<noteq> [] \<Longrightarrow> erase_spaces m = n \<Longrightarrow> entry_has (\<lambda>e. n \<in> set (producers e)) (snd (addProducer P p m st)) p"
  by (auto simp: addProducer_eq intro!: update_has)

lemma register_consumer:
  "erase_spaces (fst (addConsumer P p m st)) = erase_spaces m"
  "p \<noteq> [] \<Longrightarrow> erase_spaces m = n \<Longrightarrow> entry_has (\<lambda>e. n \<in> set (consumers e)) (snd (addConsumer P p m st)) p"
  by (auto simp: addConsumer_eq intro!: update_has)

lemma parse_stream_names:
  assumes "parse_stream J pre reg items (n, st) = Inr (n', st')"
    and "\<And>p m st. erase_spaces (fst (reg p m st)) = erase_spaces m"
  shows "erase_spaces n' = erase_spaces n"
proof -
  have "erase_spaces (fst (n, st)) = erase_spaces (fst (n', st'))"
  proof (rule rfold_relation [where R = "\<lambda>a b. erase_spaces (fst a) = erase_spaces (fst b)",
        OF assms(1) [unfolded parse_stream_def]])
    show "reflp (\<lambda>a b :: string \<times> engine. erase_spaces (fst a) = erase_spaces (fst b))"
      "transp (\<lambda>a b :: string \<times> engine. erase_spaces (fst a) = erase_spaces (fst b))"
      by (auto intro!: reflpI transpI)
  qed (use assms(2) in \<open>auto simp: rbind_Inr_iff split: prod.splits, metis fst_conv\<close>)
  then show ?thesis by simp
qed

lemma parse_app_steps:
  assumes "parse_app P J pre app st = Inr st'" and "json_conversions J" and "application app"
  obtains n1 s1 n2 s2 where "parse_input_stream P J pre app (string_at ''name'' app, st) = Inr (n1, s1)"
    "parse_output_stream P J pre app (n1, s1) = Inr (n2, s2)" "parse_streaming P J pre app s2 = Inr st'"
proof -
  have obj: "obj_schema
       [(''name'', is_JString), (''input_stream'', array_of is_JString), (''output_stream'', array_of is_JString),
        (''streaming'', array_of streaming_item)] [''name'', ''input_stream'', ''output_stream''] app"
    using assms(3) by (simp add: application_def)
  obtain v where v: "member ''name'' app = Some v" using obj_schema_required [OF obj] by auto
  then have "is_JString v" using obj_schema_member [OF obj v] by simp
  then obtain t where "v = JString t" "as_string J v = Inr t" using as_string_total [OF assms(2)] by blast
  then have "as_string J v = Inr (string_at ''name'' app)" using v by (simp add: string_at_def)
  with v assms(1) that show ?thesis by (auto simp: parse_app_def json_at_member rbind_Inr_iff)
qed

lemma parse_app_consumers:
  assumes "parse_app P J pre app st = Inr st'" and "json_conversions J" and "application app"
    and "engine_wf st" and "s \<in> set (strings_at ''input_stream'' app)" and "resolve s pre \<noteq> []"
  shows "entry_has (\<lambda>e. erase_spaces (string_at ''name'' app) \<in> set (consumers e)) st' (resolve s pre)"
proof -
  obtain n1 s1 n2 s2 where inp: "parse_input_stream P J pre app (string_at ''name'' app, st) = Inr (n1, s1)"
    and rest: "extends s1 s2" "extends s2 st'"
    using parse_app_steps [OF assms(1-3)] extends_io(2) extends_parse_streaming by metis
  from inp obtain xs where xs: "rbind (json_at ''input_stream'' app) json_array = Inr xs"
    and run: "parse_stream J pre (\<lambda>path name engine. addConsumer P path name (newFile P path engine)) xs
      (string_at ''name'' app, st) = Inr (n1, s1)"
    by (auto simp: parse_input_stream_def rbind_Inr_iff)
  have "JString s \<in> set xs" using assms(5) json_array_items [OF xs] by (simp add: strings_at_iff)
  then have "entry_has (\<lambda>e. erase_spaces (string_at ''name'' app) \<in> set (consumers e)) s1 (resolve s pre)"
    using assms(6) by (intro parse_stream_has [OF run assms(2) _ assms(4)])
      (auto simp: extends_register register_consumer grows_def)
  moreover have "extends s1 st'" using rest by (rule extends_trans)
  moreover have "engine_wf s1" using extends_io(1) [OF inp] assms(4) by (rule extends_wf)
  ultimately show ?thesis using extends_claims(2) by blast
qed

lemma parse_app_producers:
  assumes "parse_app P J pre app st = Inr st'" and "json_conversions J" and "application app"
    and "engine_wf st" and "s \<in> set (strings_at ''output_stream'' app)" and "resolve s pre \<noteq> []"
  shows "entry_has (\<lambda>e. erase_spaces (string_at ''name'' app) \<in> set (producers e)) st' (resolve s pre)"
proof -
  obtain n1 s1 n2 s2 where inp: "parse_input_stream P J pre app (string_at ''name'' app, st) = Inr (n1, s1)"
    and out: "parse_output_stream P J pre app (n1, s1) = Inr (n2, s2)" and rest: "extends s2 st'"
    using parse_app_steps [OF assms(1-3)] extends_parse_streaming by metis
  from out obtain xs where xs: "rbind (json_at ''output_stream'' app) json_array = Inr xs"
    and run: "parse_stream J pre (\<lambda>path name engine. addProducer P path name (newFile P path engine)) xs
      (n1, s1) = Inr (n2, s2)"
    by (auto simp: parse_output_stream_def rbind_Inr_iff)
  have n1: "erase_spaces n1 = erase_spaces (string_at ''name'' app)"
    using inp by (auto simp: parse_input_stream_def rbind_Inr_iff register_consumer elim!: parse_stream_names)
  have wf1: "engine_wf s1" using extends_io(1) [OF inp] assms(4) by (rule extends_wf)
  have "JString s \<in> set xs" using assms(5) json_array_items [OF xs] by (simp add: strings_at_iff)
  then have "entry_has (\<lambda>e. erase_spaces (string_at ''name'' app) \<in> set (producers e)) s2 (resolve s pre)"
    using assms(6) by (intro parse_stream_has [OF run assms(2) _ wf1])
      (auto simp: extends_register register_producer grows_def n1)
  moreover have "engine_wf s2" using extends_io(2) [OF out] wf1 by (rule extends_wf)
  ultimately show ?thesis using rest extends_claims(1) by blast
qed

subsection \<open>The sections one after another\<close>

lemma parse_sections_steps:
  assumes "parse_sections P J pre only doc st = Inr st'"
  obtains s1 s2 s3 s4 where
    "rfold (parse_app P J pre) (items_at ''IO_Graph'' doc) st = Inr s1"
    "parse_each J ''permanent'' (\<lambda>s e. let path = resolve s pre in setPermanent P path True (newFile P path e)) doc s1 = Inr s2"
    "parse_each J ''exclude'' (\<lambda>s e. let path = resolve s pre in setExclude P path True (newFile P path e)) doc s2 = Inr s3"
    "parse_storage P J doc s3 = Inr s4" "extends s4 st'"
    "extends st s1" "extends s1 s2" "extends s2 s3" "extends s3 s4" "extends s1 st'" "extends s2 st'" "extends s3 st'"
proof -
  obtain apps s1 s2 s3 s4 where apps: "rbind (json_at ''IO_Graph'' doc) json_array = Inr apps"
    and 1: "rfold (parse_app P J pre) apps st = Inr s1"
    and 2: "parse_each J ''permanent'' (\<lambda>s e. let path = resolve s pre in setPermanent P path True (newFile P path e)) doc s1 = Inr s2"
    and 3: "parse_each J ''exclude'' (\<lambda>s e. let path = resolve s pre in setExclude P path True (newFile P path e)) doc s2 = Inr s3"
    and 4: "parse_storage P J doc s3 = Inr s4" "st' = (if only then setAllStoreInMemory P s4 else s4)"
    using assms by (auto simp: parse_sections_def rbind_Inr_iff)
  have "extends st s1" by (rule rfold_relation [OF 1 extends_order]) (rule extends_parse_app)
  moreover have "extends s1 s2" "extends s2 s3" "extends s3 s4" "extends s4 st'"
    using extends_parse_each [OF 2 extends_flags(1)] extends_parse_each [OF 3 extends_flags(2)]
      extends_parse_storage [OF 4(1)] by (simp_all add: 4(2) extends_setAllStoreInMemory)
  moreover from this have "extends s3 st'" "extends s2 st'" "extends s1 st'" by (blast intro: extends_trans)+
  ultimately show ?thesis using that [of s1 s2 s3 s4] 1 2 3 4(1) json_array_items [OF apps] by simp
qed

lemma schema_common_apps: "schema_common doc \<Longrightarrow> app \<in> set (items_at ''IO_Graph'' doc) \<Longrightarrow> application app"
  by (auto simp: schema_common_def items_at_def list_all_iff elim!: array_ofE)

lemma parse_sections_streams:
  assumes "parse_sections P J pre only doc st = Inr st'" and "json_conversions J" and "schema_common doc"
    and "engine_wf st" and "app \<in> set (items_at ''IO_Graph'' doc)" and "resolve s pre \<noteq> []"
  shows "s \<in> set (strings_at ''output_stream'' app) \<Longrightarrow>
      entry_has (\<lambda>e. erase_spaces (string_at ''name'' app) \<in> set (producers e)) st' (resolve s pre)"
    and "s \<in> set (strings_at ''input_stream'' app) \<Longrightarrow>
      entry_has (\<lambda>e. erase_spaces (string_at ''name'' app) \<in> set (consumers e)) st' (resolve s pre)"
proof -
  obtain s1 where run: "rfold (parse_app P J pre) (items_at ''IO_Graph'' doc) st = Inr s1" and rest: "extends s1 st'"
    by (rule parse_sections_steps [OF assms(1)], rule that)
  obtain a b where ab: "extends st a" "parse_app P J pre app a = Inr b" "extends b s1"
    using rfold_round [OF run extends_order _ assms(5)] extends_parse_app by blast
  have app: "application app" by (rule schema_common_apps [OF assms(3,5)])
  have wf: "engine_wf a" "engine_wf b" using ab(1) extends_parse_app [OF ab(2)] assms(4) extends_wf by blast+
  have up: "extends b st'" using ab(3) rest by (rule extends_trans)
  show "s \<in> set (strings_at ''output_stream'' app) \<Longrightarrow>
      entry_has (\<lambda>e. erase_spaces (string_at ''name'' app) \<in> set (producers e)) st' (resolve s pre)"
    using extends_claims(1) [OF up wf(2)] parse_app_producers [OF ab(2) assms(2) app wf(1) _ assms(6)] by blast
  show "s \<in> set (strings_at ''input_stream'' app) \<Longrightarrow>
      entry_has (\<lambda>e. erase_spaces (string_at ''name'' app) \<in> set (consumers e)) st' (resolve s pre)"
    using extends_claims(2) [OF up wf(2)] parse_app_consumers [OF ab(2) assms(2) app wf(1) _ assms(6)] by blast
qed

lemma flag_has:
  assumes "resolve s pre \<noteq> []"
  shows "entry_has permanent (let path = resolve s pre in setPermanent P path True (newFile P path st)) (resolve s pre)"
    and "entry_has excluded (let path = resolve s pre in setExclude P path True (newFile P path st)) (resolve s pre)"
  using assms by (auto simp: Let_def setPermanent_def setExclude_def intro!: update_has)

lemma parse_sections_flags:
  assumes "parse_sections P J pre only doc st = Inr st'" and "json_conversions J" and "engine_wf st"
    and "resolve s pre \<noteq> []"
  shows "s \<in> set (strings_at ''permanent'' doc) \<Longrightarrow> entry_has permanent st' (resolve s pre)"
    and "s \<in> set (strings_at ''exclude'' doc) \<Longrightarrow> entry_has excluded st' (resolve s pre)"
    and "workflow_name st' = workflow_name st"
proof -
  obtain s1 s2 s3 where 2: "parse_each J ''permanent'' (\<lambda>s e. let path = resolve s pre in setPermanent P path True (newFile P path e)) doc s1 = Inr s2"
    and 3: "parse_each J ''exclude'' (\<lambda>s e. let path = resolve s pre in setExclude P path True (newFile P path e)) doc s2 = Inr s3"
    and ext: "extends st s1" "extends s1 s2" "extends s2 s3" "extends s3 st'" "extends s2 st'"
    by (rule parse_sections_steps [OF assms(1)], rule that)
  then have wf: "engine_wf s1" "engine_wf s2" "engine_wf s3" using assms(3) extends_wf by blast+
  show "workflow_name st' = workflow_name st" using ext by (simp add: extends_def)
  show "entry_has permanent st' (resolve s pre)" if "s \<in> set (strings_at ''permanent'' doc)"
    by (rule extends_claims(3) [OF ext(5) wf(2)], rule parse_each_has [OF 2 assms(2) extends_flags(1) wf(1) _ that])
      (auto simp: grows_def flag_has(1) [OF assms(4)])
  show "entry_has excluded st' (resolve s pre)" if "s \<in> set (strings_at ''exclude'' doc)"
    by (rule extends_claims(4) [OF ext(4) wf(3)], rule parse_each_has [OF 3 assms(2) extends_flags(2) wf(2) _ that])
      (auto simp: grows_def flag_has(2) [OF assms(4)])
qed

text \<open>Paths of the storage section are used as they are written.\<close>

lemma parse_sections_storage:
  assumes "parse_sections P J pre only doc st = Inr st'" and "json_conversions J" and "engine_wf st"
    and "member ''storage'' doc = Some storage" and "s \<in> set (strings_at ''memory'' storage)" and "s \<noteq> []"
  shows "entry_has (\<lambda>_. True) st' s"
proof -
  obtain s1 s2 s3 s4 where run: "parse_storage P J doc s3 = Inr s4"
    and steps: "extends st s1" "extends s1 s2" "extends s2 s3" and up: "extends s4 st'"
    by (rule parse_sections_steps [OF assms(1)], rule that)
  from steps have ext: "extends st s3" by (blast intro: extends_trans)
  from run obtain m where m: "parse_each J ''memory'' (setStoreFileInMemory P) storage s3 = Inr m"
    and fs: "parse_each J ''fs'' (setStoreFileInFileSystem P) storage m = Inr s4"
    using assms(4) by (auto simp: parse_storage_def rbind_Inr_iff json_contains_member json_at_member)
  have wf3: "engine_wf s3" using ext assms(3) by (rule extends_wf)
  have "entry_has (\<lambda>_. True) m (resolve s [])"
    by (rule parse_each_has [OF m assms(2) extends_setters(6) wf3 _ assms(5)])
      (auto simp: setStoreFileInMemory_def resolve_def assms(6) intro!: update_has)
  moreover have "extends m st'" using extends_parse_each [OF fs extends_setters(7)] up by (rule extends_trans)
  moreover have "engine_wf m" using extends_parse_each [OF m extends_setters(6)] wf3 by (rule extends_wf)
  ultimately show ?thesis using extends_claims(5) by (simp add: resolve_def)
qed

subsection \<open>Properties\<close>

text \<open>
  C30. What a document says about its applications holds of the engine: every path of an
  \<open>output_stream\<close>, made absolute with the prefix, has the application among its producers, and
  every path of an \<open>input_stream\<close> has it among its consumers, under its name without white space.
\<close>

theorem parse_keeps_streams:
  assumes "parse P J parse_toml read_file source pre only = Some (Inr rt)" and "json_conversions J"
    and "read_file source = Some content" and "json_parse J content = Inr doc"
    and "app \<in> set (items_at ''IO_Graph'' doc)" and "resolve s pre \<noteq> []"
  shows "(s \<in> set (strings_at ''output_stream'' app) \<longrightarrow>
      entry_has (\<lambda>e. erase_spaces (string_at ''name'' app) \<in> set (producers e)) (the_engine rt) (resolve s pre)) \<and>
    (s \<in> set (strings_at ''input_stream'' app) \<longrightarrow>
      entry_has (\<lambda>e. erase_spaces (string_at ''name'' app) \<in> set (consumers e)) (the_engine rt) (resolve s pre))"
proof -
  have doc: "read_json J read_file source = Inr doc" using assms(3,4) by (simp add: read_json_def)
  have common: "schema_common doc" using parse_engine(1) [OF assms(1) doc] schema_v1_common schema_v1_1_common by blast
  obtain name where run: "parse_sections P J pre only doc (setWorkflowName name (new_engine P)) = Inr (the_engine rt)"
    using parse_engine(2) [OF assms(1) doc] by blast
  have "engine_wf (setWorkflowName name (new_engine P))"
    by (simp add: setWorkflowName_def new_engine_def engine_wf_def)
  from parse_sections_streams [OF run assms(2) common this assms(5,6)] show ?thesis by blast
qed

text \<open>
  The paths of the \<open>permanent\<close> and \<open>exclude\<close> sections are permanent and excluded in the
  engine, and the engine has the workflow name of the document.
\<close>

theorem parse_keeps_flags:
  assumes "parse P J parse_toml read_file source pre only = Some (Inr rt)" and "json_conversions J"
    and "read_file source = Some content" and "json_parse J content = Inr doc" and "resolve s pre \<noteq> []"
  shows "(s \<in> set (strings_at ''permanent'' doc) \<longrightarrow> entry_has permanent (the_engine rt) (resolve s pre)) \<and>
    (s \<in> set (strings_at ''exclude'' doc) \<longrightarrow> entry_has excluded (the_engine rt) (resolve s pre)) \<and>
    getWorkflowName (the_engine rt) = string_at ''name'' doc"
proof -
  have doc: "read_json J read_file source = Inr doc" using assms(3,4) by (simp add: read_json_def)
  have "schema_common doc" using parse_engine(1) [OF assms(1) doc] schema_v1_common schema_v1_1_common by blast
  then have name: "rbind (json_at ''name'' doc) (as_string J) = Inr (string_at ''name'' doc)"
    using schema_name [OF assms(2), of doc] by (auto simp: string_at_def)
  then have run: "parse_sections P J pre only doc (setWorkflowName (string_at ''name'' doc) (new_engine P)) = Inr (the_engine rt)"
    using parse_engine(2) [OF assms(1) doc] by auto
  have wf: "engine_wf (setWorkflowName (string_at ''name'' doc) (new_engine P))"
    by (simp add: setWorkflowName_def new_engine_def engine_wf_def)
  from parse_sections_flags [OF run assms(2) wf assms(5)] show ?thesis
    by (simp add: getWorkflowName_def setWorkflowName_def)
qed

text \<open>
  The prefix that makes relative paths absolute everywhere else is not applied to the
  \<open>storage\<close> section: a path listed there is registered as it is written.
\<close>

theorem storage_paths_unresolved:
  assumes "parse P J parse_toml read_file source pre only = Some (Inr rt)" and "json_conversions J"
    and "read_file source = Some content" and "json_parse J content = Inr doc"
    and "member ''storage'' doc = Some storage" and "s \<in> set (strings_at ''memory'' storage)" and "s \<noteq> []"
  shows "s \<in> set (getPaths (the_engine rt))"
proof -
  have doc: "read_json J read_file source = Inr doc" using assms(3,4) by (simp add: read_json_def)
  obtain name where run: "parse_sections P J pre only doc (setWorkflowName name (new_engine P)) = Inr (the_engine rt)"
    using parse_engine(2) [OF assms(1) doc] by blast
  have "engine_wf (setWorkflowName name (new_engine P))"
    by (simp add: setWorkflowName_def new_engine_def engine_wf_def)
  from parse_sections_storage [OF run assms(2) this assms(5-7)] show ?thesis
    by (auto simp: entry_has_iff known_getPaths [symmetric] known_def)
qed

theorem parse_keeps_streams_witness:
  "\<exists>rt. parse demo demo_reader (\<lambda>_. Inl []) (\<lambda>_. Some ''text'') ''f.json'' ''/p'' False = Some (Inr rt) \<and>
     entry_has (\<lambda>e. ''myapp'' \<in> set (producers e)) (the_engine rt) ''/p/out''"
proof -
  obtain rt where rt: "parse demo demo_reader (\<lambda>_. Inl []) (\<lambda>_. Some ''text'') ''f.json'' ''/p'' False = Some (Inr rt)"
    using demo_parse by blast
  let ?app = "hd (items_at ''IO_Graph'' demo_doc)"
  have "?app \<in> set (items_at ''IO_Graph'' demo_doc)" "resolve ''out'' ''/p'' = ''/p/out''"
    "''out'' \<in> set (strings_at ''output_stream'' ?app)" "erase_spaces (string_at ''name'' ?app) = ''myapp''"
    by code_simp+
  with parse_keeps_streams [OF rt demo_reader_conversions, of "''text''" demo_doc ?app "''out''"] rt
  show ?thesis by (auto simp: demo_reader_def)
qed

theorem parse_keeps_flags_witness:
  "\<exists>rt. parse demo demo_reader (\<lambda>_. Inl []) (\<lambda>_. Some ''text'') ''f.json'' ''/p'' False = Some (Inr rt) \<and>
     entry_has permanent (the_engine rt) ''/p/out'' \<and> getWorkflowName (the_engine rt) = ''wf''"
proof -
  obtain rt where rt: "parse demo demo_reader (\<lambda>_. Inl []) (\<lambda>_. Some ''text'') ''f.json'' ''/p'' False = Some (Inr rt)"
    using demo_parse by blast
  have "resolve ''out'' ''/p'' = ''/p/out''" "''out'' \<in> set (strings_at ''permanent'' demo_doc)"
    "string_at ''name'' demo_doc = ''wf''"
    by code_simp+
  with parse_keeps_flags [OF rt demo_reader_conversions, of "''text''" demo_doc "''out''"] rt
  show ?thesis by (auto simp: demo_reader_def)
qed

theorem storage_paths_unresolved_witness:
  "\<exists>rt. parse demo demo_reader (\<lambda>_. Inl []) (\<lambda>_. Some ''text'') ''f.json'' ''/p'' False = Some (Inr rt) \<and>
     ''out'' \<in> set (getPaths (the_engine rt)) \<and> resolve ''out'' ''/p'' = ''/p/out''"
proof -
  obtain rt where rt: "parse demo demo_reader (\<lambda>_. Inl []) (\<lambda>_. Some ''text'') ''f.json'' ''/p'' False = Some (Inr rt)"
    using demo_parse by blast
  have "resolve ''out'' ''/p'' = ''/p/out''"
    "member ''storage'' demo_doc = Some (JObject [(''memory'', JArray [JString ''out''])])"
    "''out'' \<in> set (strings_at ''memory'' (JObject [(''memory'', JArray [JString ''out''])]))"
    by code_simp+
  with storage_paths_unresolved [OF rt demo_reader_conversions, of "''text''" demo_doc _ "''out''"] rt
  show ?thesis by (auto simp: demo_reader_def)
qed

end
