(* ===== verification/CL_Roundtrip.thy ===== *)
theory CL_Roundtrip
  imports CL_Serializer_Spec CL_Parser_Facts
begin

text \<open>
  An engine that is written to a file and read back compares equal to the original: the round trip
  through the serializer and the parser, for the engines on which it succeeds. \<open>plain\<close> and
  \<open>plain_entry\<close> say which these are; every condition is there because without it the document
  leaves something out, or reading it back sets something else.
\<close>

subsection \<open>The engines that survive the round trip\<close>

text \<open>
  No key matches another as a pattern and no key is the directory another is counted in, so that
  registering the paths again does not copy or count anything.
\<close>

definition plain_keys :: "platform \<Rightarrow> engine \<Rightarrow> bool" where
  "plain_keys P st \<longleftrightarrow>
     list_all (\<lambda>p. p \<noteq> [] \<and> \<not> known st (parent_path p) \<and>
       list_all (\<lambda>q. p = q \<or> \<not> fnmatch P q p) (getPaths st)) (getPaths st)"

text \<open>
  The names are as \<open>addProducer\<close> leaves them. The document holds the rules of a path only in the
  applications that produce it, its dependencies only for \<open>on_file\<close>, a close count only for
  \<open>on_close\<close>; a child count of a directory would mark every path as a directory.
\<close>

definition plain_rules :: "engine \<Rightarrow> CapioCLEntry \<Rightarrow> bool" where
  "plain_rules st e \<longleftrightarrow>
     (if producers e = []
      then commit_rule e = ON_TERMINATION \<and> fire_rule e = UPDATE \<and> commit_on_close_count e = 0 \<and>
           is_file e \<and> file_dependencies e = []
      else entry_rules_valid e \<and> (is_file e \<longrightarrow> commit_rule e \<noteq> ON_N_FILES) \<and>
           0 \<le> sint (commit_on_close_count e) \<and> sint (commit_on_close_count e) < 2 ^ 31 \<and>
           (commit_on_close_count e \<noteq> 0 \<longrightarrow> commit_rule e = ON_CLOSE) \<and>
           (file_dependencies e \<noteq> [] \<longrightarrow> commit_rule e = ON_FILE) \<and>
           list_all (known st) (file_dependencies e))"

definition plain_entry :: "engine \<Rightarrow> CapioCLEntry \<Rightarrow> bool" where
  "plain_entry st e \<longleftrightarrow>
     plain_rules st e \<and> entry_distinct e \<and> entry_names_clean e \<and>
     directory_children_count e = 0 \<and> enable_directory_count_update e"

definition plain :: "platform \<Rightarrow> engine \<Rightarrow> bool" where
  "plain P st \<longleftrightarrow>
     engine_wf st \<and> plain_keys P st \<and> list_all (\<lambda>(_, e). plain_entry st e) (capio_cl_entries st)"

lemma plain_wf: "plain P st \<Longrightarrow> engine_wf st"
  by (simp add: plain_def)

lemma plain_entry_at: "plain P st \<Longrightarrow> entry_at st p = Some e \<Longrightarrow> plain_entry st e"
  using um_find_item [of "capio_cl_entries st" p e] by (auto simp: plain_def list_all_iff)

lemma plain_key: "plain P st \<Longrightarrow> known st p \<Longrightarrow> p \<noteq> [] \<and> \<not> known st (parent_path p)"
  by (auto simp: plain_def plain_keys_def list_all_iff known_getPaths [symmetric])

lemma plain_no_match: "plain P st \<Longrightarrow> known st p \<Longrightarrow> known st q \<Longrightarrow> fnmatch P q p \<Longrightarrow> p = q"
  unfolding plain_def plain_keys_def list_all_iff known_getPaths by blast

subsection \<open>Reading only writes single entries\<close>

text \<open>The engine under construction has some of the keys of the original.\<close>

definition part_of :: "engine \<Rightarrow> engine \<Rightarrow> bool" where
  "part_of orig st \<longleftrightarrow>
     engine_wf st \<and> \<not> store_all_in_memory st \<and> (\<forall>q. known st q \<longrightarrow> known orig q)"

definition entry_or_default :: "engine \<Rightarrow> string \<Rightarrow> CapioCLEntry" where
  "entry_or_default st q = (case entry_at st q of Some e \<Rightarrow> e | None \<Rightarrow> default_entry)"

lemma plain_newFile:
  assumes "plain P orig" and "part_of orig st" and "known orig p"
  shows "entry_at (newFile_internal P p st) q = (if q = p then Some (entry_or_default st p) else entry_at st q)"
proof (cases "known st p")
  case True
  then show ?thesis by (auto simp: newFile_known entry_or_default_def known_def)
next
  case False
  have "matching P p (capio_cl_entries st) \<subseteq> {[]}"
  proof
    fix k assume "k \<in> matching P p (capio_cl_entries st)"
    then have "known st k" "fnmatch P k p" by (auto simp: matching_def um.key_iff known_def)
    with assms plain_no_match [OF assms(1,3)] have "p = k" by (auto simp: part_of_def)
    with False \<open>known st k\<close> show "k \<in> {[]}" by simp
  qed
  then have new: "new_entry P p st = default_entry"
    using assms(2) by (simp add: new_entry_default part_of_def default_entry_def)
  have "p \<noteq> []" "\<not> known orig (parent_path p)" using plain_key [OF assms(1,3)] by auto
  moreover from this(2) have "\<not> known st (parent_path p)" using assms(2) by (auto simp: part_of_def)
  moreover have "parent_path p \<noteq> p" using assms(3) calculation(2) by auto
  ultimately show ?thesis
    using assms(2) False by (auto simp: entry_at_newFile part_of_def new entry_or_default_def known_def)
qed

lemma plain_update:
  assumes "plain P orig" and "part_of orig st" and "known orig p"
  shows "entry_at (update_entry P p f st) q = (if q = p then Some (f (entry_or_default st p)) else entry_at st q)"
    and "part_of orig (update_entry P p f st)"
proof -
  have "p \<noteq> []" using plain_key [OF assms(1,3)] by simp
  then show at: "entry_at (update_entry P p f st) q = (if q = p then Some (f (entry_or_default st p)) else entry_at st q)" for q
    by (simp add: update_entry_eq entry_at_modify plain_newFile [OF assms])
  show "part_of orig (update_entry P p f st)"
    using assms(2,3) by (auto simp: part_of_def known_def at)
qed

lemma newFile_as_update: "p \<noteq> [] \<Longrightarrow> newFile P p st = update_entry P p (\<lambda>e. e) st"
  by (simp add: update_entry_eq newFile_def modify_at_def um_modify_def case_prod_beta)

lemma update_update: "update_entry P p f (update_entry P p g st) = update_entry P p (\<lambda>e. f (g e)) st"
proof (cases "p = []")
  case False
  have "known (modify_at p g (newFile_internal P p st)) p"
    using False known_newFile [of p P st] by (auto simp: known_def entry_at_modify)
  with False show ?thesis
    by (simp add: update_entry_eq newFile_known) (simp add: modify_at_def um.modify_modify)
qed simp

subsection \<open>What is read is part of what was written\<close>

definition rules_of :: "CapioCLEntry \<Rightarrow> string \<times> string \<times> long \<times> bool" where
  "rules_of e = (commit_rule e, fire_rule e, commit_on_close_count e, is_file e)"

definition below :: "CapioCLEntry \<Rightarrow> CapioCLEntry \<Rightarrow> bool" where
  "below e e0 \<longleftrightarrow>
     set (producers e) \<subseteq> set (producers e0) \<and> distinct (producers e) \<and>
     set (consumers e) \<subseteq> set (consumers e0) \<and> distinct (consumers e) \<and>
     (permanent e \<longrightarrow> permanent e0) \<and> (excluded e \<longrightarrow> excluded e0) \<and>
     directory_children_count e = 0 \<and> enable_directory_count_update e \<and>
     (rules_of e = rules_of e0 \<or> rules_of e = rules_of default_entry) \<and>
     (file_dependencies e = file_dependencies e0 \<or> file_dependencies e = [])"

text \<open>\<open>D\<close> are the paths whose rules have been read, \<open>M\<close> those whose storage has.\<close>

definition reading :: "engine \<Rightarrow> string set \<Rightarrow> string set \<Rightarrow> engine \<Rightarrow> bool" where
  "reading orig D M st \<longleftrightarrow>
     part_of orig st \<and>
     (\<forall>q e. entry_at st q = Some e \<longrightarrow> below e (entry_or_default orig q)) \<and>
     (\<forall>q \<in> D. \<exists>e. entry_at st q = Some e \<and> rules_of e = rules_of (entry_or_default orig q) \<and>
        file_dependencies e = file_dependencies (entry_or_default orig q)) \<and>
     (\<forall>q \<in> M. \<exists>e. entry_at st q = Some e \<and> store_in_memory e = store_in_memory (entry_or_default orig q))"

lemma below_default: "below default_entry e0"
  by (simp add: below_def default_entry_def)

lemma reading_below: "reading orig D M st \<Longrightarrow> below (entry_or_default st q) (entry_or_default orig q)"
  by (auto simp: reading_def entry_or_default_def [of st] below_default split: option.split)

text \<open>One write: it stays below, and it does not undo what has been read.\<close>

lemma reading_update:
  assumes "plain P orig" and "reading orig D M st" and "known orig p"
    and "below (f (entry_or_default st p)) (entry_or_default orig p)"
    and "p \<in> D' \<Longrightarrow> rules_of (f (entry_or_default st p)) = rules_of (entry_or_default orig p) \<and>
      file_dependencies (f (entry_or_default st p)) = file_dependencies (entry_or_default orig p)"
    and "p \<in> M' \<Longrightarrow> store_in_memory (f (entry_or_default st p)) = store_in_memory (entry_or_default orig p)"
    and "D' \<subseteq> insert p D" and "M' \<subseteq> insert p M"
  shows "reading orig D' M' (update_entry P p f st)"
proof -
  have "part_of orig st" using assms(2) by (simp add: reading_def)
  note upd = plain_update [OF assms(1) this assms(3)]
  show ?thesis
    using assms(2,4-8) by (auto simp: reading_def upd)
qed

subsection \<open>The operations of the parser\<close>

text \<open>A write that stays below and touches neither the rules nor the storage flag.\<close>

lemma reading_update_other:
  assumes "plain P orig" and "reading orig D M st" and "known orig p"
    and "\<And>e. below e (entry_or_default orig p) \<Longrightarrow> below (f e) (entry_or_default orig p)"
    and "\<And>e. rules_of (f e) = rules_of e" and "\<And>e. file_dependencies (f e) = file_dependencies e"
    and "\<And>e. store_in_memory (f e) = store_in_memory e"
  shows "reading orig D M (update_entry P p f st)"
proof (rule reading_update [OF assms(1-3)])
  show "below (f (entry_or_default st p)) (entry_or_default orig p)"
    by (rule assms(4)) (rule reading_below [OF assms(2)])
qed (use assms(2,5-7) in \<open>auto simp: reading_def entry_or_default_def [of st]\<close>)

lemma reading_newFile: "plain P orig \<Longrightarrow> reading orig D M st \<Longrightarrow> known orig p \<Longrightarrow> reading orig D M (newFile P p st)"
  using plain_key [of P orig p] reading_update_other [of P orig D M st p "\<lambda>e. e"] by (simp add: newFile_as_update)

lemma plain_clean:
  assumes "plain P orig" and "entry_at orig p = Some e" and "a \<in> set (producers e @ consumers e)"
  shows "erase_spaces a = a"
  using plain_entry_at [OF assms(1,2)] assms(3)
  by (intro erase_spaces_none) (auto simp: plain_entry_def entry_names_clean_def list_all_iff)

lemma reading_consumer:
  assumes "plain P orig" and "reading orig D M st" and "entry_at orig p = Some e0" and "a \<in> set (consumers e0)"
  shows "addConsumer P p a (newFile P p st) = (a, snd (addConsumer P p a (newFile P p st)))"
    and "reading orig D M (snd (addConsumer P p a (newFile P p st)))"
proof -
  have known: "known orig p" using assms(3) by (simp add: known_def)
  have clean: "erase_spaces a = a" using plain_clean [OF assms(1,3)] assms(4) by simp
  then show "addConsumer P p a (newFile P p st) = (a, snd (addConsumer P p a (newFile P p st)))"
    by (simp add: addConsumer_eq)
  have "reading orig D M (update_entry P p (\<lambda>e. e\<lparr>consumers := push_new (=) a (consumers e)\<rparr>) (newFile P p st))"
    using assms(3,4) by (intro reading_update_other [OF assms(1) reading_newFile [OF assms(1,2) known] known])
      (auto simp: below_def rules_of_def entry_or_default_def)
  then show "reading orig D M (snd (addConsumer P p a (newFile P p st)))"
    using plain_key [OF assms(1) known] by (simp add: addConsumer_eq clean)
qed

lemma reading_producer:
  assumes "plain P orig" and "reading orig D M st" and "entry_at orig p = Some e0" and "a \<in> set (producers e0)"
  shows "addProducer P p a (newFile P p st) = (a, snd (addProducer P p a (newFile P p st)))"
    and "reading orig D M (snd (addProducer P p a (newFile P p st)))"
proof -
  have known: "known orig p" using assms(3) by (simp add: known_def)
  have clean: "erase_spaces a = a" using plain_clean [OF assms(1,3)] assms(4) by simp
  then show "addProducer P p a (newFile P p st) = (a, snd (addProducer P p a (newFile P p st)))"
    by (simp add: addProducer_eq)
  have "reading orig D M (update_entry P p (\<lambda>e. e\<lparr>producers := push_new (=) a (producers e)\<rparr>) (newFile P p st))"
    using assms(3,4) by (intro reading_update_other [OF assms(1) reading_newFile [OF assms(1,2) known] known])
      (auto simp: below_def rules_of_def entry_or_default_def)
  then show "reading orig D M (snd (addProducer P p a (newFile P p st)))"
    using plain_key [OF assms(1) known] by (simp add: addProducer_eq clean)
qed

text \<open>The loops over the streams keep the name of the application and the relation to the original.\<close>

lemma parse_stream_reading:
  assumes "parse_stream J [] reg (map JString ps) (a, st) = Inr (n', st')" and "json_conversions J"
    and "reading orig D M st"
    and "\<And>p st. p \<in> set ps \<Longrightarrow> reading orig D M st \<Longrightarrow> fst (reg p a st) = a \<and> reading orig D M (snd (reg p a st))"
  shows "n' = a \<and> reading orig D M st'"
proof -
  have "fst (n', st') = a \<and> reading orig D M (snd (n', st'))"
  proof (rule rfold_invariant [where I = "\<lambda>s. fst s = a \<and> reading orig D M (snd s)", OF assms(1) [unfolded parse_stream_def]])
    fix x s s' assume x: "x \<in> set (map JString ps)" and I: "fst s = a \<and> reading orig D M (snd s)"
      and run: "(case s of (app_name, engine) \<Rightarrow> rbind (as_string J x) (\<lambda>s. Inr (reg (resolve s []) app_name engine))) = Inr s'"
    obtain p where p: "x = JString p" "p \<in> set ps" using x by auto
    with run I assms(2) have "s' = reg p a (snd s)"
      by (cases s) (auto simp: json_conversions_def resolve_def)
    with assms(4) [OF p(2)] I show "fst s' = a \<and> reading orig D M (snd s')" by simp
  qed (use assms(3) in simp)
  then show ?thesis by simp
qed

text \<open>The items of the \<open>streaming\<close> section.\<close>

lemma parse_item:
  assumes "plain P orig" and "entry_at orig p = Some e" and "producers e \<noteq> []" and "json_conversions J"
  shows "parse_stream_item J [] (serialize_item p e) =
    Inr \<lparr>sr_names = [p], sr_is_file = is_file e, sr_commit = commit_rule e, sr_fire = fire_rule e,
         sr_close = commit_on_close_count e, sr_files = 0, sr_deps = file_dependencies e\<rparr>"
proof -
  have pe: "plain_entry orig e" by (rule plain_entry_at [OF assms(1,2)])
  have str: "as_string J (JString s) = Inr s" and long: "as_long J (JInt (sint n)) = Inr n" for s n
    using assms(4) by (simp_all add: json_conversions_def)
  have paths: "parse_paths J [] key (serialize_item p e) = Inr ps"
    if "member key (serialize_item p e) = Some (strings_json ps)" for key ps
  proof -
    have "rfold (\<lambda>nm acc. rbind (as_string J nm) (\<lambda>s. Inr (acc @ [resolve s []]))) (map JString ps) acc = Inr (acc @ ps)" for acc
      by (induction ps arbitrary: acc) (simp_all add: str resolve_def)
    with that show ?thesis by (simp add: parse_paths_def json_at_member strings_json_def json_array_def)
  qed
  have split: "split_committed (committed_text e) = Inr (commit_rule e, commit_on_close_count e)"
  proof (cases "commit_on_close_count e = 0")
    case True
    then show ?thesis
      using pe assms(3) by (simp add: committed_text_def split_plain plain_entry_def plain_rules_def entry_rules_valid_def)
  next
    case False
    have "sint (commit_on_close_count e) \<noteq> 0"
    proof
      assume "sint (commit_on_close_count e) = 0"
      then have "commit_on_close_count e = word_of_int 0" by (metis word_of_sint)
      with False show False by simp
    qed
    with False have n: "0 < sint (commit_on_close_count e)" "sint (commit_on_close_count e) < 2 ^ 31" "commit_rule e = ON_CLOSE"
      using pe assms(3) by (auto simp: plain_entry_def plain_rules_def order_less_le)
    then have "nat (sint (commit_on_close_count e)) < 2 ^ 31" by simp
    moreover have "(of_nat (nat (sint (commit_on_close_count e))) :: long) = commit_on_close_count e"
      using n(1) by (simp add: of_nat_nat)
    ultimately show ?thesis
      using n split_on_close [OF dec_of_nonempty dec_of_digits] by (simp add: committed_text_count)
  qed
  have deps: "commit_rule e \<noteq> ON_FILE \<longrightarrow> [] = file_dependencies e"
    using pe assms(3) by (auto simp: plain_entry_def plain_rules_def)
  have committed: "parse_committed J [] (serialize_item p e) = Inr (commit_rule e, commit_on_close_count e, file_dependencies e)"
    using deps by (simp add: parse_committed_split json_contains_member json_at_member item_members str split paths)
  have "directory_children_count e = 0" using pe by (simp add: plain_entry_def)
  with long [of 0] committed show ?thesis
    by (simp add: parse_stream_item_def Let_def json_contains_member json_at_member item_members paths str)
qed

lemma reading_fold_newFile:
  assumes "plain P orig" and "reading orig D M st" and "list_all (known orig) ds" and "entry_at st p = Some x"
  shows "reading orig D M (fold (newFile P) ds st) \<and> entry_at (fold (newFile P) ds st) p = Some x"
proof (rule fold_invariant [where I = "\<lambda>s. reading orig D M s \<and> entry_at s p = Some x"])
  fix d s assume "d \<in> set ds" and I: "reading orig D M s \<and> entry_at s p = Some x"
  then have d: "known orig d" using assms(3) by (simp add: list_all_iff)
  have "part_of orig s" using I by (simp add: reading_def)
  with I d show "reading orig D M (newFile P d s) \<and> entry_at (newFile P d s) p = Some x"
    using reading_newFile [OF assms(1)] plain_newFile [OF assms(1) _ d]
    by (auto simp: newFile_def entry_or_default_def)
qed (use assms in simp)

lemma apply_rule_reading:
  assumes "plain P orig" and "reading orig D M st" and "entry_at orig p = Some e" and "producers e \<noteq> []"
    and "apply_stream_rule P \<lparr>sr_names = ns, sr_is_file = is_file e, sr_commit = commit_rule e, sr_fire = fire_rule e,
      sr_close = commit_on_close_count e, sr_files = 0, sr_deps = file_dependencies e\<rparr> p st = Inr st'"
  shows "reading orig (insert p D) M st'"
proof -
  have known: "known orig p" using assms(3) by (simp add: known_def)
  have p: "p \<noteq> []" using plain_key [OF assms(1) known] by simp
  have rules: "commit_rule e \<in> set commit_rules" "fire_rule e \<in> set fire_rules" "list_all (known orig) (file_dependencies e)"
    using plain_entry_at [OF assms(1,3)] assms(4) by (auto simp: plain_entry_def plain_rules_def entry_rules_valid_def)
  have orig: "entry_or_default orig p = e" using assms(3) by (simp add: entry_or_default_def)
  let ?F = "\<lambda>x. x\<lparr>is_file := is_file e, commit_rule := commit_rule e, fire_rule := fire_rule e,
    commit_on_close_count := commit_on_close_count e\<rparr>"
  let ?s = "update_entry P p ?F st" and ?v = "entry_or_default st p"
  have st': "st' = setFileDeps P p (file_dependencies e) ?s"
    using assms(5) p rules
    by (simp add: apply_stream_rule_def Let_def setFile_def setDirectory_def setCommitRule_eq setFireRule_eq
        sanitize_commit_cases sanitize_fire_cases update_update setCommitedCloseNumber_def split: if_splits)
  have v: "below ?v e" using reading_below [OF assms(2), of p] by (simp add: orig)
  have F: "below (?F ?v) e" "rules_of (?F ?v) = rules_of e" using v by (auto simp: below_def rules_of_def)
  have inD: "file_dependencies ?v = file_dependencies e" if "p \<in> D"
    using assms(2) that by (auto simp: reading_def orig entry_or_default_def [of st])
  have inM: "store_in_memory ?v = store_in_memory e" if "p \<in> M"
    using assms(2) that by (auto simp: reading_def orig entry_or_default_def [of st])
  show ?thesis
  proof (cases "file_dependencies e = []")
    case True
    then have "file_dependencies ?v = []" using v by (auto simp: below_def)
    then have "reading orig (insert p D) M ?s"
      using F True inM by (intro reading_update [OF assms(1,2) known]) (auto simp: orig)
    with True p show ?thesis by (simp add: st' setFileDeps.simps [of P p "[]"])
  next
    case False
    have s: "reading orig D M ?s"
      using F inD inM by (intro reading_update [OF assms(1,2) known]) (auto simp: orig)
    have part: "part_of orig st" using assms(2) by (simp add: reading_def)
    have "entry_at ?s p = Some (?F ?v)" by (simp add: plain_update(1) [OF assms(1) part known])
    from reading_fold_newFile [OF assms(1) s rules(3) this]
    have t: "reading orig D M (fold (newFile P) (file_dependencies e) ?s)"
      "entry_at (fold (newFile P) (file_dependencies e) ?s) p = Some (?F ?v)" by simp_all
    have "st' = update_entry P p (\<lambda>x. x\<lparr>file_dependencies := file_dependencies e\<rparr>) (fold (newFile P) (file_dependencies e) ?s)"
      using p False by (simp add: st' setFileDeps_eq update_entry_eq)
    moreover have "reading orig (insert p D) M
        (update_entry P p (\<lambda>x. x\<lparr>file_dependencies := file_dependencies e\<rparr>) (fold (newFile P) (file_dependencies e) ?s))"
      using F inM t(2) by (intro reading_update [OF assms(1) t(1) known])
        (auto simp: orig entry_or_default_def [of "fold (newFile P) (file_dependencies e) ?s"] below_def rules_of_def)
    ultimately show ?thesis by simp
  qed
qed

subsection \<open>The sections of the document\<close>

lemma items_strings [simp]: "items_at key (JObject ms) = (case map_of ms key of Some (JArray xs) \<Rightarrow> xs | _ \<Rightarrow> [])"
  by (simp add: items_at_def member_def)

lemma json_strings: "member key j = Some (strings_json ps) \<Longrightarrow> rbind (json_at key j) json_array = Inr (map JString ps)"
  by (simp add: json_at_member strings_json_def json_array_def)

lemma parse_input_reading:
  assumes "plain P orig" and "reading orig D M st" and "json_conversions J"
    and "member ''input_stream'' app = Some (strings_json (paths_of consumers (capio_cl_entries orig) a))"
    and "parse_input_stream P J [] app (a, st) = Inr (n', st')"
  shows "n' = a \<and> reading orig D M st'"
proof (rule parse_stream_reading [OF _ assms(3,2)])
  show "parse_stream J [] (\<lambda>path name engine. addConsumer P path name (newFile P path engine))
      (map JString (paths_of consumers (capio_cl_entries orig) a)) (a, st) = Inr (n', st')"
    using assms(5) by (simp add: parse_input_stream_def json_strings [OF assms(4)])
  fix p s assume "p \<in> set (paths_of consumers (capio_cl_entries orig) a)" and s: "reading orig D M s"
  then obtain e where "entry_at orig p = Some e" "a \<in> set (consumers e)"
    using plain_wf [OF assms(1)] by (auto simp: paths_of_iff engine_wf_def um_items_find)
  from reading_consumer [OF assms(1) s this]
  show "fst (addConsumer P p a (newFile P p s)) = a \<and> reading orig D M (snd (addConsumer P p a (newFile P p s)))"
    by (metis fst_conv)
qed

lemma parse_output_reading:
  assumes "plain P orig" and "reading orig D M st" and "json_conversions J"
    and "member ''output_stream'' app = Some (strings_json ps)"
    and "\<And>p. p \<in> set ps \<Longrightarrow> p \<in> set (paths_of producers (capio_cl_entries orig) a)"
    and "parse_output_stream P J [] app (a, st) = Inr (n', st')"
  shows "n' = a \<and> reading orig D M st'"
proof (rule parse_stream_reading [OF _ assms(3,2)])
  show "parse_stream J [] (\<lambda>path name engine. addProducer P path name (newFile P path engine)) (map JString ps) (a, st) = Inr (n', st')"
    using assms(6) by (simp add: parse_output_stream_def json_strings [OF assms(4)])
  fix p s assume "p \<in> set ps" and s: "reading orig D M s"
  then obtain e where "(p, e) \<in> set (capio_cl_entries orig)" "a \<in> set (producers e)"
    using assms(5) [of p] by (auto simp: paths_of_iff)
  then have "entry_at orig p = Some e" "a \<in> set (producers e)"
    using plain_wf [OF assms(1)] by (auto simp: engine_wf_def um_items_find)
  from reading_producer [OF assms(1) s this]
  show "fst (addProducer P p a (newFile P p s)) = a \<and> reading orig D M (snd (addProducer P p a (newFile P p s)))"
    by (metis fst_conv)
qed

text \<open>A loop that reads the rules of one path after another.\<close>

lemma rfold_reading:
  assumes "rfold f xs st = Inr st'" and "reading orig D M st"
    and "\<And>x D M s s'. x \<in> set xs \<Longrightarrow> reading orig D M s \<Longrightarrow> f x s = Inr s' \<Longrightarrow> reading orig (D \<union> g x) (M \<union> h x) s'"
  shows "reading orig (D \<union> (\<Union>x \<in> set xs. g x)) (M \<union> (\<Union>x \<in> set xs. h x)) st'"
  using assms
proof (induction xs arbitrary: st D M)
  case (Cons x xs)
  obtain s where s: "f x st = Inr s" "rfold f xs s = Inr st'" using Cons.prems(1) by (auto simp: rbind_Inr_iff)
  have "reading orig (D \<union> g x) (M \<union> h x) s" by (rule Cons.prems(3) [OF _ Cons.prems(2) s(1)]) simp
  then have "reading orig ((D \<union> g x) \<union> (\<Union>x \<in> set xs. g x)) ((M \<union> h x) \<union> (\<Union>x \<in> set xs. h x)) st'"
    by (rule Cons.IH [OF s(2)]) (rule Cons.prems(3), simp_all)
  then show ?case by (simp add: Un_assoc)
qed simp

lemma parse_streaming_reading:
  assumes "plain P orig" and "reading orig D M st" and "json_conversions J"
    and "parse_streaming P J [] (producer_app (capio_cl_entries orig) a) st = Inr st'"
  shows "reading orig (D \<union> set (paths_of producers (capio_cl_entries orig) a)) M st'"
proof -
  let ?ps = "paths_of producers (capio_cl_entries orig) a"
  let ?item = "\<lambda>p. serialize_item p (the (entry_at orig p))"
  have "member ''streaming'' (producer_app (capio_cl_entries orig) a) = Some (JArray (map ?item ?ps))"
    by (simp add: member_def producer_app_def)
  with assms(4) have "rfold (\<lambda>itm engine. rbind (parse_stream_item J [] itm) (\<lambda>r. rfold (apply_stream_rule P r) (sr_names r) engine))
      (map ?item ?ps) st = Inr st'"
    by (simp add: parse_streaming_def json_contains_member json_at_member json_array_def)
  then have run: "rfold (\<lambda>p engine. rbind (parse_stream_item J [] (?item p)) (\<lambda>r. rfold (apply_stream_rule P r) (sr_names r) engine))
      ?ps st = Inr st'"
    by (simp add: rfold_map)
  have "reading orig (D \<union> (\<Union>p \<in> set ?ps. {p})) (M \<union> (\<Union>p \<in> set ?ps. {})) st'"
  proof (rule rfold_reading [OF run assms(2)])
    fix p D M s s' assume "p \<in> set ?ps" and s: "reading orig D M s"
      and step: "rbind (parse_stream_item J [] (?item p)) (\<lambda>r. rfold (apply_stream_rule P r) (sr_names r) s) = Inr s'"
    then obtain e where e: "entry_at orig p = Some e" "a \<in> set (producers e)"
      using plain_wf [OF assms(1)] by (auto simp: paths_of_iff engine_wf_def um_items_find)
    then have prods: "producers e \<noteq> []" by auto
    have "reading orig (insert p D) M s'"
      by (rule apply_rule_reading [OF assms(1) s e(1) prods, where ns = "[p]"])
        (use step in \<open>simp add: e(1) parse_item [OF assms(1) e(1) prods assms(3)]\<close>)
    then show "reading orig (D \<union> {p}) (M \<union> {}) s'" by simp
  qed
  then show ?thesis by simp
qed

lemma parse_app_reading:
  assumes "plain P orig" and "reading orig D M st" and "json_conversions J"
  shows "parse_app P J [] (producer_app (capio_cl_entries orig) a) st = Inr st' \<Longrightarrow>
      reading orig (D \<union> set (paths_of producers (capio_cl_entries orig) a)) M st'"
    and "parse_app P J [] (consumer_app (capio_cl_entries orig) a) st = Inr st' \<Longrightarrow> reading orig D M st'"
proof -
  have name: "rbind (json_at ''name'' (producer_app (capio_cl_entries orig) a)) (as_string J) = Inr a"
    "rbind (json_at ''name'' (consumer_app (capio_cl_entries orig) a)) (as_string J) = Inr a"
    using assms(3) by (simp_all add: json_at_def producer_app_def consumer_app_def json_conversions_def)
  have streams: "member ''input_stream'' (producer_app (capio_cl_entries orig) a) = Some (strings_json (paths_of consumers (capio_cl_entries orig) a))"
    "member ''output_stream'' (producer_app (capio_cl_entries orig) a) = Some (strings_json (paths_of producers (capio_cl_entries orig) a))"
    "member ''input_stream'' (consumer_app (capio_cl_entries orig) a) = Some (strings_json (paths_of consumers (capio_cl_entries orig) a))"
    "member ''output_stream'' (consumer_app (capio_cl_entries orig) a) = Some (strings_json [])"
    by (simp_all add: member_def producer_app_def consumer_app_def strings_json_def)
  show "reading orig (D \<union> set (paths_of producers (capio_cl_entries orig) a)) M st'"
    if run: "parse_app P J [] (producer_app (capio_cl_entries orig) a) st = Inr st'"
  proof -
    obtain n1 s1 n2 s2 where "parse_input_stream P J [] (producer_app (capio_cl_entries orig) a) (a, st) = Inr (n1, s1)"
      and out: "parse_output_stream P J [] (producer_app (capio_cl_entries orig) a) (n1, s1) = Inr (n2, s2)"
      and str: "parse_streaming P J [] (producer_app (capio_cl_entries orig) a) s2 = Inr st'"
      using run unfolding parse_app_def name by (auto simp: rbind_Inr_iff)
    then have "n1 = a \<and> reading orig D M s1" using parse_input_reading [OF assms(1-3) streams(1)] by blast
    with out have "reading orig D M s2" using parse_output_reading [OF assms(1) _ assms(3) streams(2)] by blast
    from parse_streaming_reading [OF assms(1) this assms(3) str] show ?thesis .
  qed
  show "reading orig D M st'" if run: "parse_app P J [] (consumer_app (capio_cl_entries orig) a) st = Inr st'"
  proof -
    obtain n1 s1 n2 s2 where "parse_input_stream P J [] (consumer_app (capio_cl_entries orig) a) (a, st) = Inr (n1, s1)"
      and out: "parse_output_stream P J [] (consumer_app (capio_cl_entries orig) a) (n1, s1) = Inr (n2, s2)"
      and str: "parse_streaming P J [] (consumer_app (capio_cl_entries orig) a) s2 = Inr st'"
      using run unfolding parse_app_def name by (auto simp: rbind_Inr_iff)
    then have "n1 = a \<and> reading orig D M s1" using parse_input_reading [OF assms(1-3) streams(3)] by blast
    with out have "reading orig D M s2" using parse_output_reading [OF assms(1) _ assms(3) streams(4)] by auto
    moreover have "st' = s2" using str by (simp add: parse_streaming_def json_contains_def consumer_app_def)
    ultimately show ?thesis by simp
  qed
qed

lemma apps_reading:
  assumes "plain P orig" and "reading orig {} {} st" and "json_conversions J"
    and "rfold (parse_app P J []) (map (producer_app (capio_cl_entries orig)) as @ map (consumer_app (capio_cl_entries orig)) bs) st = Inr st'"
  shows "reading orig (\<Union>a \<in> set as. set (paths_of producers (capio_cl_entries orig) a)) {} st'"
proof -
  obtain s where s: "rfold (parse_app P J []) (map (producer_app (capio_cl_entries orig)) as) st = Inr s"
    and t: "rfold (parse_app P J []) (map (consumer_app (capio_cl_entries orig)) bs) s = Inr st'"
    using assms(4) by (auto simp: rfold_append rbind_Inr_iff)
  have "reading orig ({} \<union> (\<Union>a \<in> set as. set (paths_of producers (capio_cl_entries orig) a))) ({} \<union> (\<Union>a \<in> set as. {})) s"
    by (rule rfold_reading [OF s [unfolded rfold_map] assms(2)]) (simp add: parse_app_reading(1) [OF assms(1) _ assms(3)])
  then have s_reading: "reading orig (\<Union>a \<in> set as. set (paths_of producers (capio_cl_entries orig) a)) {} s" by simp
  show ?thesis
    by (rule rfold_invariant [where I = "reading orig (\<Union>a \<in> set as. set (paths_of producers (capio_cl_entries orig) a)) {}",
          OF t [unfolded rfold_map] s_reading])
      (rule parse_app_reading(2) [OF assms(1) _ assms(3)])
qed

text \<open>The sections that list paths.\<close>

lemma parse_each_rfold:
  assumes "member key doc = Some (strings_json ps)" and "json_conversions J"
  shows "parse_each J key f doc st = Inr (fold f ps st)"
proof -
  have "rfold (\<lambda>itm engine. rbind (as_string J itm) (\<lambda>s. Inr (f s engine))) (map JString ps) st = Inr (fold f ps st)"
    using assms(2) by (induction ps arbitrary: st) (simp_all add: json_conversions_def)
  then show ?thesis by (simp add: parse_each_def json_contains_member assms(1) json_strings)
qed

lemma flags_reading:
  assumes "plain P orig" and "reading orig D M st" and "entry_at orig p = Some e"
  shows "permanent e \<Longrightarrow> reading orig D M (let path = resolve p [] in setPermanent P path True (newFile P path st))"
    and "excluded e \<Longrightarrow> reading orig D M (let path = resolve p [] in setExclude P path True (newFile P path st))"
proof -
  have known: "known orig p" using assms(3) by (simp add: known_def)
  note upd = reading_update_other [OF assms(1) reading_newFile [OF assms(1,2) known] known]
  show "permanent e \<Longrightarrow> reading orig D M (let path = resolve p [] in setPermanent P path True (newFile P path st))"
    unfolding Let_def resolve_def setPermanent_def
    by (simp, rule upd) (use assms(3) in \<open>auto simp: below_def rules_of_def entry_or_default_def\<close>)
  show "excluded e \<Longrightarrow> reading orig D M (let path = resolve p [] in setExclude P path True (newFile P path st))"
    unfolding Let_def resolve_def setExclude_def
    by (simp, rule upd) (use assms(3) in \<open>auto simp: below_def rules_of_def entry_or_default_def\<close>)
qed

lemma storage_reading:
  assumes "plain P orig" and "reading orig D M st" and "entry_at orig p = Some e"
  shows "store_in_memory e \<Longrightarrow> reading orig D (insert p M) (setStoreFileInMemory P p st)"
    and "\<not> store_in_memory e \<Longrightarrow> reading orig D (insert p M) (setStoreFileInFileSystem P p st)"
proof -
  have known: "known orig p" using assms(3) by (simp add: known_def)
  have "reading orig D (insert p M) (update_entry P p (\<lambda>x. x\<lparr>store_in_memory := store_in_memory e\<rparr>) st)"
  proof (rule reading_update [OF assms(1,2) known])
    show "below (entry_or_default st p\<lparr>store_in_memory := store_in_memory e\<rparr>) (entry_or_default orig p)"
      using reading_below [OF assms(2), of p] by (simp add: below_def rules_of_def)
  qed (use assms(2,3) in \<open>auto simp: reading_def rules_of_def entry_or_default_def [of st] entry_or_default_def [of orig]\<close>)
  then show "store_in_memory e \<Longrightarrow> reading orig D (insert p M) (setStoreFileInMemory P p st)"
    and "\<not> store_in_memory e \<Longrightarrow> reading orig D (insert p M) (setStoreFileInFileSystem P p st)"
    by (auto simp: setStoreFileInMemory_def setStoreFileInFileSystem_def)
qed

lemma fold_storage_reading:
  assumes "plain P orig" and "reading orig D M st"
    and "\<And>p. p \<in> set ps \<Longrightarrow> \<exists>e. entry_at orig p = Some e \<and> store_in_memory e = b"
  shows "reading orig D (set ps \<union> M) (fold (if b then setStoreFileInMemory P else setStoreFileInFileSystem P) ps st)"
  using assms(2,3)
proof (induction ps arbitrary: st M)
  case (Cons p ps)
  obtain e where e: "entry_at orig p = Some e" "store_in_memory e = b" using Cons.prems(2) [of p] by auto
  have "reading orig D (insert p M) ((if b then setStoreFileInMemory P else setStoreFileInFileSystem P) p st)"
    using storage_reading [OF assms(1) Cons.prems(1) e(1)] e(2) by (cases b) auto
  from Cons.IH [OF this] Cons.prems(2)
  have "reading orig D (set ps \<union> insert p M) (fold (if b then setStoreFileInMemory P else setStoreFileInFileSystem P) (p # ps) st)"
    by auto
  then show ?case by simp
qed simp

lemma listed:
  assumes "engine_wf orig" and "p \<in> set (map fst (filter (\<lambda>(_, e). Q e) (capio_cl_entries orig)))"
  shows "\<exists>e. entry_at orig p = Some e \<and> Q e"
  using assms by (auto simp: engine_wf_def um_items_find)

lemma reading_start: "reading orig {} {} (setWorkflowName n (new_engine P))"
  by (auto simp: reading_def part_of_def setWorkflowName_def new_engine_def engine_wf_def known_def)

lemma sections_reading:
  assumes "plain P orig" and "json_conversions J" and "vs = [] \<or> vs = [(''version'', JDouble ''1.1'')]"
    and "doc = JObject (vs @ doc_members name (capio_cl_entries orig)
      (map (producer_app (capio_cl_entries orig)) as @ map (consumer_app (capio_cl_entries orig)) bs))"
    and "parse_sections P J [] False doc (setWorkflowName n (new_engine P)) = Inr st'"
  shows "reading orig (\<Union>a \<in> set as. set (paths_of producers (capio_cl_entries orig) a)) {q. known orig q} st'"
proof -
  let ?es = "capio_cl_entries orig"
  let ?D = "\<Union>a \<in> set as. set (paths_of producers ?es a)"
  note wf = plain_wf [OF assms(1)]
  have members: "items_at ''IO_Graph'' doc = map (producer_app ?es) as @ map (consumer_app ?es) bs"
    "member ''permanent'' doc = Some (strings_json (map fst (filter (\<lambda>(_, e). permanent e) ?es)))"
    "member ''exclude'' doc = Some (strings_json (map fst (filter (\<lambda>(_, e). excluded e) ?es)))"
    "member ''storage'' doc = Some (JObject
         [(''memory'', strings_json (map fst (filter (\<lambda>(_, e). store_in_memory e) ?es))),
          (''fs'', strings_json (map fst (filter (\<lambda>(_, e). \<not> store_in_memory e) ?es)))])"
    using assms(3) by (auto simp: assms(4) items_at_def member_def doc_members_def)
  obtain apps s1 s2 s3 where run: "rfold (parse_app P J []) (items_at ''IO_Graph'' doc) (setWorkflowName n (new_engine P)) = Inr s1"
    and perm: "parse_each J ''permanent'' (\<lambda>s e. let path = resolve s [] in setPermanent P path True (newFile P path e)) doc s1 = Inr s2"
    and excl: "parse_each J ''exclude'' (\<lambda>s e. let path = resolve s [] in setExclude P path True (newFile P path e)) doc s2 = Inr s3"
    and stor: "parse_storage P J doc s3 = Inr st'"
    using assms(5) json_array_items [of "''IO_Graph''" doc] by (auto simp: parse_sections_def rbind_Inr_iff)
  have 1: "reading orig ?D {} s1"
    by (rule apps_reading [OF assms(1) reading_start assms(2) run [unfolded members(1)]])
  have 2: "reading orig ?D {} s2"
    using perm unfolding parse_each_rfold [OF members(2) assms(2)]
    by (auto intro!: fold_invariant [where I = "reading orig ?D {}", OF 1] dest!: listed [OF wf]
        intro: flags_reading(1) [OF assms(1)])
  have 3: "reading orig ?D {} s3"
    using excl unfolding parse_each_rfold [OF members(3) assms(2)]
    by (auto intro!: fold_invariant [where I = "reading orig ?D {}", OF 2] dest!: listed [OF wf]
        intro: flags_reading(2) [OF assms(1)])
  let ?mem = "map fst (filter (\<lambda>(_, e). store_in_memory e) ?es)"
  let ?fs = "map fst (filter (\<lambda>(_, e). \<not> store_in_memory e) ?es)"
  have st': "st' = fold (setStoreFileInFileSystem P) ?fs (fold (setStoreFileInMemory P) ?mem s3)"
  proof -
    have "parse_each J ''memory'' f (JObject [(''memory'', strings_json ps), (''fs'', strings_json qs)]) st = Inr (fold f ps st)"
      "parse_each J ''fs'' f (JObject [(''memory'', strings_json ps), (''fs'', strings_json qs)]) st = Inr (fold f qs st)" for f ps qs st
      by (rule parse_each_rfold [OF _ assms(2)]; simp add: member_def)+
    with stor show ?thesis by (simp add: parse_storage_def json_contains_member json_at_member members(4))
  qed
  have "reading orig ?D (set ?mem \<union> {}) (fold (setStoreFileInMemory P) ?mem s3)"
    using fold_storage_reading [OF assms(1) 3, of ?mem True] listed [OF wf] by simp
  from fold_storage_reading [OF assms(1) this, of ?fs False] listed [OF wf]
  have "reading orig ?D (set ?fs \<union> (set ?mem \<union> {})) st'" by (simp add: st')
  moreover have "set ?fs \<union> (set ?mem \<union> {}) = {q. known orig q}"
    by (force simp: known_getPaths getPaths_def)
  ultimately show ?thesis by simp
qed

subsection \<open>Nothing is left out\<close>

lemma strings_at_json: "member key j = Some (strings_json ps) \<Longrightarrow> strings_at key j = ps"
proof -
  have "concat (map (\<lambda>x. case x of JString s \<Rightarrow> [s] | _ \<Rightarrow> []) (map JString ps)) = ps" by (induction ps) simp_all
  then show "member key j = Some (strings_json ps) \<Longrightarrow> strings_at key j = ps"
    by (simp add: strings_at_def items_at_def strings_json_def)
qed

lemma strings_at_apps:
  "strings_at ''output_stream'' (producer_app es a) = paths_of producers es a"
  "strings_at ''input_stream'' (producer_app es a) = paths_of consumers es a"
  "strings_at ''input_stream'' (consumer_app es a) = paths_of consumers es a"
  "string_at ''name'' (producer_app es a) = a" "string_at ''name'' (consumer_app es a) = a"
  by (auto simp: string_at_def member_def producer_app_def consumer_app_def intro!: strings_at_json)

lemma subset_vec_same_set: "set xs = set ys \<Longrightarrow> distinct xs \<Longrightarrow> distinct ys \<Longrightarrow> subset_vec (=) xs ys"
  by (metis distinct_card dual_order.refl subset_vec_eq)

lemma read_entry_equal:
  assumes "below e e0" and "rules_of e = rules_of e0" and "file_dependencies e = file_dependencies e0"
    and "store_in_memory e = store_in_memory e0" and "plain_entry orig e0"
    and "set (producers e0) \<subseteq> set (producers e)" and "set (consumers e0) \<subseteq> set (consumers e)"
    and "permanent e0 \<Longrightarrow> permanent e" and "excluded e0 \<Longrightarrow> excluded e"
  shows "entry_eq e e0 \<and> entry_eq e0 e"
proof -
  have "subset_vec (=) (producers e) (producers e0)" "subset_vec (=) (producers e0) (producers e)"
    "subset_vec (=) (consumers e) (consumers e0)" "subset_vec (=) (consumers e0) (consumers e)"
    using assms(1,5-7) by (auto simp: below_def plain_entry_def entry_distinct_def intro!: subset_vec_same_set)
  with assms show ?thesis
    by (auto simp: entry_eq_iff below_def rules_of_def plain_entry_def intro: subset_vec_refl)
qed

lemma roundtrip_sections:
  assumes "plain P orig" and "json_conversions J" and "vs = [] \<or> vs = [(''version'', JDouble ''1.1'')]"
    and as: "\<And>a. a \<in> set as \<longleftrightarrow> paths_of producers (capio_cl_entries orig) a \<noteq> []"
    and bs: "\<And>b. b \<in> set bs \<longleftrightarrow> paths_of producers (capio_cl_entries orig) b = [] \<and> paths_of consumers (capio_cl_entries orig) b \<noteq> []"
    and doc: "doc = JObject (vs @ doc_members name (capio_cl_entries orig)
      (map (producer_app (capio_cl_entries orig)) as @ map (consumer_app (capio_cl_entries orig)) bs))"
    and valid: "schema_common doc"
    and run: "parse_sections P J [] False doc (setWorkflowName n (new_engine P)) = Inr st'"
  shows "engine_eq st' orig \<and> engine_eq orig st'"
proof -
  let ?es = "capio_cl_entries orig"
  have reading: "reading orig (\<Union>a \<in> set as. set (paths_of producers ?es a)) {q. known orig q} st'"
    by (rule sections_reading [OF assms(1-3) doc run])
  have start: "engine_wf (setWorkflowName n (new_engine P))"
    by (simp add: setWorkflowName_def new_engine_def engine_wf_def)
  have apps: "set (items_at ''IO_Graph'' doc) = producer_app ?es ` set as \<union> consumer_app ?es ` set bs"
    using assms(3) by (auto simp: doc items_at_def member_def doc_members_def)
  have equal: "entry_eq e e0 \<and> entry_eq e0 e" if e: "entry_at st' q = Some e" and e0: "entry_at orig q = Some e0" for q e e0
  proof -
    have item: "(q, e0) \<in> set ?es" using e0 by (rule um_find_item)
    have q: "resolve q [] = q" "q \<noteq> []" using plain_key [OF assms(1), of q] e0 by (auto simp: known_def resolve_def)
    have pe: "plain_entry orig e0" by (rule plain_entry_at [OF assms(1) e0])
    have clean: "erase_spaces a = a" if "a \<in> set (producers e0 @ consumers e0)" for a
      using plain_clean [OF assms(1) e0 that] .
    have orig: "entry_or_default orig q = e0" using e0 by (simp add: entry_or_default_def)
    have below: "below e e0" using reading_below [OF reading, of q] e orig by (simp add: entry_or_default_def [of st'])
    have "q \<in> {q. known orig q}" using e0 by (simp add: known_def)
    then have store: "store_in_memory e = store_in_memory e0"
      using reading e orig unfolding reading_def by (metis option.inject)
    have rules: "rules_of e = rules_of e0 \<and> file_dependencies e = file_dependencies e0"
    proof (cases "producers e0 = []")
      case True
      then have "rules_of e0 = rules_of default_entry" "file_dependencies e0 = []"
        using pe by (simp_all add: plain_entry_def plain_rules_def rules_of_def default_entry_def)
      with below show ?thesis by (auto simp: below_def)
    next
      case False
      then obtain a where "a \<in> set (producers e0)" by (cases "producers e0") auto
      with item have "q \<in> set (paths_of producers ?es a)" by (auto simp: paths_of_iff)
      moreover from this have "a \<in> set as" unfolding as by auto
      ultimately have "q \<in> (\<Union>a \<in> set as. set (paths_of producers ?es a))" by blast
      then show ?thesis using reading e orig unfolding reading_def by (metis option.inject)
    qed
    have prods: "a \<in> set (producers e)" if "a \<in> set (producers e0)" for a
    proof -
      have p: "q \<in> set (paths_of producers ?es a)" using item that by (auto simp: paths_of_iff)
      then have "producer_app ?es a \<in> set (items_at ''IO_Graph'' doc)" unfolding apps using as [of a] by auto
      from parse_sections_streams(1) [OF run assms(2) valid start this, of q] p q that e
      show ?thesis by (simp add: strings_at_apps clean entry_has_iff)
    qed
    have cons: "a \<in> set (consumers e)" if "a \<in> set (consumers e0)" for a
    proof -
      have p: "q \<in> set (paths_of consumers ?es a)" using item that by (auto simp: paths_of_iff)
      then have "producer_app ?es a \<in> set (items_at ''IO_Graph'' doc) \<or> consumer_app ?es a \<in> set (items_at ''IO_Graph'' doc)"
        unfolding apps using as [of a] bs [of a] by auto
      then obtain app where app: "app \<in> set (items_at ''IO_Graph'' doc)"
        "q \<in> set (strings_at ''input_stream'' app)" "string_at ''name'' app = a"
        using p strings_at_apps by metis
      from parse_sections_streams(2) [OF run assms(2) valid start app(1), of q] app(2,3) q that e
      show ?thesis by (simp add: clean entry_has_iff)
    qed
    have lists: "strings_at ''permanent'' doc = map fst (filter (\<lambda>(_, e). permanent e) ?es)"
      "strings_at ''exclude'' doc = map fst (filter (\<lambda>(_, e). excluded e) ?es)"
      using assms(3) by (auto simp: doc member_def doc_members_def intro!: strings_at_json)
    have flags: "permanent e0 \<Longrightarrow> permanent e" "excluded e0 \<Longrightarrow> excluded e"
      using parse_sections_flags [OF run assms(2) start, of q] q e item
      by (auto simp: lists entry_has_iff image_iff)
    show ?thesis
      by (rule read_entry_equal [OF below _ _ store pe]) (use rules prods cons flags in auto)
  qed
  have "{q. known st' q} = {q. known orig q}"
    using reading by (auto simp: reading_def part_of_def known_def)
  moreover have "engine_wf st'" using reading by (simp add: reading_def part_of_def)
  ultimately show ?thesis
    using equal plain_wf [OF assms(1)] by (auto simp: engine_eq_iff)
qed

lemma plain_readable: "plain P st \<Longrightarrow> all_readable st \<and> all_fit st"
proof -
  assume plain: "plain P st"
  have "producers e = [] \<or> readable e \<and> entry_fits e" if "(q, e) \<in> set (capio_cl_entries st)" for q e
  proof (cases "producers e = []")
    case False
    have "plain_entry st e" using plain that by (auto simp: plain_def list_all_iff)
    with False have "entry_rules_valid e" "is_file e \<longrightarrow> commit_rule e \<noteq> ON_N_FILES" "sint (commit_on_close_count e) < 2 ^ 31"
      by (auto simp: plain_entry_def plain_rules_def)
    then show ?thesis
      by (auto simp: readable_def committed_ok_def entry_fits_def entry_rules_valid_def commit_rules_def
          name_committed_def dirname_committed_def on_close_pattern_def rule_consts)
  qed simp
  then show ?thesis by (auto simp: all_readable_def all_fit_def list_all_iff)
qed

subsection \<open>The round trip\<close>

text \<open>
  C3. An engine is read back from the file it was written to: for every plain engine, either
  version and every JSON library that reads back this document, the parser returns an engine that
  compares equal to the original, both ways, and has its workflow name.
\<close>

theorem serializer_roundtrip:
  assumes "plain P st" and "version \<in> {V1, V1_1}" and "out_name \<noteq> []"
    and "json_conversions J" and "as_string J (JDouble ''1.1'') = Inr ''1.1''"
    and "engine_doc P (version_members version) st = Inr doc"
    and "json_parse J (pretty_print doc @ [CHR 0x0A]) = Inr doc"
    and "dump P pretty_print can_open st out_name version disk_files = Inr disk_files'"
  shows "\<exists>rt. parse P J parse_toml disk_files' out_name [] False = Some (Inr rt) \<and>
    engine_eq (the_engine rt) st \<and> engine_eq st (the_engine rt) \<and>
    getWorkflowName (the_engine rt) = getWorkflowName st"
proof -
  note wf = plain_wf [OF assms(1)]
  obtain as bs where as: "\<And>a. a \<in> set as \<longleftrightarrow> paths_of producers (capio_cl_entries st) a \<noteq> []"
    and bs: "\<And>b. b \<in> set bs \<longleftrightarrow> paths_of producers (capio_cl_entries st) b = [] \<and> paths_of consumers (capio_cl_entries st) b \<noteq> []"
    and doc: "doc = JObject (version_members version @ doc_members (workflow_name st) (capio_cl_entries st)
      (map (producer_app (capio_cl_entries st)) as @ map (consumer_app (capio_cl_entries st)) bs))"
    using engine_doc_form [OF wf, of P "version_members version"] assms(6) by auto
  have v: "version_members version = [] \<or> version_members version = [(''version'', JDouble ''1.1'')]"
    by (simp add: version_members_def)
  obtain rt where rt: "parse P J parse_toml disk_files' out_name [] False = Some (Inr rt)"
    using dump_readable [OF wf _ assms(2-8)] plain_readable [OF assms(1)] by blast
  have "disk_files' out_name = Some (pretty_print doc @ [CHR 0x0A])"
    using assms(2,6,8) by (auto simp: dump_eq write_doc_def split: if_splits)
  then have read: "read_json J disk_files' out_name = Inr doc" using assms(7) by (simp add: read_json_def)
  have valid: "schema_common doc"
    using parse_engine(1) [OF rt read] schema_v1_common schema_v1_1_common by blast
  have "rbind (json_at ''name'' doc) (as_string J) = Inr (workflow_name st)"
    using v assms(4) by (auto simp: doc json_at_def doc_members_def json_conversions_def)
  then have run: "parse_sections P J [] False doc (setWorkflowName (workflow_name st) (new_engine P)) = Inr (the_engine rt)"
    using parse_engine(2) [OF rt read] by auto
  have start: "engine_wf (setWorkflowName (workflow_name st) (new_engine P))"
    by (simp add: setWorkflowName_def new_engine_def engine_wf_def)
  have "workflow_name (the_engine rt) = workflow_name st"
    using parse_sections_flags(3) [OF run assms(4) start, of "''x''"] by (simp add: resolve_def setWorkflowName_def)
  with rt roundtrip_sections [OF assms(1,4) v as bs doc valid run] show ?thesis
    by (auto simp: getWorkflowName_def)
qed

text \<open>
  An example with three paths: a file closed twice, a file committed on it, and one that is only
  consumed.
\<close>

definition demo_plain :: engine where
  "demo_plain = run_calls demo
     [AddProducer ''/a'' ''p'', AddConsumer ''/a'' ''q'', SetCommitRule ''/a'' ON_CLOSE, SetCommitedCloseNumber ''/a'' 2,
      AddProducer ''/b'' ''q'', SetCommitRule ''/b'' ON_FILE, SetFileDeps ''/b'' [''/a''], SetFireRule ''/b'' NO_UPDATE,
      AddConsumer ''/c'' ''r'', SetPermanent ''/c'' True, SetStoreFileInMemory ''/b''] (new_engine demo)"

definition demo_plain_doc :: json where
  "demo_plain_doc = (case engine_doc demo [] demo_plain of Inr doc \<Rightarrow> doc | Inl _ \<Rightarrow> JNull)"

definition demo_plain_reader :: jsoncons where
  "demo_plain_reader = demo_counted_reader\<lparr>json_parse := (\<lambda>_. Inr demo_plain_doc)\<rparr>"

lemma demo_plain_reader: "json_conversions demo_plain_reader" "as_string demo_plain_reader (JDouble ''1.1'') = Inr ''1.1''"
  by (simp_all add: json_conversions_def demo_plain_reader_def demo_counted_reader_def demo_json_def)

lemma demo_plain: "plain demo demo_plain" "engine_doc demo [] demo_plain = Inr demo_plain_doc"
    "length (getPaths demo_plain) = 3"
  by code_simp+

theorem serializer_roundtrip_witness:
  "\<exists>disk' rt. dump demo (\<lambda>_. ''{}'') (\<lambda>_. True) demo_plain ''out'' V1 Map.empty = Inr disk' \<and>
     parse demo demo_plain_reader (\<lambda>_. Inl []) disk' ''out'' [] False = Some (Inr rt) \<and>
     engine_eq (the_engine rt) demo_plain \<and> length (getPaths demo_plain) = 3"
proof -
  have doc: "engine_doc demo (version_members V1) demo_plain = Inr demo_plain_doc"
    using demo_plain(2) by (simp add: version_members_def version_consts)
  have d: "dump demo (\<lambda>_. ''{}'') (\<lambda>_. True) demo_plain ''out'' V1 Map.empty = Inr [''out'' \<mapsto> ''{}'' @ [CHR 0x0A]]"
    by (simp add: dump_eq doc write_doc_def)
  have "json_parse demo_plain_reader (''{}'' @ [CHR 0x0A]) = Inr demo_plain_doc"
    by (simp add: demo_plain_reader_def)
  from serializer_roundtrip [OF demo_plain(1) _ _ demo_plain_reader doc this d] demo_plain(3) d
  show ?thesis by auto
qed

end
