(* ===== verification/CL_Roundtrip_Limits.thy ===== *)
theory CL_Roundtrip_Limits
  imports CL_Roundtrip
begin

text \<open>
  What the files do not carry. A child count in a document is read back as one set by the user, so it
  stops counting; and setting it marks the paths registered so far as directories. No engine with a
  counted directory that has a producer is read back equal from its own file.
\<close>

subsection \<open>A count that is read is frozen\<close>

abbreviation frozen :: "engine \<Rightarrow> string \<Rightarrow> bool" where
  "frozen \<equiv> entry_has (\<lambda>e. \<not> enable_directory_count_update e)"

lemma extends_frozen: "extends st st' \<Longrightarrow> engine_wf st \<Longrightarrow> frozen st p \<Longrightarrow> frozen st' p"
  by (rule extends_has) (auto simp: grows_def)

lemma setDirectoryFileCount_frozen:
  assumes "engine_wf st" and "p \<noteq> []"
  shows "frozen (setDirectoryFileCount P p n st) p"
proof -
  obtain s where s: "engine_wf s" "known s p"
      "setDirectoryFileCount P p n st = modify_at p (set_count n) (fold (setDirectory P) (getPaths s) s)"
    using setDirectoryFileCount_form [OF assms(2,1)] by blast
  then obtain e where "entry_at (fold (setDirectory P) (getPaths s) s) p = Some e"
    using assms(2) by (auto simp: known_def entry_at_all_directories)
  then show ?thesis by (simp add: s(3) entry_has_iff entry_at_modify set_count_def)
qed

lemma apply_stream_rule_frozen:
  assumes "apply_stream_rule P r p st = Inr st'" and "engine_wf st" and "p \<noteq> []" and "sr_files r \<noteq> 0"
  shows "frozen st' p"
proof -
  let ?e1 = "setDirectoryFileCount P p (sr_files r) st"
  have "apply_stream_rule P (r\<lparr>sr_files := 0\<rparr>) p ?e1 = Inr st'"
    using assms(1,4) by (simp add: apply_stream_rule_def Let_def)
  then have "extends ?e1 st'" by (rule extends_apply_stream_rule)
  then show ?thesis
    using extends_frozen setDirectoryFileCount_frozen [OF assms(2,3)] extends_wf [OF extends_setDirectoryFileCount assms(2)]
    by blast
qed

text \<open>The item of a counted directory, as the serializer writes it.\<close>

lemma counted_item:
  assumes "parse_stream_item J [] (serialize_item p e) = Inr r" and "json_conversions J" and "\<not> is_file e"
  shows "sr_names r = [p] \<and> sr_files r = directory_children_count e"
proof -
  have str: "as_string J (JString s) = Inr s" and long: "as_long J (JInt (sint n)) = Inr n" for s n
    using assms(2) by (simp_all add: json_conversions_def)
  have "parse_paths J [] ''dirname'' (serialize_item p e) = Inr [p]"
    using assms(3) by (simp add: parse_paths_def json_at_member item_members strings_json_def json_array_def str resolve_def)
  with assms(1,3) show ?thesis
    by (auto simp: parse_stream_item_def Let_def rbind_Inr_iff json_contains_member json_at_member item_members long)
qed

lemma parse_app_frozen:
  assumes "parse_app P J [] (producer_app (capio_cl_entries orig) a) st = Inr st'" and "engine_wf st" and "json_conversions J"
    and "p \<in> set (paths_of producers (capio_cl_entries orig) a)" and "entry_at orig p = Some e"
    and "\<not> is_file e" and "directory_children_count e \<noteq> 0" and "p \<noteq> []"
  shows "frozen st' p"
proof -
  let ?app = "producer_app (capio_cl_entries orig) a"
  obtain n s1 n1 n2 s2 where "parse_input_stream P J [] ?app (n, st) = Inr (n1, s1)"
    and "parse_output_stream P J [] ?app (n1, s1) = Inr (n2, s2)" and streaming: "parse_streaming P J [] ?app s2 = Inr st'"
    using assms(1) by (auto simp: parse_app_def rbind_Inr_iff split: prod.splits)
  then have "extends st s2" using extends_io extends_trans by blast
  then have wf: "engine_wf s2" using assms(2) by (rule extends_wf)
  have "member ''streaming'' ?app =
      Some (JArray (map (\<lambda>p. serialize_item p (the (entry_at orig p))) (paths_of producers (capio_cl_entries orig) a)))"
    by (simp add: member_def producer_app_def)
  with streaming have run: "rfold (\<lambda>itm engine. rbind (parse_stream_item J [] itm) (\<lambda>r. rfold (apply_stream_rule P r) (sr_names r) engine))
      (map (\<lambda>p. serialize_item p (the (entry_at orig p))) (paths_of producers (capio_cl_entries orig) a)) s2 = Inr st'"
    by (simp add: parse_streaming_def json_contains_member json_at_member json_array_def)
  have up: "extends s s'" if "rbind (parse_stream_item J [] itm) (\<lambda>r. rfold (apply_stream_rule P r) (sr_names r) s) = Inr s'" for itm s s'
    using that by (auto simp: rbind_Inr_iff intro: extends_apply_stream_rule elim!: rfold_relation [OF _ extends_order])
  have "serialize_item p e \<in> set (map (\<lambda>p. serialize_item p (the (entry_at orig p))) (paths_of producers (capio_cl_entries orig) a))"
    using assms(4,5) by (auto simp: image_iff intro!: bexI [of _ p])
  from rfold_round [OF run extends_order _ this] up obtain x y where xy: "extends s2 x" "extends y st'"
      "rbind (parse_stream_item J [] (serialize_item p e)) (\<lambda>r. rfold (apply_stream_rule P r) (sr_names r) x) = Inr y"
    by blast
  then obtain r where r: "parse_stream_item J [] (serialize_item p e) = Inr r" "rfold (apply_stream_rule P r) (sr_names r) x = Inr y"
    by (auto simp: rbind_Inr_iff)
  have "engine_wf x" using xy(1) wf by (rule extends_wf)
  moreover from counted_item [OF r(1) assms(3,6)] assms(7) r(2)
  have "apply_stream_rule P r p x = Inr y" "sr_files r \<noteq> 0" by (auto simp: rbind_Inr_iff)
  ultimately have "frozen y p" "engine_wf y"
    using apply_stream_rule_frozen [OF _ _ assms(8)] extends_apply_stream_rule extends_wf by blast+
  then show ?thesis using extends_frozen [OF xy(2)] by blast
qed

text \<open>
  The round trip ends at directories that count: if an engine has a directory with a producer
  whose number of children was counted by the engine, the engine the parser reads from the file it was
  written to never compares equal to it. The directory comes back with its count fixed for ever.
\<close>

theorem counted_directory_not_read_back:
  assumes "engine_wf st" and "entry_at st dir = Some e" and "dir \<noteq> []" and "producers e \<noteq> []"
    and "\<not> is_file e" and "directory_children_count e \<noteq> 0" and "enable_directory_count_update e"
    and "json_conversions J" and "engine_doc P (version_members version) st = Inr doc"
    and "json_parse J (pretty_print doc @ [CHR 0x0A]) = Inr doc"
    and "dump P pretty_print can_open st out_name version disk_files = Inr disk_files'"
    and "parse P J parse_toml disk_files' out_name [] False = Some (Inr rt)"
  shows "\<not> engine_eq (the_engine rt) st \<and> frozen (the_engine rt) dir"
proof -
  let ?es = "capio_cl_entries st"
  obtain as bs where as: "\<And>a. a \<in> set as \<longleftrightarrow> paths_of producers ?es a \<noteq> []"
    and doc: "doc = JObject (version_members version @ doc_members (workflow_name st) ?es
      (map (producer_app ?es) as @ map (consumer_app ?es) bs))"
    using engine_doc_form [OF assms(1), of P "version_members version"] assms(9) by auto
  have v: "version_members version = [] \<or> version_members version = [(''version'', JDouble ''1.1'')]"
    by (simp add: version_members_def)
  have "disk_files' out_name = Some (pretty_print doc @ [CHR 0x0A])"
    using assms(9,11) by (auto simp: dump_eq write_doc_def split: if_splits)
  then have read: "read_json J disk_files' out_name = Inr doc" using assms(10) by (simp add: read_json_def)
  have "rbind (json_at ''name'' doc) (as_string J) = Inr (workflow_name st)"
    using v assms(8) by (auto simp: doc json_at_def doc_members_def json_conversions_def)
  then have run: "parse_sections P J [] False doc (setWorkflowName (workflow_name st) (new_engine P)) = Inr (the_engine rt)"
    using parse_engine(2) [OF assms(12) read] by auto
  obtain s1 where apps: "rfold (parse_app P J []) (items_at ''IO_Graph'' doc) (setWorkflowName (workflow_name st) (new_engine P)) = Inr s1"
    and rest: "extends s1 (the_engine rt)"
    by (rule parse_sections_steps [OF run], rule that)
  have start: "engine_wf (setWorkflowName (workflow_name st) (new_engine P))"
    by (simp add: setWorkflowName_def new_engine_def engine_wf_def)
  obtain a where a: "a \<in> set (producers e)" using assms(4) by (cases "producers e") auto
  have "(dir, e) \<in> set ?es" using assms(2) by (rule um_find_item)
  then have listed: "dir \<in> set (paths_of producers ?es a)" using a by (auto simp: paths_of_iff)
  then have "producer_app ?es a \<in> set (items_at ''IO_Graph'' doc)"
    using as [of a] v by (auto simp: doc member_def doc_members_def)
  from rfold_round [OF apps extends_order _ this] obtain x y where
    xy: "extends (setWorkflowName (workflow_name st) (new_engine P)) x" "parse_app P J [] (producer_app ?es a) x = Inr y" "extends y s1"
    using extends_parse_app by blast
  have x: "engine_wf x" using xy(1) start by (rule extends_wf)
  have y: "engine_wf y" using extends_parse_app [OF xy(2)] x by (rule extends_wf)
  have "frozen y dir" by (rule parse_app_frozen [OF xy(2) x assms(8) listed assms(2,5,6,3)])
  then have fr: "frozen (the_engine rt) dir" using extends_frozen [OF extends_trans [OF xy(3) rest] y] by blast
  have "engine_wf (the_engine rt)" using extends_trans [OF xy(3) rest] y by (rule extends_wf)
  with fr assms(1,2,7) show ?thesis by (auto simp: engine_eq_iff entry_has_iff entry_eq_iff)
qed

text \<open>
  An example: an application that writes into a directory, a file of which is counted, and reads a
  file elsewhere.
\<close>

definition demo_dir :: engine where
  "demo_dir = run_calls demo
     [AddProducer ''/d'' ''p'', NewFile ''/d/x'', AddConsumer ''/c'' ''p'', SetCommitRule ''/d'' ON_TERMINATION] (new_engine demo)"

definition demo_dir_doc :: json where
  "demo_dir_doc = (case engine_doc demo [] demo_dir of Inr doc \<Rightarrow> doc | Inl _ \<Rightarrow> JNull)"

definition demo_dir_reader :: jsoncons where
  "demo_dir_reader = demo_counted_reader\<lparr>json_parse := (\<lambda>_. Inr demo_dir_doc)\<rparr>"

lemma demo_dir_reader: "json_conversions demo_dir_reader" "json_parse demo_dir_reader s = Inr demo_dir_doc"
    "as_string demo_dir_reader (JDouble ''1.1'') = Inr ''1.1''"
  by (simp_all add: json_conversions_def demo_dir_reader_def demo_counted_reader_def demo_json_def)

lemma demo_dir: "engine_wf demo_dir" "engine_doc demo [] demo_dir = Inr demo_dir_doc"
    "entry_has (\<lambda>e. producers e \<noteq> [] \<and> \<not> is_file e \<and> directory_children_count e \<noteq> 0 \<and> enable_directory_count_update e)
      demo_dir ''/d''"
    "all_fit demo_dir" "all_readable demo_dir"
  by code_simp+

theorem counted_directory_not_read_back_witness:
  "\<exists>disk' rt. dump demo (\<lambda>_. ''{}'') (\<lambda>_. True) demo_dir ''out'' V1 Map.empty = Inr disk' \<and>
     parse demo demo_dir_reader (\<lambda>_. Inl []) disk' ''out'' [] False = Some (Inr rt) \<and>
     \<not> engine_eq (the_engine rt) demo_dir \<and> frozen (the_engine rt) ''/d''"
proof -
  have doc: "engine_doc demo (version_members V1) demo_dir = Inr demo_dir_doc"
    using demo_dir(2) by (simp add: version_members_def version_consts)
  have d: "dump demo (\<lambda>_. ''{}'') (\<lambda>_. True) demo_dir ''out'' V1 Map.empty = Inr [''out'' \<mapsto> ''{}'' @ [CHR 0x0A]]"
    by (simp add: dump_eq doc write_doc_def)
  obtain rt where rt: "parse demo demo_dir_reader (\<lambda>_. Inl []) [''out'' \<mapsto> ''{}'' @ [CHR 0x0A]] ''out'' [] False = Some (Inr rt)"
    using dump_readable [OF demo_dir(1,4) _ _ demo_dir_reader(1,3) doc demo_dir_reader(2) d, of "\<lambda>_. Inl []" "[]" False]
      demo_dir(5) by auto
  obtain e where e: "entry_at demo_dir ''/d'' = Some e" and counted: "producers e \<noteq> []" "\<not> is_file e"
      "directory_children_count e \<noteq> 0" "enable_directory_count_update e"
    using demo_dir(3) by (auto simp: entry_has_iff)
  have "\<not> engine_eq (the_engine rt) demo_dir \<and> frozen (the_engine rt) ''/d''"
    using counted_directory_not_read_back [OF demo_dir(1) e _ counted demo_dir_reader(1) doc demo_dir_reader(2) d rt] by simp
  with d rt show ?thesis by blast
qed

end
