(* ===== verification/CL_Abstract.thy ===== *)
theory CL_Abstract
  imports CL_Session
begin

text \<open>
  What the engine promises, without its hash map: the rules are a partial map from paths to entries,
  and a path that is asked for and not there is created from \<^emph>\<open>one of\<close> its longest matching
  patterns. \<open>spec_step\<close> is that specification as a step relation; it has no iteration order, and the
  engine refines it for every one (\<open>call_refines\<close>).
\<close>

record spec =
  in_memory :: bool
  workflow :: string
  rules :: "string \<rightharpoonup> CapioCLEntry"

definition abs_engine :: "engine \<Rightarrow> spec" where
  "abs_engine st = \<lparr>in_memory = store_all_in_memory st, workflow = workflow_name st, rules = entry_at st\<rparr>"

subsection \<open>Creating a path\<close>

definition spec_new_entry :: "platform \<Rightarrow> spec \<Rightarrow> string \<Rightarrow> CapioCLEntry \<Rightarrow> bool" where
  "spec_new_entry P \<sigma> p e \<longleftrightarrow>
     (\<exists>k d. k \<noteq> [] \<and> rules \<sigma> k = Some d \<and> fnmatch P k p \<and>
        (\<forall>j. rules \<sigma> j \<noteq> None \<and> fnmatch P j p \<longrightarrow> length j \<le> length k) \<and>
        e = d\<lparr>store_in_memory := in_memory \<sigma> \<or> store_in_memory d\<rparr>) \<or>
     (\<forall>k. k \<noteq> [] \<and> rules \<sigma> k \<noteq> None \<longrightarrow> \<not> fnmatch P k p) \<and>
       e = default_entry\<lparr>store_in_memory := in_memory \<sigma>\<rparr>"

definition spec_modify :: "string \<Rightarrow> (CapioCLEntry \<Rightarrow> CapioCLEntry) \<Rightarrow> spec \<Rightarrow> spec" where
  "spec_modify p f \<sigma> = \<sigma>\<lparr>rules := (rules \<sigma>)(p := map_option f (rules \<sigma> p))\<rparr>"

definition spec_count :: "string \<Rightarrow> spec \<Rightarrow> spec" where
  "spec_count p \<sigma> = (if parent_path p = [] then \<sigma> else spec_modify (parent_path p) count_if_enabled \<sigma>)"

inductive spec_create :: "platform \<Rightarrow> spec \<Rightarrow> string \<Rightarrow> spec \<Rightarrow> bool" for P where
  there: "p = [] \<or> rules \<sigma> p \<noteq> None \<Longrightarrow> spec_create P \<sigma> p \<sigma>"
| fresh: "p \<noteq> [] \<Longrightarrow> rules \<sigma> p = None \<Longrightarrow> spec_new_entry P \<sigma> p e \<Longrightarrow>
    spec_create P \<sigma> p (spec_count p (\<sigma>\<lparr>rules := (rules \<sigma>)(p \<mapsto> e)\<rparr>))"

inductive spec_creates :: "platform \<Rightarrow> spec \<Rightarrow> string list \<Rightarrow> spec \<Rightarrow> bool" for P where
  none: "spec_creates P \<sigma> [] \<sigma>"
| some: "spec_create P \<sigma> p \<tau> \<Longrightarrow> spec_creates P \<tau> ps \<upsilon> \<Longrightarrow> spec_creates P \<sigma> (p # ps) \<upsilon>"

subsection \<open>The calls\<close>

text \<open>Calls that find a path or create it and then write its entry, or only read it.\<close>

definition update_of :: "call \<Rightarrow> (string \<times> (CapioCLEntry \<Rightarrow> CapioCLEntry)) option" where
  "update_of c =
     (case c of
        AddRule p ps cs commit fire perm excl deps \<Rightarrow>
          Some (p, \<lambda>e. e\<lparr>producers := ps, consumers := cs, commit_rule := commit, fire_rule := fire,
                         permanent := perm, excluded := excl, file_dependencies := deps\<rparr>)
      | AddProducer p n \<Rightarrow> Some (p, \<lambda>e. e\<lparr>producers := push_new (=) (erase_spaces n) (producers e)\<rparr>)
      | AddConsumer p n \<Rightarrow> Some (p, \<lambda>e. e\<lparr>consumers := push_new (=) (erase_spaces n) (consumers e)\<rparr>)
      | SetCommitRule p r \<Rightarrow> if p = [] \<or> r \<in> set commit_rules then Some (p, \<lambda>e. e\<lparr>commit_rule := r\<rparr>) else None
      | SetFireRule p r \<Rightarrow> if p = [] \<or> r \<in> set fire_rules then Some (p, \<lambda>e. e\<lparr>fire_rule := r\<rparr>) else None
      | SetPermanent p b \<Rightarrow> Some (p, \<lambda>e. e\<lparr>permanent := b\<rparr>)
      | SetExclude p b \<Rightarrow> Some (p, \<lambda>e. e\<lparr>excluded := b\<rparr>)
      | SetDirectory p \<Rightarrow> Some (p, \<lambda>e. e\<lparr>is_file := False\<rparr>)
      | SetFile p \<Rightarrow> Some (p, \<lambda>e. e\<lparr>is_file := True\<rparr>)
      | SetCommitedCloseNumber p n \<Rightarrow> Some (p, \<lambda>e. e\<lparr>commit_on_close_count := n\<rparr>)
      | SetStoreFileInMemory p \<Rightarrow> Some (p, \<lambda>e. e\<lparr>store_in_memory := True\<rparr>)
      | SetStoreFileInFileSystem p \<Rightarrow> Some (p, \<lambda>e. e\<lparr>store_in_memory := False\<rparr>)
      | _ \<Rightarrow> None)"

definition creates :: "call \<Rightarrow> string option" where
  "creates c =
     (case c of
        NewFile p \<Rightarrow> Some p | GetDirectoryFileCount p \<Rightarrow> Some p | GetCommitRule p \<Rightarrow> Some p
      | GetFireRule p \<Rightarrow> Some p | GetProducers p \<Rightarrow> Some p | GetCommitCloseCount p \<Rightarrow> Some p
      | IsFirable p \<Rightarrow> Some p | IsFile p \<Rightarrow> Some p | IsExcluded p \<Rightarrow> Some p | IsDirectory p \<Rightarrow> Some p
      | IsStoredInMemory p \<Rightarrow> Some p | IsPermanent p \<Rightarrow> Some p
      | _ \<Rightarrow> None)"

definition pure_call :: "call \<Rightarrow> bool" where
  "pure_call c =
     (case c of
        Contains _ \<Rightarrow> True | SizeOf \<Rightarrow> True | GetConsumers _ \<Rightarrow> True | GetCommitOnFileDependencies _ \<Rightarrow> True
      | GetFileToStoreInMemory \<Rightarrow> True | GetWorkflowName \<Rightarrow> True | GetPaths \<Rightarrow> True | _ \<Rightarrow> False)"

definition spec_named :: "platform \<Rightarrow> (CapioCLEntry \<Rightarrow> string list) \<Rightarrow> spec \<Rightarrow> string \<Rightarrow> string \<Rightarrow> bool" where
  "spec_named P sel \<sigma> p n \<longleftrightarrow> (\<exists>k e. rules \<sigma> k = Some e \<and> fnmatch P k p \<and> n \<in> set (sel e))"

definition spec_all :: "(CapioCLEntry \<Rightarrow> CapioCLEntry) \<Rightarrow> spec \<Rightarrow> spec" where
  "spec_all f \<sigma> = \<sigma>\<lparr>rules := (\<lambda>q. if q = [] then rules \<sigma> q else map_option f (rules \<sigma> q))\<rparr>"

abbreviation directories :: "spec \<Rightarrow> spec" where
  "directories \<equiv> spec_all (\<lambda>e. e\<lparr>is_file := False\<rparr>)"

inductive spec_step :: "platform \<Rightarrow> spec \<Rightarrow> call \<Rightarrow> spec \<Rightarrow> bool" for P where
  writes: "update_of c = Some (p, f) \<Longrightarrow> p \<noteq> [] \<Longrightarrow> spec_create P \<sigma> p \<tau> \<Longrightarrow> spec_step P \<sigma> c (spec_modify p f \<tau>)"
| no_path: "update_of c = Some ([], f) \<Longrightarrow> spec_step P \<sigma> c \<sigma>"
| read: "creates c = Some p \<Longrightarrow> spec_create P \<sigma> p \<tau> \<Longrightarrow> spec_step P \<sigma> c \<tau>"
| query: "pure_call c \<Longrightarrow> spec_step P \<sigma> c \<sigma>"
| refused: "refused c \<Longrightarrow> spec_step P \<sigma> c \<sigma>"
| add_new: "rules \<sigma> p = None \<Longrightarrow> spec_step P \<sigma> (AddEntry p e) (\<sigma>\<lparr>rules := (rules \<sigma>)(p \<mapsto> e)\<rparr>)"
| add_more: "rules \<sigma> p \<noteq> None \<Longrightarrow> spec_step P \<sigma> (AddEntry p e) (spec_modify p (\<lambda>x. entry_merge x e) \<sigma>)"
| removed: "spec_step P \<sigma> (Remove p) (\<sigma>\<lparr>rules := (rules \<sigma>)(p := None)\<rparr>)"
| named: "spec_step P \<sigma> (SetWorkflowName n) (\<sigma>\<lparr>workflow := n\<rparr>)"
| producer: "p = [] \<or> spec_named P producers \<sigma> p n \<Longrightarrow> spec_step P \<sigma> (IsProducer p n) \<sigma>"
| no_producer: "p \<noteq> [] \<Longrightarrow> \<not> spec_named P producers \<sigma> p n \<Longrightarrow> spec_create P \<sigma> p \<tau> \<Longrightarrow> spec_step P \<sigma> (IsProducer p n) \<tau>"
| consumer: "p = [] \<or> spec_named P consumers \<sigma> p n \<Longrightarrow> spec_step P \<sigma> (IsConsumer p n) \<sigma>"
| no_consumer: "p \<noteq> [] \<Longrightarrow> \<not> spec_named P consumers \<sigma> p n \<Longrightarrow> spec_create P \<sigma> p \<tau> \<Longrightarrow> spec_step P \<sigma> (IsConsumer p n) \<tau>"
| no_dependency: "p = [] \<Longrightarrow> spec_step P \<sigma> (AddFileDependency p d) \<sigma>"
| dependency: "p \<noteq> [] \<Longrightarrow> rules \<sigma> p \<noteq> None \<Longrightarrow>
    spec_step P \<sigma> (AddFileDependency p d) (spec_modify p (\<lambda>e. e\<lparr>file_dependencies := push_new path_eq d (file_dependencies e)\<rparr>) \<sigma>)"
| first_dependency: "p \<noteq> [] \<Longrightarrow> rules \<sigma> p = None \<Longrightarrow> spec_create P \<sigma> p \<tau> \<Longrightarrow>
    spec_step P \<sigma> (AddFileDependency p d)
      (spec_modify p (\<lambda>e. e\<lparr>commit_rule := ON_FILE, file_dependencies := push_new path_eq d (file_dependencies e)\<rparr>) \<tau>)"
| no_deps: "p = [] \<or> ds = [] \<Longrightarrow> spec_step P \<sigma> (SetFileDeps p ds) \<sigma>"
| deps: "p \<noteq> [] \<Longrightarrow> ds \<noteq> [] \<Longrightarrow> spec_creates P \<sigma> (ds @ [p]) \<tau> \<Longrightarrow>
    spec_step P \<sigma> (SetFileDeps p ds) (spec_modify p (\<lambda>e. e\<lparr>file_dependencies := ds\<rparr>) \<tau>)"
| no_count: "p = [] \<Longrightarrow> spec_step P \<sigma> (SetDirectoryFileCount p n) \<sigma>"
| count: "p \<noteq> [] \<Longrightarrow> rules \<sigma> p \<noteq> None \<Longrightarrow> spec_step P \<sigma> (SetDirectoryFileCount p n) (spec_modify p (set_count n) (directories \<sigma>))"
| count_new: "p \<noteq> [] \<Longrightarrow> rules \<sigma> p = None \<Longrightarrow> spec_create P (directories \<sigma>) p \<tau> \<Longrightarrow>
    spec_step P \<sigma> (SetDirectoryFileCount p n) (spec_modify p (set_count n) (directories \<tau>))"
| memory: "spec_step P \<sigma> SetAllStoreInMemory (spec_all (\<lambda>e. e\<lparr>store_in_memory := True\<rparr>) (\<sigma>\<lparr>in_memory := True\<rparr>))"

subsection \<open>The engine refines it\<close>

lemma abs_simps [simp]:
  "rules (abs_engine st) = entry_at st" "in_memory (abs_engine st) = store_all_in_memory st"
  "workflow (abs_engine st) = workflow_name st"
  by (simp_all add: abs_engine_def)

lemma abs_modify: "abs_engine (modify_at p f st) = spec_modify p f (abs_engine st)"
  by (simp add: abs_engine_def spec_modify_def fun_eq_iff entry_at_modify)

lemma new_entry_refines: "spec_new_entry P (abs_engine st) p (new_entry P p st)"
  using longest_match_cases [of P p "capio_cl_entries st"]
proof
  assume "longest_match P p (capio_cl_entries st) = ([], 0) \<and> matching P p (capio_cl_entries st) \<subseteq> {[]}"
  then show ?thesis
    using new_entry_default [of P p st] by (auto simp: spec_new_entry_def matching_def um.key_iff)
next
  assume "\<exists>k \<in> matching P p (capio_cl_entries st). k \<noteq> [] \<and> longest_match P p (capio_cl_entries st) = (k, length k) \<and>
      (\<forall>j \<in> matching P p (capio_cl_entries st). length j \<le> length k)"
  then obtain k where k: "k \<in> matching P p (capio_cl_entries st)" "k \<noteq> []"
    "longest_match P p (capio_cl_entries st) = (k, length k)"
    "\<forall>j \<in> matching P p (capio_cl_entries st). length j \<le> length k" by blast
  moreover from k(2) new_entry_inherits [OF k(3)] obtain d where "entry_at st k = Some d"
    "new_entry P p st = d\<lparr>store_in_memory := store_all_in_memory st \<or> store_in_memory d\<rparr>" by auto
  ultimately show ?thesis by (auto simp: spec_new_entry_def matching_def um.key_iff)
qed

lemma create_refines:
  assumes "engine_wf st"
  shows "spec_create P (abs_engine st) p (abs_engine (newFile_internal P p st))"
proof (cases "p = [] \<or> known st p")
  case True
  then have "newFile_internal P p st = st" by (auto simp: newFile_known)
  with True show ?thesis by (auto intro!: spec_create.there simp: known_def)
next
  case False
  let ?\<sigma> = "abs_engine st"
  have "abs_engine (newFile_internal P p st) =
      spec_count p (?\<sigma>\<lparr>rules := (rules ?\<sigma>)(p \<mapsto> new_entry P p st)\<rparr>)"
    using False assms
    by (auto simp: abs_engine_def spec_count_def spec_modify_def entry_at_newFile fun_eq_iff)
  with False spec_create.fresh [of p ?\<sigma> P "new_entry P p st"] new_entry_refines show ?thesis
    by (simp add: known_def)
qed

lemma update_refines:
  assumes "engine_wf st" and "p \<noteq> []"
  shows "\<exists>\<tau>. spec_create P (abs_engine st) p \<tau> \<and> abs_engine (update_entry P p f st) = spec_modify p f \<tau>"
  using create_refines [OF assms(1), of P p] by (auto simp: update_entry_eq [OF assms(2)] abs_modify)

lemma creates_refine:
  "engine_wf st \<Longrightarrow> spec_creates P (abs_engine st) ps (abs_engine (fold (newFile P) ps st))"
proof (induction ps arbitrary: st)
  case (Cons p ps)
  then show ?case
    using create_refines [OF Cons.prems, of P p] by (auto simp: newFile_def intro: spec_creates.some)
qed (simp add: spec_creates.none)

lemma directories_refine: "abs_engine (fold (setDirectory P) (getPaths st) st) = directories (abs_engine st)"
proof -
  have "store_all_in_memory (fold (setDirectory P) ps st) = store_all_in_memory st \<and>
      workflow_name (fold (setDirectory P) ps st) = workflow_name st" for ps
    by (rule fold_invariant [where I = "\<lambda>s. store_all_in_memory s = store_all_in_memory st \<and> workflow_name s = workflow_name st"])
      (auto simp: setDirectory_def)
  then show ?thesis by (simp add: abs_engine_def spec_all_def fun_eq_iff entry_at_all_directories)
qed

lemma known_directories [simp]: "rules (directories \<sigma>) q = None \<longleftrightarrow> rules \<sigma> q = None"
  by (simp add: spec_all_def)

lemma count_refines:
  assumes "engine_wf st"
  shows "spec_step P (abs_engine st) (SetDirectoryFileCount p n) (abs_engine (setDirectoryFileCount P p n st))"
proof (cases "p = []")
  case True
  then show ?thesis by (simp add: setDirectoryFileCount.simps [of P "[]"] spec_step.no_count)
next
  case False
  show ?thesis
  proof (cases "known st p")
    case True
    then have "abs_engine (setDirectoryFileCount P p n st) = spec_modify p (set_count n) (directories (abs_engine st))"
      using False by (simp add: setDirectoryFileCount_known abs_modify directories_refine)
    with True False show ?thesis by (simp add: spec_step.count known_def)
  next
    case unknown: False
    let ?s1 = "fold (setDirectory P) (getPaths st) st"
    let ?s = "newFile_internal P p ?s1"
    have "entry_at ?s1 p = None" using unknown False by (simp add: entry_at_all_directories known_def)
    then have "setDirectoryFileCount P p n st = setDirectoryFileCount P p n ?s"
      using False by (simp add: setDirectoryFileCount.simps [of P p n st] Let_def)
    also have "\<dots> = modify_at p (set_count n) (fold (setDirectory P) (getPaths ?s) ?s)"
      using False by (simp add: setDirectoryFileCount_known)
    finally have "abs_engine (setDirectoryFileCount P p n st) = spec_modify p (set_count n) (directories (abs_engine ?s))"
      by (simp add: abs_modify directories_refine)
    moreover have "spec_create P (directories (abs_engine st)) p (abs_engine ?s)"
      using create_refines [of ?s1 P p] assms by (simp add: directories_refine)
    ultimately show ?thesis using False unknown by (simp add: spec_step.count_new known_def)
  qed
qed

lemma deps_refine:
  assumes "engine_wf st"
  shows "spec_step P (abs_engine st) (SetFileDeps p ds) (abs_engine (setFileDeps P p ds st))"
proof (cases "p = [] \<or> ds = []")
  case True
  then show ?thesis by (auto simp: setFileDeps.simps [of P p ds st] spec_step.no_deps)
next
  case False
  have "spec_creates P (abs_engine st) (ds @ [p]) (abs_engine (newFile_internal P p (fold (newFile P) ds st)))"
    using creates_refine [OF assms, of P "ds @ [p]"] by (simp add: newFile_def)
  with False show ?thesis by (simp add: setFileDeps_eq abs_modify spec_step.deps)
qed

lemma dependency_refines:
  assumes "engine_wf st" and "addFileDependency P p d st = Inr st'"
  shows "spec_step P (abs_engine st) (AddFileDependency p d) (abs_engine st')"
proof (cases "p = []")
  case True
  with assms show ?thesis by (simp add: addFileDependency_eq spec_step.no_dependency)
next
  case False
  let ?f = "\<lambda>e. e\<lparr>file_dependencies := push_new path_eq d (file_dependencies e)\<rparr>"
  show ?thesis
  proof (cases "known st p")
    case True
    with assms False have "abs_engine st' = spec_modify p ?f (abs_engine st)"
      by (auto simp: addFileDependency_eq abs_modify)
    with False True show ?thesis by (simp add: spec_step.dependency known_def)
  next
    case unknown: False
    obtain \<tau> where \<tau>: "spec_create P (abs_engine st) p \<tau>"
      "abs_engine (update_entry P p (\<lambda>e. e\<lparr>commit_rule := ON_FILE\<rparr>) (newFile_internal P p st)) =
        spec_modify p (\<lambda>e. e\<lparr>commit_rule := ON_FILE\<rparr>) \<tau>"
      using create_refines [OF assms(1), of P p] False
      by (auto simp: update_entry_eq abs_modify)
    moreover have "abs_engine st' = spec_modify p (\<lambda>e. ?f (e\<lparr>commit_rule := ON_FILE\<rparr>)) \<tau>"
      using assms(2) False unknown \<tau>(2)
      by (auto simp: addFileDependency_eq abs_modify spec_modify_def option.map_comp comp_def)
    ultimately show ?thesis
      using False unknown spec_step.first_dependency [of p "abs_engine st" P \<tau> d] by (simp add: known_def)
  qed
qed

lemma memory_refines: "abs_engine (setAllStoreInMemory P st) =
    spec_all (\<lambda>e. e\<lparr>store_in_memory := True\<rparr>) ((abs_engine st)\<lparr>in_memory := True\<rparr>)"
proof -
  let ?init = "st\<lparr>store_all_in_memory := True\<rparr>" and ?f = "\<lambda>e. e\<lparr>store_in_memory := True\<rparr>"
  have fold: "setAllStoreInMemory P st = fold (\<lambda>p. update_entry P p ?f) (getPaths st) ?init"
    by (simp add: setAllStoreInMemory_def setStoreFileInMemory_def [abs_def] getPaths_def Let_def)
  have "list_all (known ?init) (getPaths st)"
    by (simp add: list_all_iff known_getPaths [of st, symmetric, simplified known_def] known_def del: not_None_eq)
  from entry_at_fold_update [OF this] have at: "entry_at (setAllStoreInMemory P st) q =
      (if q \<noteq> [] then map_option ?f (entry_at st q) else entry_at st q)" for q
    using known_getPaths [of st q] by (auto simp: fold known_def)
  have "workflow_name (setAllStoreInMemory P st) = workflow_name st"
    unfolding fold using fold_unchanged [of "getPaths st" workflow_name "\<lambda>p. update_entry P p ?f" ?init] by simp
  with at show ?thesis by (auto simp: abs_engine_def spec_all_def fun_eq_iff)
qed

lemma named_iff: "engine_wf st \<Longrightarrow>
  list_ex (\<lambda>(pattern, entry). fnmatch P pattern p \<and> n \<in> set (sel entry)) (capio_cl_entries st) \<longleftrightarrow>
    spec_named P sel (abs_engine st) p n"
  by (force simp: list_ex_iff spec_named_def engine_wf_def um_find_set)

text \<open>The calls by their kind.\<close>

lemma exec_update:
  assumes "update_of c = Some (p, f)" and "exec P c st = Inr (a, st')"
  shows "st' = update_entry P p f st"
  using assms
  by (cases c) (auto simp: update_of_def finish_def answers_def addProducer_eq addConsumer_eq setCommitRule_eq
      setFireRule_eq sanitize_commit_cases sanitize_fire_cases setPermanent_def setExclude_def setDirectory_def
      setFile_def setCommitedCloseNumber_def setStoreFileInMemory_def setStoreFileInFileSystem_def add_rule_def
      update_entry_eq split: if_splits)

lemma read_creates: "snd (read_entry P p d sel st) = newFile_internal P p st"
  by (cases "p = []") (simp_all add: read_entry_eq)

lemma isFile_creates: "snd (isFile P p st) = newFile_internal P p st"
  by (auto simp: isFile_def isPermanent_def read_creates newFile_existing split: option.split)

lemma exec_creates:
  assumes "creates c = Some p" and "exec P c st = Inr (a, st')"
  shows "st' = newFile_internal P p st"
  using assms isFile_creates [of P p st]
  by (cases c) (auto simp: creates_def finish_def answers_def newFile_def read_creates isFirable_def getCommitRule_def
      getFireRule_def getProducers_def getCommitCloseCount_def getDirectoryFileCount_def isExcluded_def
      isStoredInMemory_def isPermanent_def isDirectory_def case_prod_beta Let_def)

lemma exec_pure: "pure_call c \<Longrightarrow> exec P c st = Inr (a, st') \<Longrightarrow> st' = st"
  by (cases c) (auto simp: pure_call_def)

lemma add_entry_refines:
  assumes "engine_wf st"
  shows "spec_step P (abs_engine st) (AddEntry p e) (abs_engine (add_entry P p e st))"
proof (cases "entry_at st p")
  case None
  then have "abs_engine (add_entry P p e st) = (abs_engine st)\<lparr>rules := (rules (abs_engine st))(p \<mapsto> e)\<rparr>"
    using assms by (auto simp: add_entry_def abs_engine_def fun_eq_iff engine_wf_def um_find_emplace)
  with None spec_step.add_new [of "abs_engine st" p P e] show ?thesis by simp
next
  case (Some x)
  then have "abs_engine (add_entry P p e st) = spec_modify p (\<lambda>y. entry_merge y e) (abs_engine st)"
    by (simp add: add_entry_def abs_modify)
  with Some spec_step.add_more [of "abs_engine st" p P e] show ?thesis by simp
qed

lemma remove_refines: "spec_step P (abs_engine st) (Remove p) (abs_engine (remove_path p st))"
proof -
  have "abs_engine (remove_path p st) = (abs_engine st)\<lparr>rules := (rules (abs_engine st))(p := None)\<rparr>"
    by (auto simp: remove_path_def abs_engine_def fun_eq_iff um.find_erase)
  then show ?thesis using spec_step.removed [of P "abs_engine st" p] by simp
qed

lemma producer_refines:
  assumes "engine_wf st"
  shows "spec_step P (abs_engine st) (IsProducer p n) (abs_engine (snd (isProducer P p n st)))"
    and "spec_step P (abs_engine st) (IsConsumer p n) (abs_engine (snd (isConsumer P p n st)))"
  using create_refines [OF assms, of P p]
  by (auto simp: isProducer_def isConsumer_def named_iff [OF assms] intro: spec_step.producer spec_step.no_producer
      spec_step.consumer spec_step.no_consumer)

lemma call_refines:
  assumes wf: "engine_wf st" and run: "exec P c st = Inr (a, st')"
  shows "spec_step P (abs_engine st) c (abs_engine st')"
proof (cases "update_of c")
  case (Some pf)
  obtain p f where u: "update_of c = Some (p, f)" using Some by (cases pf) auto
  note st' = exec_update [OF u run]
  show ?thesis
  proof (cases "p = []")
    case True
    with u show ?thesis by (auto simp: st' intro: spec_step.no_path)
  next
    case False
    from update_refines [OF wf False, of P f] u False show ?thesis by (auto simp: st' intro: spec_step.writes)
  qed
next
  case no_update: None
  show ?thesis
  proof (cases "creates c")
    case (Some p)
    then show ?thesis
      using create_refines [OF wf, of P p] by (auto simp: exec_creates [OF Some run] intro: spec_step.read)
  next
    case no_create: None
    show ?thesis
    proof (cases "pure_call c")
      case True
      then show ?thesis using exec_pure [OF True run] by (simp add: spec_step.query)
    next
      case False
      show ?thesis
        using no_update no_create False run
      proof (cases c)
        case (AddEntry p e)
        with run add_entry_refines [OF wf] show ?thesis by (auto simp: finish_def)
      next
        case (Remove p)
        with run remove_refines show ?thesis by (auto simp: finish_def)
      next
        case (SetWorkflowName n)
        with run spec_step.named [of P "abs_engine st" n] show ?thesis
          by (auto simp: finish_def setWorkflowName_def abs_engine_def)
      next
        case (IsProducer p n)
        with run producer_refines(1) [OF wf] show ?thesis by (auto simp: answers_def)
      next
        case (IsConsumer p n)
        with run producer_refines(2) [OF wf] show ?thesis by (auto simp: answers_def)
      next
        case (AddFileDependency p d)
        with run show ?thesis by (auto simp: rbind_Inr_iff finish_def intro: dependency_refines [OF wf])
      next
        case (SetDirectoryFileCount p n)
        with run count_refines [OF wf] show ?thesis by (auto simp: finish_def)
      next
        case (SetFileDeps p ds)
        with run deps_refine [OF wf] show ?thesis by (auto simp: finish_def)
      next
        case SetAllStoreInMemory
        with run show ?thesis by (auto simp: finish_def memory_refines intro: spec_step.memory)
      qed (auto simp: update_of_def creates_def pure_call_def rbind_Inr_iff setCommitRule_eq setFireRule_eq split: if_splits)
    qed
  qed
qed

subsection \<open>Sessions\<close>

inductive spec_run :: "platform \<Rightarrow> call list \<Rightarrow> spec \<Rightarrow> bool" for P where
  start: "spec_run P [] (abs_engine (new_engine P))"
| step: "spec_run P cs \<sigma> \<Longrightarrow> spec_step P \<sigma> c \<tau> \<Longrightarrow> spec_run P (cs @ [c]) \<tau>"

lemma step_refines:
  assumes "engine_wf st" and "engine_step P st c st'"
  shows "spec_step P (abs_engine st) c (abs_engine st')"
  using assms(2)
proof cases
  case (returns a)
  with assms(1) show ?thesis by (blast intro: call_refines)
next
  case (throws ex)
  then have "refused c" using exec_error_iff by blast
  with throws show ?thesis by (simp add: spec_step.refused)
qed

text \<open>
  C2. The engine implements its specification: every sequence of public calls, whatever it returns
  or throws and whatever the iteration order of the hash map is, does to the rules what the
  specification allows, which knows no order and creates a path from one of its longest matches.
\<close>

theorem engine_refines_spec:
  assumes "reachable P cs st"
  shows "spec_run P cs (abs_engine st)"
  using assms
proof (induction rule: reachable.induct)
  case fresh
  show ?case by (rule spec_run.start)
next
  case (later cs st c st')
  from later.IH step_refines [OF wf_reachable [OF later.hyps(1)] later.hyps(2)] show ?case by (rule spec_run.step)
qed

theorem engine_refines_spec_witness:
  "spec_run \<lparr>fnmatch = (=), bucket_rank = (\<lambda>_ _. 0), hostname = ''n'', env_workflow_name = None\<rparr>
     [SetPermanent ''a'' True, SetCommitRule ''a'' ''bad'']
     (abs_engine (run_calls \<lparr>fnmatch = (=), bucket_rank = (\<lambda>_ _. 0), hostname = ''n'', env_workflow_name = None\<rparr>
        [SetPermanent ''a'' True, SetCommitRule ''a'' ''bad'']
        (new_engine \<lparr>fnmatch = (=), bucket_rank = (\<lambda>_ _. 0), hostname = ''n'', env_workflow_name = None\<rparr>)))"
  by (rule engine_refines_spec) (simp add: reachable_run)

end
