(* ===== verification/CL_Concurrent.thy ===== *)
theory CL_Concurrent
  imports CL_Session
begin

text \<open>
  The public calls of one engine made by several threads. \<open>Engine\<close> has one shared mutex, but a call
  is not one critical section: most setters and getters look the path up under the lock, release it
  when the path is missing, create the path and start again, and between two of their sections the
  other threads run. \<open>CL_Engine\<close> describes each call alone; here a call is the sequence of its
  critical sections, threads are interleaved at section boundaries, and the two descriptions are
  proved to agree for a call that nothing interrupts.

  \<open>getDirectoryFileCount\<close> calls \<open>_newFile\<close> without the lock. Done while another thread is inside a
  call this is a data race, undefined in C++: such a step is not part of the model (\<open>may_run\<close>).
\<close>

subsection \<open>Critical sections\<close>

text \<open>What a setter writes into the entry it finds, and what the call returns then.\<close>

datatype member_write =
    WCommit string
  | WFire string
  | WPermanent bool
  | WExclude bool
  | WIsFile bool
  | WCloseCount long
  | WMemory bool
  | WProducer string
  | WConsumer string

primrec apply_write :: "member_write \<Rightarrow> CapioCLEntry \<Rightarrow> CapioCLEntry" where
  "apply_write (WCommit r) e = e\<lparr>commit_rule := r\<rparr>"
| "apply_write (WFire r) e = e\<lparr>fire_rule := r\<rparr>"
| "apply_write (WPermanent b) e = e\<lparr>permanent := b\<rparr>"
| "apply_write (WExclude b) e = e\<lparr>excluded := b\<rparr>"
| "apply_write (WIsFile b) e = e\<lparr>is_file := b\<rparr>"
| "apply_write (WCloseCount n) e = e\<lparr>commit_on_close_count := n\<rparr>"
| "apply_write (WMemory b) e = e\<lparr>store_in_memory := b\<rparr>"
| "apply_write (WProducer p) e = e\<lparr>producers := push_new (=) (erase_spaces p) (producers e)\<rparr>"
| "apply_write (WConsumer c) e = e\<lparr>consumers := push_new (=) (erase_spaces c) (consumers e)\<rparr>"

lemma apply_write_abs:
  "apply_write (WCommit r) = (\<lambda>e. e\<lparr>commit_rule := r\<rparr>)" "apply_write (WFire r) = (\<lambda>e. e\<lparr>fire_rule := r\<rparr>)"
  "apply_write (WPermanent b) = (\<lambda>e. e\<lparr>permanent := b\<rparr>)" "apply_write (WExclude b) = (\<lambda>e. e\<lparr>excluded := b\<rparr>)"
  "apply_write (WIsFile b) = (\<lambda>e. e\<lparr>is_file := b\<rparr>)" "apply_write (WMemory b) = (\<lambda>e. e\<lparr>store_in_memory := b\<rparr>)"
  "apply_write (WCloseCount n) = (\<lambda>e. e\<lparr>commit_on_close_count := n\<rparr>)"
  "apply_write (WProducer p) = (\<lambda>e. e\<lparr>producers := push_new (=) (erase_spaces p) (producers e)\<rparr>)"
  "apply_write (WConsumer p) = (\<lambda>e. e\<lparr>consumers := push_new (=) (erase_spaces p) (consumers e)\<rparr>)"
  by (rule ext; simp)+

fun wrote :: "member_write \<Rightarrow> answer" where
  "wrote (WProducer p) = TheString (erase_spaces p)"
| "wrote (WConsumer c) = TheString (erase_spaces c)"
| "wrote w = Done"

text \<open>\<open>addProducer\<close> and \<open>addConsumer\<close> strip the caller's string before they look, so they retry with it stripped.\<close>

fun retried :: "member_write \<Rightarrow> member_write" where
  "retried (WProducer p) = WProducer (erase_spaces p)"
| "retried (WConsumer c) = WConsumer (erase_spaces c)"
| "retried w = w"

text \<open>
  The critical sections. \<open>Write\<close> creates a missing path in the section that missed it, \<open>WriteRelease\<close>
  in the next one; \<open>Create False\<close> is the creation without the lock. A \<open>Read\<close> that misses may go on
  with another member (\<open>isFile\<close>).
\<close>

datatype (plugins only: code size) critical =
    Whole call
  | Create bool string
  | Write string member_write
  | WriteRelease string member_write
  | Depend string string
  | Read bool string "CapioCLEntry \<Rightarrow> answer" "CapioCLEntry \<Rightarrow> answer"
  | Scan string "CapioCLEntry \<Rightarrow> string list" string
  | FileDeps string "string list"
  | MarkAll string long
  | Count string long
  | RaiseFlag
  | StoreAll

text \<open>The writes of a loop over \<open>getPaths()\<close>; for an empty path the setter returns before it locks.\<close>

definition write_all :: "member_write \<Rightarrow> engine \<Rightarrow> critical list" where
  "write_all w st = map (\<lambda>q. Write q w) (filter (\<lambda>q. q \<noteq> []) (getPaths st))"

text \<open>
  One critical section: the sections the call does next in its place, the value it returns if nothing
  later changes it, and the engine.
\<close>

primrec run_section :: "platform \<Rightarrow> critical \<Rightarrow> engine \<Rightarrow> critical list \<times> answer option \<times> engine" where
  "run_section P (Whole c) st = (case exec P c st of Inr (a, st') \<Rightarrow> ([], Some a, st') | Inl _ \<Rightarrow> ([], None, st))"
| "run_section P (Create locked path) st = ([], None, newFile_internal P path st)"
| "run_section P (Write path w) st =
     (case entry_at st path of
        Some _ \<Rightarrow> ([], Some (wrote w), modify_at path (apply_write w) st)
      | None \<Rightarrow> ([Write path w], None, newFile_internal P path st))"
| "run_section P (WriteRelease path w) st =
     (case entry_at st path of
        Some _ \<Rightarrow> ([], Some (wrote w), modify_at path (apply_write w) st)
      | None \<Rightarrow> ([Create True path, WriteRelease path (retried w)], None, st))"
| "run_section P (Depend path d) st =
     (case entry_at st path of
        Some _ \<Rightarrow> ([], Some Done, modify_at path (\<lambda>e. e\<lparr>file_dependencies := push_new path_eq d (file_dependencies e)\<rparr>) st)
      | None \<Rightarrow> ([Create True path, WriteRelease path (WCommit ON_FILE), Depend path d], None, st))"
| "run_section P (Read locked path sel miss) st =
     (case entry_at st path of
        Some e \<Rightarrow> ([], Some (sel e), st)
      | None \<Rightarrow> ([Create locked path, Read locked path miss miss], None, st))"
| "run_section P (Scan path sel app_name) st =
     (if list_ex (\<lambda>(pattern, entry). fnmatch P pattern path \<and> app_name \<in> set (sel entry)) (capio_cl_entries st)
      then ([], Some (TheBool True), st)
      else ([Create True path], Some (TheBool False), st))"
| "run_section P (FileDeps path deps) st =
     (case entry_at st path of
        Some _ \<Rightarrow> ([], Some Done, modify_at path (\<lambda>e. e\<lparr>file_dependencies := deps\<rparr>) st)
      | None \<Rightarrow> (map (Create True) deps @ [FileDeps path deps], None, newFile_internal P path st))"
| "run_section P (MarkAll path num) st = (write_all (WIsFile False) st @ [Count path num], None, st)"
| "run_section P (Count path num) st =
     (case entry_at st path of
        Some _ \<Rightarrow> ([], Some Done, modify_at path
          (\<lambda>e. e\<lparr>directory_children_count := num, enable_directory_count_update := False\<rparr>) st)
      | None \<Rightarrow> ([MarkAll path num], None, newFile_internal P path st))"
| "run_section P RaiseFlag st = ([], None, st\<lparr>store_all_in_memory := True\<rparr>)"
| "run_section P StoreAll st = (write_all (WMemory True) st, Some Done, st)"

subsection \<open>Calls as sequences of critical sections\<close>

definition whole :: "call \<Rightarrow> exn + critical list \<times> answer" where
  "whole c = Inr ([Whole c], Done)"

definition setter :: "string \<Rightarrow> critical list \<Rightarrow> exn + critical list \<times> answer" where
  "setter path ss = Inr (if path = [] then [] else ss, Done)"

definition getter :: "string \<Rightarrow> answer \<Rightarrow> critical \<Rightarrow> exn + critical list \<times> answer" where
  "getter path dflt s = Inr (if path = [] then ([], dflt) else ([s], dflt))"

definition reader :: "string \<Rightarrow> answer \<Rightarrow> (CapioCLEntry \<Rightarrow> answer) \<Rightarrow> exn + critical list \<times> answer" where
  "reader path dflt sel = getter path dflt (Read True path sel sel)"

text \<open>What a call does before it takes the lock for the first time, and the sections it starts with.\<close>

primrec begin_call :: "call \<Rightarrow> exn + critical list \<times> answer" where
  "begin_call (Contains path) = whole (Contains path)"
| "begin_call SizeOf = whole SizeOf"
| "begin_call (AddRule path ps cs commit fire perm excl deps) =
     setter path [Whole (AddRule path ps cs commit fire perm excl deps)]"
| "begin_call (AddEntry path e) = whole (AddEntry path e)"
| "begin_call (AddProducer path p) =
     Inr (if path = [] then ([], TheString p) else ([WriteRelease path (WProducer p)], TheString p))"
| "begin_call (AddConsumer path c) =
     Inr (if path = [] then ([], TheString c) else ([WriteRelease path (WConsumer c)], TheString c))"
| "begin_call (AddFileDependency path d) = setter path [Depend path d]"
| "begin_call (NewFile path) = whole (NewFile path)"
| "begin_call (Remove path) = whole (Remove path)"
| "begin_call (SetCommitRule path r) =
     (if path = [] then Inr ([], Done)
      else rbind (sanitize_commit r) (\<lambda>commit. Inr ([WriteRelease path (WCommit commit)], Done)))"
| "begin_call (SetFireRule path r) =
     (if path = [] then Inr ([], Done)
      else rbind (sanitize_fire r) (\<lambda>fire. Inr ([Write path (WFire fire)], Done)))"
| "begin_call (SetPermanent path b) = setter path [Write path (WPermanent b)]"
| "begin_call (SetExclude path b) = setter path [Write path (WExclude b)]"
| "begin_call (SetDirectory path) = setter path [Write path (WIsFile False)]"
| "begin_call (SetFile path) = setter path [Write path (WIsFile True)]"
| "begin_call (SetCommitedCloseNumber path n) = setter path [Write path (WCloseCount n)]"
| "begin_call (SetDirectoryFileCount path n) = setter path [MarkAll path n]"
| "begin_call (SetFileDeps path deps) =
     Inr (if path = [] \<or> deps = [] then [] else map (Create True) deps @ [FileDeps path deps], Done)"
| "begin_call (SetStoreFileInMemory path) = setter path [Write path (WMemory True)]"
| "begin_call SetAllStoreInMemory = Inr ([RaiseFlag, StoreAll], Done)"
| "begin_call (SetStoreFileInFileSystem path) = setter path [Write path (WMemory False)]"
| "begin_call (SetWorkflowName name) = whole (SetWorkflowName name)"
| "begin_call (GetDirectoryFileCount path) =
     getter path (TheLong 0)
       (Read False path (\<lambda>e. TheLong (directory_children_count e)) (\<lambda>e. TheLong (directory_children_count e)))"
| "begin_call (GetCommitRule path) = reader path (TheString ON_TERMINATION) (\<lambda>e. TheString (commit_rule e))"
| "begin_call (GetFireRule path) = reader path (TheString NO_UPDATE) (\<lambda>e. TheString (fire_rule e))"
| "begin_call (GetProducers path) = reader path (TheStrings []) (\<lambda>e. TheStrings (producers e))"
| "begin_call (GetConsumers path) = whole (GetConsumers path)"
| "begin_call (GetCommitCloseCount path) = reader path (TheLong 0) (\<lambda>e. TheLong (commit_on_close_count e))"
| "begin_call (GetCommitOnFileDependencies path) = whole (GetCommitOnFileDependencies path)"
| "begin_call GetFileToStoreInMemory = whole GetFileToStoreInMemory"
| "begin_call GetWorkflowName = whole GetWorkflowName"
| "begin_call (IsProducer path app_name) = getter path (TheBool True) (Scan path producers app_name)"
| "begin_call (IsConsumer path app_name) = getter path (TheBool True) (Scan path consumers app_name)"
| "begin_call (IsFirable path) = reader path (TheBool True) (\<lambda>e. TheBool (fire_rule e = NO_UPDATE))"
| "begin_call (IsFile path) =
     getter path (TheBool True) (Read True path (\<lambda>e. TheBool (is_file e)) (\<lambda>e. TheBool (permanent e)))"
| "begin_call (IsExcluded path) = reader path (TheBool True) (\<lambda>e. TheBool (excluded e))"
| "begin_call (IsDirectory path) =
     getter path (TheBool True) (Read True path (\<lambda>e. TheBool (\<not> is_file e)) (\<lambda>e. TheBool (\<not> permanent e)))"
| "begin_call (IsStoredInMemory path) = reader path (TheBool True) (\<lambda>e. TheBool (store_in_memory e))"
| "begin_call (IsPermanent path) = reader path (TheBool True) (\<lambda>e. TheBool (permanent e))"
| "begin_call GetPaths = whole GetPaths"

subsection \<open>A call alone\<close>

definition answered :: "answer option \<Rightarrow> answer \<Rightarrow> answer" where
  "answered b a = (case b of Some x \<Rightarrow> x | None \<Rightarrow> a)"

lemma answered_simps [simp]: "answered None a = a" "answered (Some x) a = x"
  by (simp_all add: answered_def)

inductive alone :: "platform \<Rightarrow> critical list \<Rightarrow> answer \<Rightarrow> engine \<Rightarrow> answer \<Rightarrow> engine \<Rightarrow> bool" for P where
  finished: "alone P [] a st a st"
| enters: "run_section P s st = (ns, b, st1) \<Longrightarrow> alone P (ns @ ss) (answered b a) st1 a' st' \<Longrightarrow>
    alone P (s # ss) a st a' st'"

inductive_simps alone_Nil [simp]: "alone P [] a st a' st'"
inductive_simps alone_Cons: "alone P (s # ss) a st a' st'"

lemma alone_Cons_iff:
  "alone P (s # ss) a st a' st' \<longleftrightarrow>
     (case run_section P s st of (ns, b, st1) \<Rightarrow> alone P (ns @ ss) (answered b a) st1 a' st')"
  by (auto simp: alone_Cons)

lemma alone_append:
  "alone P xs a st a' st' \<Longrightarrow> alone P ys a' st' b st2 \<Longrightarrow> alone P (xs @ ys) a st b st2"
  by (induction rule: alone.induct) (auto intro: alone.enters)

lemma alone_deterministic:
  "alone P ss a st a1 st1 \<Longrightarrow> alone P ss a st a2 st2 \<Longrightarrow> a1 = a2 \<and> st1 = st2"
proof (induction arbitrary: a2 st2 rule: alone.induct)
  case (enters s st ns b st1 ss a a' st')
  then show ?case by (auto simp: alone_Cons_iff)
qed simp

lemma alone_determines: "alone P ss a st x y \<Longrightarrow> alone P ss a st a' st' \<longleftrightarrow> a' = x \<and> st' = y"
  using alone_deterministic by blast

text \<open>What the sections do to one path, run without interruption.\<close>

lemma alone_write:
  assumes "path \<noteq> []"
  shows "alone P [Write path w] a st (wrote w) (update_entry P path (apply_write w) st)"
proof (cases "known st path")
  case True
  then show ?thesis using assms by (auto simp: alone_Cons_iff known_def update_entry_eq newFile_existing)
next
  case False
  obtain e where "entry_at (newFile_internal P path st) path = Some e"
    using newFile_present [OF assms] by blast
  with False assms show ?thesis by (simp add: alone_Cons_iff known_def update_entry_eq)
qed

lemma apply_retried [simp]: "apply_write (retried w) = apply_write w" "wrote (retried w) = wrote w"
  by (cases w; auto)+

lemma alone_write_release:
  assumes "path \<noteq> []"
  shows "alone P [WriteRelease path w] a st (wrote w) (update_entry P path (apply_write w) st)"
proof (cases "known st path")
  case True
  then show ?thesis using assms by (auto simp: alone_Cons_iff known_def update_entry_eq newFile_existing)
next
  case False
  obtain e where "entry_at (newFile_internal P path st) path = Some e"
    using newFile_present [OF assms] by blast
  with False assms show ?thesis by (simp add: alone_Cons_iff known_def update_entry_eq)
qed

lemma alone_depend:
  assumes "path \<noteq> []" and "addFileDependency P path d st = Inr st'"
  shows "alone P [Depend path d] a st Done st'"
proof (cases "known st path")
  case True
  then show ?thesis using assms by (auto simp: alone_Cons_iff known_def addFileDependency_eq)
next
  case False
  let ?s = "newFile_internal P path st"
  let ?t = "update_entry P path (\<lambda>e. e\<lparr>commit_rule := ON_FILE\<rparr>) ?s"
  obtain e where e: "entry_at ?s path = Some e" using newFile_present [OF assms(1)] by blast
  obtain e' where e': "entry_at ?t path = Some e'" using update_entry_present [OF assms(1)] by blast
  then have "entry_at (modify_at path (\<lambda>e. e\<lparr>commit_rule := ON_FILE\<rparr>) ?s) path = Some e'"
    using assms(1) by (simp add: update_entry_eq)
  with False assms e show ?thesis
    by (auto simp: alone_Cons_iff known_def addFileDependency_eq update_entry_eq apply_write_abs)
qed

lemma alone_read:
  assumes "path \<noteq> []"
  shows "alone P [Read locked path sel miss] a st
    (if known st path then sel (the (entry_at st path)) else miss (the (entry_at (newFile_internal P path st) path)))
    (newFile_internal P path st)"
proof (cases "known st path")
  case True
  then show ?thesis by (auto simp: alone_Cons_iff known_def newFile_existing)
next
  case False
  obtain e where "entry_at (newFile_internal P path st) path = Some e"
    using newFile_present [OF assms] by blast
  with False show ?thesis by (simp add: alone_Cons_iff known_def)
qed

lemma alone_creates: "alone P (map (Create True) ds) a st a (fold (newFile P) ds st)"
  by (induction ds arbitrary: st) (simp_all add: alone_Cons_iff newFile_def)

lemma alone_writes:
  assumes "list_all (\<lambda>q. q \<noteq> []) ps" and "wrote w = Done"
  shows "alone P (map (\<lambda>q. Write q w) ps) Done st Done (fold (\<lambda>q. update_entry P q (apply_write w)) ps st)"
  using assms
proof (induction ps arbitrary: st)
  case (Cons q ps)
  have "alone P [Write q w] Done st Done (update_entry P q (apply_write w) st)"
    using alone_write [of q P w Done st] Cons.prems by simp
  moreover have "alone P (map (\<lambda>q. Write q w) ps) Done (update_entry P q (apply_write w) st) Done
      (fold (\<lambda>q. update_entry P q (apply_write w)) ps (update_entry P q (apply_write w) st))"
    by (rule Cons.IH) (use Cons.prems in simp_all)
  ultimately show ?case using alone_append by fastforce
qed simp

lemma fold_update_filter:
  "fold (\<lambda>q. update_entry P q f) (filter (\<lambda>q. q \<noteq> []) ps) st = fold (\<lambda>q. update_entry P q f) ps st"
  by (induction ps arbitrary: st) simp_all

lemma alone_write_all:
  assumes "wrote w = Done"
  shows "alone P (write_all w st) Done st Done (fold (\<lambda>q. update_entry P q (apply_write w)) (getPaths st) st)"
  using alone_writes [of "filter (\<lambda>q. q \<noteq> []) (getPaths st)" w P st] assms
  by (simp add: write_all_def fold_update_filter list_all_iff)

text \<open>The two operations that loop over dependencies or over all paths.\<close>

lemma alone_fileDeps:
  assumes "path \<noteq> []" and "deps \<noteq> []"
  shows "alone P (map (Create True) deps @ [FileDeps path deps]) Done st Done (setFileDeps P path deps st)"
proof -
  let ?s = "fold (newFile P) deps st"
  have start: "alone P (map (Create True) deps @ [FileDeps path deps]) Done st Done st'"
    if "alone P [FileDeps path deps] Done ?s Done st'" for st'
    using alone_append [OF alone_creates that] .
  let ?t = "newFile_internal P path ?s"
  have again: "fold (newFile P) deps ?t = ?t"
    by (rule fold_newFile_known) (auto simp: list_all_iff intro!: known_newFile_mono known_fold_newFile)
  obtain e where e: "entry_at ?t path = Some e" using newFile_present [OF assms(1)] by blast
  have finish: "alone P [FileDeps path deps] Done ?t Done (modify_at path (\<lambda>e. e\<lparr>file_dependencies := deps\<rparr>) ?t)"
    using e by (simp add: alone_Cons_iff)
  have "alone P (map (Create True) deps @ [FileDeps path deps]) Done ?t Done
      (modify_at path (\<lambda>e. e\<lparr>file_dependencies := deps\<rparr>) ?t)"
  proof (rule alone_append [OF _ finish])
    show "alone P (map (Create True) deps) Done ?t Done ?t" using alone_creates [of P deps Done ?t] by (simp only: again)
  qed
  then have "alone P [FileDeps path deps] Done ?s Done (modify_at path (\<lambda>e. e\<lparr>file_dependencies := deps\<rparr>) ?t)"
    by (cases "known ?s path") (auto simp: alone_Cons_iff known_def newFile_existing)
  with start show ?thesis by (simp add: setFileDeps_eq [OF assms])
qed

lemma alone_markAll:
  assumes "path \<noteq> []"
  shows "alone P [MarkAll path num] Done st Done (setDirectoryFileCount P path num st)"
  using assms
proof (induction P path num st rule: setDirectoryFileCount.induct)
  case (1 P path num st)
  let ?s = "fold (setDirectory P) (getPaths st) st"
  have marks: "alone P (write_all (WIsFile False) st) Done st Done ?s"
    using alone_write_all [of "WIsFile False" P st] by (simp add: apply_write_abs setDirectory_def [abs_def])
  have "alone P [Count path num] Done ?s Done (setDirectoryFileCount P path num st)"
  proof (cases "entry_at ?s path")
    case None
    then have "setDirectoryFileCount P path num st = setDirectoryFileCount P path num (newFile_internal P path ?s)"
      using "1.prems" by (simp add: setDirectoryFileCount.simps [of P path num st])
    with 1 None show ?thesis by (simp add: alone_Cons_iff)
  next
    case (Some e)
    with "1.prems" show ?thesis by (simp add: alone_Cons_iff setDirectoryFileCount.simps [of P path num st])
  qed
  from alone_append [OF marks this] show ?case by (simp add: alone_Cons_iff)
qed

lemma alone_storeAll: "alone P [RaiseFlag, StoreAll] Done st Done (setAllStoreInMemory P st)"
  using alone_write_all [of "WMemory True" P "st\<lparr>store_all_in_memory := True\<rparr>"]
  by (simp add: alone_Cons_iff setAllStoreInMemory_def apply_write_abs setStoreFileInMemory_def [abs_def] Let_def)

lemma begin_call_iff:
  "exec P c st = Inl ex \<longleftrightarrow> begin_call c = Inl ex"
  by (cases c) (auto simp: whole_def setter_def getter_def reader_def finish_def answers_def addFileDependency_never_throws
      setCommitRule_Inl_iff setFireRule_Inl_iff sanitize_commit_cases sanitize_fire_cases)

text \<open>The entry a getter reads after its path is known or created.\<close>

lemma alone_reader:
  assumes "path \<noteq> []"
  shows "alone P [Read locked path sel sel] a st (sel (the (entry_at (newFile_internal P path st) path))) (newFile_internal P path st)"
  using alone_read [OF assms, of P locked sel sel a st] by (auto simp: newFile_known split: if_splits)

lemma alone_scan:
  "path \<noteq> [] \<Longrightarrow>
   alone P [Scan path sel n] a st
     (TheBool (list_ex (\<lambda>(pattern, entry). fnmatch P pattern path \<and> n \<in> set (sel entry)) (capio_cl_entries st)))
     (if list_ex (\<lambda>(pattern, entry). fnmatch P pattern path \<and> n \<in> set (sel entry)) (capio_cl_entries st)
      then st else newFile_internal P path st)"
  by (simp add: alone_Cons_iff)

lemma isFile_Nil: "isFile P [] st = (True, st)"
  by (simp add: isFile_def)

lemma isFile_eq:
  "path \<noteq> [] \<Longrightarrow> isFile P path st =
     (if known st path then is_file (the (entry_at st path)) else permanent (the (entry_at (newFile_internal P path st) path)),
      newFile_internal P path st)"
  by (auto simp: isFile_def known_def isPermanent_def read_entry_eq newFile_existing split: option.split)

lemmas call_simps = alone_Cons_iff [of _ "Whole c" for c] alone_write [THEN alone_determines]
  alone_write_release [THEN alone_determines] alone_reader [THEN alone_determines] apply_write_abs
  setPermanent_def setExclude_def setDirectory_def setFile_def setCommitedCloseNumber_def setStoreFileInMemory_def
  setStoreFileInFileSystem_def getCommitRule_def getFireRule_def getProducers_def getCommitCloseCount_def
  getDirectoryFileCount_def isFirable_def isExcluded_def isStoredInMemory_def isPermanent_def

lemma alone_exec:
  assumes "exec P c st = Inr (a, st')"
  shows "\<exists>ss b. begin_call c = Inr (ss, b) \<and> alone P ss b st a st'"
proof (cases c)
  case (AddFileDependency path d)
  with assms alone_depend [of path P d st st' Done] show ?thesis
    by (cases "path = []") (auto simp: setter_def finish_def rbind_Inr_iff addFileDependency_eq)
next
  case (SetFileDeps path deps)
  with assms alone_fileDeps [of path deps P st] show ?thesis
    by (auto simp: finish_def setFileDeps.simps [of P path deps st])
next
  case (SetDirectoryFileCount path n)
  with assms alone_markAll [of path P n st] show ?thesis
    by (auto simp: finish_def setter_def setDirectoryFileCount.simps [of P path n st])
next
  case (AddRule path ps cs commit fire perm excl deps)
  with assms show ?thesis by (auto simp: finish_def setter_def alone_Cons_iff add_rule_def)
next
  case SetAllStoreInMemory
  with assms alone_storeAll [of P st] show ?thesis by (auto simp: finish_def)
next
  case (IsFile path)
  with assms alone_read [of path P True "\<lambda>e. TheBool (is_file e)" "\<lambda>e. TheBool (permanent e)" "TheBool True" st] show ?thesis
    by (cases "path = []") (auto simp: answers_def getter_def isFile_eq isFile_Nil split: if_splits)
next
  case (IsDirectory path)
  with assms alone_read [of path P True "\<lambda>e. TheBool (\<not> is_file e)" "\<lambda>e. TheBool (\<not> permanent e)" "TheBool True" st] show ?thesis
    by (cases "path = []") (auto simp: answers_def getter_def isDirectory_def isFile_eq split: if_splits)
next
  case (IsProducer path n)
  with assms alone_scan [of path P producers n "TheBool True" st] show ?thesis
    by (cases "path = []") (auto simp: answers_def getter_def isProducer_def split: if_splits)
next
  case (IsConsumer path n)
  with assms alone_scan [of path P consumers n "TheBool True" st] show ?thesis
    by (cases "path = []") (auto simp: answers_def getter_def isConsumer_def split: if_splits)
qed (use assms in \<open>auto simp: whole_def setter_def getter_def reader_def finish_def answers_def call_simps
      rbind_Inr_iff setCommitRule_eq setFireRule_eq sanitize_commit_cases sanitize_fire_cases read_entry_eq
      addProducer_eq addConsumer_eq split: if_splits\<close>)

subsection \<open>Threads\<close>

datatype (plugins only: code size) thread =
    Idle
  | Running call "critical list" answer

datatype (plugins only: code size) event =
    Called nat call
  | Threw nat call exn
  | Stepped nat
  | Returned nat call answer

definition idle :: "thread \<Rightarrow> bool" where
  "idle t = (case t of Idle \<Rightarrow> True | Running _ _ _ \<Rightarrow> False)"

definition locked :: "critical \<Rightarrow> bool" where
  "locked s = (case s of Create l _ \<Rightarrow> l | _ \<Rightarrow> True)"

text \<open>A step without the lock is defined only while no other thread is inside a call.\<close>

definition may_run :: "critical \<Rightarrow> nat \<Rightarrow> thread list \<Rightarrow> bool" where
  "may_run s i T \<longleftrightarrow> locked s \<or> list_all (\<lambda>j. j = i \<or> idle (T ! j)) [0..<length T]"

inductive conc_step :: "platform \<Rightarrow> engine \<times> thread list \<Rightarrow> event \<Rightarrow> engine \<times> thread list \<Rightarrow> bool" for P where
  called: "i < length T \<Longrightarrow> T ! i = Idle \<Longrightarrow> begin_call c = Inr (ss, a) \<Longrightarrow>
    conc_step P (st, T) (Called i c) (st, T[i := Running c ss a])"
| threw: "i < length T \<Longrightarrow> T ! i = Idle \<Longrightarrow> begin_call c = Inl ex \<Longrightarrow>
    conc_step P (st, T) (Threw i c ex) (st, T)"
| stepped: "i < length T \<Longrightarrow> T ! i = Running c (s # ss) a \<Longrightarrow> may_run s i T \<Longrightarrow> run_section P s st = (ns, b, st') \<Longrightarrow>
    conc_step P (st, T) (Stepped i) (st', T[i := Running c (ns @ ss) (answered b a)])"
| returned: "i < length T \<Longrightarrow> T ! i = Running c [] a \<Longrightarrow>
    conc_step P (st, T) (Returned i c a) (st, T[i := Idle])"

inductive_cases conc_stepE: "conc_step P (st, T) ev (st', T')"

text \<open>The runs of \<open>n\<close> threads on a new engine, with their events in order.\<close>

inductive conc_run :: "platform \<Rightarrow> nat \<Rightarrow> event list \<Rightarrow> engine \<times> thread list \<Rightarrow> bool" for P n where
  begins: "conc_run P n [] (new_engine P, replicate n Idle)"
| goes_on: "conc_run P n evs s \<Longrightarrow> conc_step P s ev s' \<Longrightarrow> conc_run P n (evs @ [ev]) s'"

inductive_cases conc_run_snocE: "conc_run P n (evs @ [ev]) s"

definition calls_of :: "event list \<Rightarrow> call list" where
  "calls_of evs = concat (map (\<lambda>ev. case ev of Called _ c \<Rightarrow> [c] | _ \<Rightarrow> []) evs)"

lemma calls_of_simps [simp]:
  "calls_of [] = []" "calls_of (xs @ ys) = calls_of xs @ calls_of ys"
  "calls_of (Called i c # xs) = c # calls_of xs" "calls_of (Threw i c ex # xs) = calls_of xs"
  "calls_of (Stepped i # xs) = calls_of xs" "calls_of (Returned i c a # xs) = calls_of xs"
  by (simp_all add: calls_of_def)

text \<open>Facts about what the threads still have to do, kept by every step that keeps them.\<close>

definition pending :: "thread \<Rightarrow> critical list" where
  "pending t = (case t of Idle \<Rightarrow> [] | Running _ ss _ \<Rightarrow> ss)"

lemma pending_simps [simp]: "pending Idle = []" "pending (Running c ss a) = ss"
  by (simp_all add: pending_def)

definition all_pending :: "(critical \<Rightarrow> bool) \<Rightarrow> thread list \<Rightarrow> bool" where
  "all_pending Q T \<longleftrightarrow> list_all (\<lambda>t. list_all Q (pending t)) T"

lemma all_pending_update: "all_pending Q T \<Longrightarrow> list_all Q (pending t) \<Longrightarrow> all_pending Q (T[i := t])"
  using set_update_subset_insert [of T i t] by (auto simp: all_pending_def list_all_iff)

lemma all_pending_nth: "all_pending Q T \<Longrightarrow> i < length T \<Longrightarrow> list_all Q (pending (T ! i))"
  by (simp add: all_pending_def list_all_length)

lemma all_pending_start [simp]: "all_pending Q (replicate n Idle)"
  by (simp add: all_pending_def list_all_iff)

text \<open>
  An invariant of the engine and one of the pending sections, established together: what holds of the
  first sections of a call, and what a section that has it hands on.
\<close>

locale section_invariant =
  fixes P :: platform and J :: "engine \<Rightarrow> bool" and Q :: "critical \<Rightarrow> bool" and ok :: "call \<Rightarrow> bool"
  assumes J_new: "J (new_engine P)"
    and Q_begin: "ok c \<Longrightarrow> begin_call c = Inr (ss, a) \<Longrightarrow> list_all Q ss"
    and J_section: "J st \<Longrightarrow> Q s \<Longrightarrow> run_section P s st = (ns, b, st') \<Longrightarrow> J st'"
    and Q_section: "J st \<Longrightarrow> Q s \<Longrightarrow> run_section P s st = (ns, b, st') \<Longrightarrow> list_all Q ns"
begin

lemma invariant_run:
  assumes "conc_run P n evs (st, T)" and "list_all ok (calls_of evs)"
  shows "J st \<and> all_pending Q T"
proof -
  have "J (fst s) \<and> all_pending Q (snd s)" if "conc_run P n evs s" "list_all ok (calls_of evs)" for s
    using that
  proof (induction rule: conc_run.induct)
    case begins
    then show ?case using J_new by simp
  next
    case (goes_on evs s ev s')
    have inv: "J (fst s)" "all_pending Q (snd s)" using goes_on by simp_all
    from goes_on.hyps(2) show ?case
    proof (cases rule: conc_step.cases)
      case (called i T c ss a st)
      then have "ok c" using goes_on.prems by simp
      with called inv Q_begin [of c ss a] show ?thesis by (simp add: all_pending_update)
    next
      case (stepped i T c x xs a st ns b st')
      have "Q x" "list_all Q xs" using all_pending_nth [of Q T i] inv stepped by simp_all
      with stepped inv J_section [of st x ns b st'] Q_section [of st x ns b st'] show ?thesis
        by (simp add: all_pending_update)
    qed (use inv in \<open>simp_all add: all_pending_update\<close>)
  qed
  from this [OF assms] show ?thesis by simp
qed

end

subsection \<open>Runs that can be computed\<close>

text \<open>A schedule: which thread makes which call, and which thread goes on with the call it is in.\<close>

datatype (plugins only: code size) move =
    Makes nat call
  | Goes nat

definition perform :: "platform \<Rightarrow> move \<Rightarrow> engine \<times> thread list \<Rightarrow> (event \<times> engine \<times> thread list) option" where
  "perform P m = (\<lambda>(st, T).
     case m of
       Makes i c \<Rightarrow>
         if i < length T \<and> idle (T ! i)
         then Some (case begin_call c of
                Inl ex \<Rightarrow> (Threw i c ex, st, T)
              | Inr (ss, a) \<Rightarrow> (Called i c, st, T[i := Running c ss a]))
         else None
     | Goes i \<Rightarrow>
         if i < length T
         then (case T ! i of
                 Idle \<Rightarrow> None
               | Running c [] a \<Rightarrow> Some (Returned i c a, st, T[i := Idle])
               | Running c (s # ss) a \<Rightarrow>
                   if may_run s i T
                   then (case run_section P s st of (ns, b, st') \<Rightarrow>
                           Some (Stepped i, st', T[i := Running c (ns @ ss) (answered b a)]))
                   else None)
         else None)"

fun schedule :: "platform \<Rightarrow> move list \<Rightarrow> event list \<times> engine \<times> thread list \<Rightarrow> (event list \<times> engine \<times> thread list) option" where
  "schedule P [] (evs, s) = Some (evs, s)"
| "schedule P (m # ms) (evs, s) =
     (case perform P m s of None \<Rightarrow> None | Some (ev, s') \<Rightarrow> schedule P ms (evs @ [ev], s'))"

lemma perform_step: "perform P m s = Some (ev, s') \<Longrightarrow> conc_step P s ev s'"
  by (cases s) (auto simp: perform_def idle_def intro: conc_step.intros
      split: move.splits if_splits sum.splits prod.splits thread.splits list.splits)

lemma schedule_run: "schedule P ms (evs, s) = Some (evs', s') \<Longrightarrow> conc_run P n evs s \<Longrightarrow> conc_run P n evs' s'"
proof (induction ms arbitrary: evs s)
  case (Cons m ms)
  from Cons.prems(1) obtain ev s1 where go: "perform P m s = Some (ev, s1)"
    and rest: "schedule P ms (evs @ [ev], s1) = Some (evs', s')" by (auto split: option.splits)
  have "conc_run P n (evs @ [ev]) s1" by (rule conc_run.goes_on [OF Cons.prems(2) perform_step [OF go]])
  then show ?case by (rule Cons.IH [OF rest])
qed simp

lemmas schedule_from_start = schedule_run [OF _ conc_run.begins]

end
