(* ===== verification/CL_Concurrent_Spec.thy ===== *)
theory CL_Concurrent_Spec
  imports CL_Concurrent CL_Engine_Spec
begin

text \<open>
  What holds of an engine used by several threads: a call that nothing interrupts is the call of
  \<open>CL_Engine\<close>; the invariants of the entries survive every interleaving; no registration of a
  producer or consumer is lost; a call takes a bounded number of critical sections as long as nobody
  removes paths, and may retry for ever otherwise.
\<close>

subsection \<open>One call\<close>

text \<open>
  C11. The critical sections of a call, run one after another without interruption, return and leave
  exactly what the operation does when described as a whole, and a call throws before its first
  section or not at all.
\<close>

theorem call_alone:
  "(exec P c st = Inl ex \<longleftrightarrow> begin_call c = Inl ex) \<and>
   (exec P c st = Inr (a, st') \<longleftrightarrow> (\<exists>ss b. begin_call c = Inr (ss, b) \<and> alone P ss b st a st'))"
proof (intro conjI iffI)
  show "begin_call c = Inl ex" if "exec P c st = Inl ex" using that by (simp add: begin_call_iff)
  show "exec P c st = Inl ex" if "begin_call c = Inl ex" using that by (simp add: begin_call_iff)
  show "\<exists>ss b. begin_call c = Inr (ss, b) \<and> alone P ss b st a st'" if "exec P c st = Inr (a, st')"
    using that by (rule alone_exec)
  assume "\<exists>ss b. begin_call c = Inr (ss, b) \<and> alone P ss b st a st'"
  then obtain ss b where ss: "begin_call c = Inr (ss, b)" "alone P ss b st a st'" by blast
  show "exec P c st = Inr (a, st')"
  proof (cases "exec P c st")
    case (Inl ex)
    with ss(1) show ?thesis by (simp add: begin_call_iff)
  next
    case (Inr r)
    with alone_exec [of P c st "fst r" "snd r"] ss show ?thesis
      by (auto dest: alone_deterministic intro: prod_eqI)
  qed
qed

subsection \<open>Invariants of the entries\<close>

definition write_ok :: "member_write \<Rightarrow> bool" where
  "write_ok w = (case w of WCommit r \<Rightarrow> r \<in> set commit_rules | WFire r \<Rightarrow> r \<in> set fire_rules | _ \<Rightarrow> True)"

definition section_ok :: "(CapioCLEntry \<Rightarrow> bool) \<Rightarrow> critical \<Rightarrow> bool" where
  "section_ok I s =
     (case s of Whole c \<Rightarrow> supplied I c | Write _ w \<Rightarrow> write_ok w | WriteRelease _ w \<Rightarrow> write_ok w | _ \<Rightarrow> True)"

lemma write_ok_simps [simp]:
  "write_ok (WCommit r) \<longleftrightarrow> r \<in> set commit_rules" "write_ok (WFire r) \<longleftrightarrow> r \<in> set fire_rules"
  "write_ok (WPermanent b)" "write_ok (WExclude b)" "write_ok (WIsFile b)" "write_ok (WCloseCount n)"
  "write_ok (WMemory b)" "write_ok (WProducer p)" "write_ok (WConsumer p)"
  by (simp_all add: write_ok_def)

lemma section_ok_simps [simp]:
  "section_ok I (Whole c) = supplied I c" "section_ok I (Write p w) = write_ok w"
  "section_ok I (WriteRelease p w) = write_ok w" "section_ok I (Create l p)" "section_ok I (Depend p d)"
  "section_ok I (Read l p f g)" "section_ok I (Scan p h n)" "section_ok I (FileDeps p ds)"
  "section_ok I (MarkAll p k)" "section_ok I (Count p k)" "section_ok I RaiseFlag" "section_ok I StoreAll"
  by (simp_all add: section_ok_def)

lemma write_ok_retried [simp]: "write_ok (retried w) = write_ok w"
  by (cases w) auto

lemma section_ok_begin: "supplied I c \<Longrightarrow> begin_call c = Inr (ss, a) \<Longrightarrow> list_all (section_ok I) ss"
  by (cases c) (auto simp: whole_def setter_def getter_def reader_def rbind_Inr_iff sanitize_commit_cases
      sanitize_fire_cases list_all_iff split: if_splits)

lemma section_ok_next: "section_ok I s \<Longrightarrow> run_section P s st = (ns, b, st') \<Longrightarrow> list_all (section_ok I) ns"
  by (cases s) (auto simp: write_all_def list_all_iff rule_members split: option.splits sum.splits if_splits)

context entry_invariant begin

lemma I_write: "write_ok w \<Longrightarrow> I e \<Longrightarrow> I (apply_write w e)"
  by (cases w) (auto simp: I_commit I_fire I_producer I_consumer)

lemma inv_section:
  assumes "all_entries I st" and "section_ok I s" and "run_section P s st = (ns, b, st')"
    and "\<And>c a b. s = Whole c \<Longrightarrow> merges c \<Longrightarrow> I a \<Longrightarrow> I b \<Longrightarrow> I (entry_merge a b)"
  shows "all_entries I st'"
proof (cases s)
  case (Whole c)
  then have "st' = after_call P c st" using assms(3) by (auto simp: after_call_def split: sum.splits prod.splits)
  with Whole assms show ?thesis by (auto intro: inv_after_call)
next
  case RaiseFlag
  with assms show ?thesis by (auto simp: all_entries_def engine_wf_def)
qed (use assms in \<open>auto simp: I_write intro!: inv_modify inv_newFile split: option.splits if_splits\<close>)

end

interpretation conc_rules: section_invariant P "all_entries entry_rules_valid" "section_ok entry_rules_valid" "supplied entry_rules_valid"
  for P
proof
  show "all_entries entry_rules_valid (new_engine P)" by (rule rules_valid.inv_new_engine)
  show "all_entries entry_rules_valid st'"
    if "all_entries entry_rules_valid st" "section_ok entry_rules_valid s" "run_section P s st = (ns, b, st')" for st s ns b st'
    using that by (rule rules_valid.inv_section) (auto simp: entry_rules_valid_def)
qed (auto intro: section_ok_begin section_ok_next)

text \<open>Without raw additions there is nothing to supply.\<close>

definition raw :: "call \<Rightarrow> bool" where
  "raw c \<longleftrightarrow> \<not> supplied (\<lambda>_. False) c"

lemma raw_supplied: "\<not> raw c \<Longrightarrow> supplied I c" "\<not> raw c \<Longrightarrow> \<not> merges c"
  by (auto simp: raw_def supplied_def merges_def split: call.splits)

lemma raw_section_ok: "section_ok (\<lambda>_. False) s \<Longrightarrow> section_ok I s"
  by (cases s) (auto simp: raw_supplied raw_def)

interpretation conc_names: section_invariant P "\<lambda>st. all_entries entry_distinct st \<and> all_entries entry_names_clean st"
    "section_ok (\<lambda>_. False)" "\<lambda>c. \<not> raw c" for P
proof
  show "all_entries entry_distinct (new_engine P) \<and> all_entries entry_names_clean (new_engine P)"
    by (simp add: names_distinct.inv_new_engine names_clean.inv_new_engine)
  fix st s ns b st'
  assume J: "all_entries entry_distinct st \<and> all_entries entry_names_clean st"
    and Q: "section_ok (\<lambda>_. False) s" and run: "run_section P s st = (ns, b, st')"
  have "\<not> merges c" if "s = Whole c" for c using Q that raw_supplied(2) by (simp add: raw_def)
  then show "all_entries entry_distinct st' \<and> all_entries entry_names_clean st'"
    using J run Q [THEN raw_section_ok] names_distinct.inv_section names_clean.inv_section by blast
qed (auto simp: raw_def intro: section_ok_begin section_ok_next)

lemma no_raw_entries_raw: "no_raw_entries cs \<longleftrightarrow> list_all (\<lambda>c. \<not> raw c) cs"
  by (auto simp: no_raw_entries_def raw_def supplied_def list_all_iff split: call.splits)


text \<open>An example: two threads register a producer of the same new path, and each misses it.\<close>

definition race_start :: "(event list \<times> engine \<times> thread list)" where
  "race_start = ([], new_engine demo, replicate 2 Idle)"

definition race_moves :: "move list" where
  "race_moves =
     [Makes 0 (AddProducer ''/a'' ''p''), Makes 1 (AddProducer ''/a'' ''q r''), Goes 0, Goes 1, Goes 0, Goes 1,
      Goes 1, Goes 0, Goes 0, Goes 1]"

definition race :: "event list \<times> engine \<times> thread list" where
  "race = the (schedule demo race_moves race_start)"

lemma race_run: "conc_run demo 2 (fst race) (snd race)"
proof -
  have "\<not> Option.is_none (schedule demo race_moves race_start)" by code_simp
  then have "schedule demo race_moves race_start = Some (fst race, snd race)"
    by (auto simp: race_def Option.is_none_def)
  then show ?thesis unfolding race_start_def by (rule schedule_from_start)
qed

lemma race_outcome:
  "producers (the (entry_at (fst (snd race)) ''/a'')) = [''qr'', ''p''] \<and> known (fst (snd race)) ''/a'' \<and>
   no_raw_entries (calls_of (fst race))"
  by code_simp


subsection \<open>No registration is lost\<close>

definition removes :: "call \<Rightarrow> bool" where
  "removes c = (case c of Remove _ \<Rightarrow> True | _ \<Rightarrow> False)"

definition overwrites :: "call \<Rightarrow> bool" where
  "overwrites c = (case c of Remove _ \<Rightarrow> True | AddRule _ _ _ _ _ _ _ _ \<Rightarrow> True | _ \<Rightarrow> False)"

definition registered :: "call \<Rightarrow> engine \<Rightarrow> bool" where
  "registered c st =
     (case c of
        AddProducer path p \<Rightarrow>
          path = [] \<or> (case entry_at st path of Some e \<Rightarrow> erase_spaces p \<in> set (producers e) | None \<Rightarrow> False)
      | AddConsumer path p \<Rightarrow>
          path = [] \<or> (case entry_at st path of Some e \<Rightarrow> erase_spaces p \<in> set (consumers e) | None \<Rightarrow> False)
      | _ \<Rightarrow> True)"

definition registers :: "call \<Rightarrow> critical \<Rightarrow> bool" where
  "registers c s =
     (case s of
        WriteRelease path (WProducer q) \<Rightarrow> (case c of AddProducer path' p \<Rightarrow> path' = path \<and> erase_spaces q = erase_spaces p | _ \<Rightarrow> False)
      | WriteRelease path (WConsumer q) \<Rightarrow> (case c of AddConsumer path' p \<Rightarrow> path' = path \<and> erase_spaces q = erase_spaces p | _ \<Rightarrow> False)
      | _ \<Rightarrow> False)"

text \<open>The sections that leave what is registered: a whole call is one of those that take the lock once.\<close>

definition keeping :: "(call \<Rightarrow> bool) \<Rightarrow> critical \<Rightarrow> bool" where
  "keeping bad s = (case s of Whole c \<Rightarrow> \<not> bad c \<and> begin_call c \<in> {Inr ([Whole c], Done)} | _ \<Rightarrow> True)"

lemma keeping_simps [simp]:
  "keeping bad (Whole c) \<longleftrightarrow> \<not> bad c \<and> begin_call c = Inr ([Whole c], Done)" "keeping bad (Write p w)"
  "keeping bad (WriteRelease p w)" "keeping bad (Create l p)" "keeping bad (Depend p d)"
  "keeping bad (Read l p f g)" "keeping bad (Scan p h n)" "keeping bad (FileDeps p ds)"
  "keeping bad (MarkAll p k)" "keeping bad (Count p k)" "keeping bad RaiseFlag" "keeping bad StoreAll"
  by (auto simp: keeping_def)

lemma keeping_begin: "\<not> bad c \<Longrightarrow> begin_call c = Inr (ss, a) \<Longrightarrow> list_all (keeping bad) ss"
  by (cases c) (auto simp: whole_def setter_def getter_def reader_def rbind_Inr_iff list_all_iff split: if_splits)

lemma keeping_next: "keeping bad s \<Longrightarrow> run_section P s st = (ns, b, st') \<Longrightarrow> list_all (keeping bad) ns"
  by (cases s) (auto simp: write_all_def list_all_iff split: option.splits sum.splits if_splits)

lemma wf_section: "engine_wf st \<Longrightarrow> run_section P s st = (ns, b, st') \<Longrightarrow> engine_wf st'"
proof (cases s)
  case (Whole c)
  moreover assume "engine_wf st" "run_section P s st = (ns, b, st')"
  moreover have "engine_wf st \<Longrightarrow> engine_wf (after_call P c st)" using wf_run_calls [of st P "[c]"] by (simp add: run_calls_def)
  ultimately show ?thesis by (auto simp: after_call_def split: sum.splits)
next
  case RaiseFlag
  then show "engine_wf st \<Longrightarrow> run_section P s st = (ns, b, st') \<Longrightarrow> engine_wf st'" by (auto simp: engine_wf_def)
qed (auto split: option.splits if_splits)

interpretation conc_keeping: section_invariant P engine_wf "keeping bad" "\<lambda>c. \<not> bad c" for P bad
  by unfold_locales (auto intro: wf_section keeping_begin keeping_next)

definition names_kept :: "engine \<Rightarrow> engine \<Rightarrow> bool" where
  "names_kept st st' \<longleftrightarrow> (\<forall>q e. entry_at st q = Some e \<longrightarrow>
     (\<exists>e'. entry_at st' q = Some e' \<and> set (producers e) \<subseteq> set (producers e') \<and> set (consumers e) \<subseteq> set (consumers e')))"

lemma names_kept_refl [simp]: "names_kept st st"
  by (simp add: names_kept_def)

lemma names_kept_modify:
  "(\<And>e. set (producers e) \<subseteq> set (producers (f e)) \<and> set (consumers e) \<subseteq> set (consumers (f e))) \<Longrightarrow>
   names_kept st (modify_at p f st)"
  by (auto simp: names_kept_def entry_at_modify)

lemma names_kept_newFile: "engine_wf st \<Longrightarrow> names_kept st (newFile_internal P p st)"
  unfolding names_kept_def using newFile_same_rules [of st] same_rules_members(1,2) by fastforce

lemma apply_write_names:
  "x \<in> set (producers e) \<Longrightarrow> x \<in> set (producers (apply_write w e))"
  "x \<in> set (consumers e) \<Longrightarrow> x \<in> set (consumers (apply_write w e))"
  by (cases w; simp)+

lemma names_kept_add: "engine_wf st \<Longrightarrow> names_kept st (add_entry P p e st)"
  by (auto simp: names_kept_def add_entry_def entry_at_modify entry_merge_def um_find_emplace engine_wf_def split: option.splits)

lemma section_keeps_names:
  assumes "engine_wf st" and "keeping overwrites s" and "run_section P s st = (ns, b, st')"
  shows "names_kept st st'"
proof (cases s)
  case (Whole c)
  with assms show ?thesis
    by (cases c) (auto simp: overwrites_def finish_def answers_def whole_def setter_def getter_def reader_def newFile_def
        setWorkflowName_def rbind_Inr_iff names_kept_newFile names_kept_add names_kept_def [of _ "_\<lparr>workflow_name := _\<rparr>"]
        split: if_splits)
next
  case RaiseFlag
  with assms show ?thesis by (auto simp: names_kept_def)
qed (use assms in \<open>auto simp: names_kept_newFile apply_write_names intro!: names_kept_modify split: option.splits if_splits\<close>)

lemma registered_kept: "registered c st \<Longrightarrow> names_kept st st' \<Longrightarrow> registered c st'"
  by (cases c) (fastforce simp: registered_def names_kept_def split: option.splits)+

lemma registers_section:
  assumes "registers c s" and "run_section P s st = (ns, b, st')"
  shows "registered c st' \<or> list_ex (registers c) ns"
  using assms by (cases s; cases c)
    (auto simp: registers_def registered_def entry_at_modify split: option.splits member_write.splits)

lemma registers_begin: "begin_call c = Inr (ss, a) \<Longrightarrow> registered c st \<or> list_ex (registers c) ss"
  by (cases c) (auto simp: registered_def registers_def split: if_splits)

text \<open>What a run has registered, and what its calls still will.\<close>

definition registrations :: "event list \<Rightarrow> engine \<times> thread list \<Rightarrow> bool" where
  "registrations evs s \<longleftrightarrow>
     (\<forall>i c a. Returned i c a \<in> set evs \<longrightarrow> registered c (fst s)) \<and>
     (\<forall>j c ss a. j < length (snd s) \<longrightarrow> snd s ! j = Running c ss a \<longrightarrow> registered c (fst s) \<or> list_ex (registers c) ss)"

lemma registrations_step:
  assumes "registrations evs (st, T)" and "names_kept st st'"
    and "\<And>c ss a. t = Running c ss a \<Longrightarrow> registered c st' \<or> list_ex (registers c) ss"
    and "\<And>j c a. ev = Returned j c a \<Longrightarrow> registered c st'"
  shows "registrations (evs @ [ev]) (st', T[i := t])"
  unfolding registrations_def
proof (intro conjI allI impI)
  note kept = registered_kept [OF _ assms(2)]
  show "registered c (fst (st', T[i := t]))" if "Returned k c a \<in> set (evs @ [ev])" for k c a
  proof (cases "ev = Returned k c a")
    case False
    with that have "Returned k c a \<in> set evs" by auto
    with assms(1) have "registered c st" unfolding registrations_def by fastforce
    with kept show ?thesis by simp
  qed (use assms(4) in simp)
  fix j c ss a assume j: "j < length (snd (st', T[i := t]))" and run: "snd (st', T[i := t]) ! j = Running c ss a"
  show "registered c (fst (st', T[i := t])) \<or> list_ex (registers c) ss"
  proof (cases "j = i")
    case True
    with j run assms(3) show ?thesis by simp
  next
    case False
    with j run have "registered c st \<or> list_ex (registers c) ss" using assms(1) by (auto simp: registrations_def)
    with kept show ?thesis by auto
  qed
qed

lemma registrations_run:
  "conc_run P n evs s \<Longrightarrow> list_all (\<lambda>c. \<not> overwrites c) (calls_of evs) \<Longrightarrow> registrations evs s"
proof (induction rule: conc_run.induct)
  case begins
  show ?case by (simp add: registrations_def)
next
  case (goes_on evs s ev s')
  have IH: "registrations evs s" using goes_on by simp
  from goes_on.hyps(2) show ?case
  proof (cases rule: conc_step.cases)
    case (called i T c ss a st)
    with IH registers_begin [of c ss a st] show ?thesis by (auto intro!: registrations_step)
  next
    case (threw i T c ex st)
    then have "T[i := Idle] = T" by (metis list_update_id)
    with threw registrations_step [of evs st T st Idle ev i] IH show ?thesis by simp
  next
    case (stepped i T c x xs a st ns b st')
    have "engine_wf st \<and> all_pending (keeping overwrites) T"
      using conc_keeping.invariant_run [of P n evs st T overwrites] goes_on stepped by simp
    moreover from this all_pending_nth [of "keeping overwrites" T i] stepped have "keeping overwrites x" by simp
    ultimately have kept: "names_kept st st'" using section_keeps_names stepped(7) by blast
    have "registered c st \<or> registers c x \<or> list_ex (registers c) xs"
      using IH stepped(1,4,5) by (fastforce simp: registrations_def)
    then have "registered c st' \<or> list_ex (registers c) (ns @ xs)"
      using registered_kept [OF _ kept] registers_section [OF _ stepped(7)] by auto
    with IH kept show ?thesis unfolding stepped(1-3) by (intro registrations_step) auto
  next
    case (returned i T c a st)
    then have "registered c st" using IH by (fastforce simp: registrations_def)
    with returned IH show ?thesis by (auto intro!: registrations_step)
  qed
qed

text \<open>
  C4. No registration is lost: once \<open>addProducer\<close> (\<open>addConsumer\<close>) has returned in some thread, the
  stripped name stays among the producers (consumers) of the path whatever other threads are doing,
  unless a path is removed or overwritten with raw lists.
\<close>

theorem no_lost_registration:
  assumes "conc_run P n evs (st, T)" and "list_all (\<lambda>c. \<not> overwrites c) (calls_of evs)" and "path \<noteq> []"
  shows "(Returned i (AddProducer path name) a \<in> set evs \<longrightarrow>
      (\<exists>e. entry_at st path = Some e \<and> erase_spaces name \<in> set (producers e))) \<and>
    (Returned i (AddConsumer path name) a \<in> set evs \<longrightarrow>
      (\<exists>e. entry_at st path = Some e \<and> erase_spaces name \<in> set (consumers e)))"
  using registrations_run [OF assms(1,2)] assms(3)
  by (fastforce simp: registrations_def registered_def split: option.splits)

theorem no_lost_registration_witness:
  "\<exists>e. entry_at (fst (snd race)) ''/a'' = Some e \<and> ''qr'' \<in> set (producers e)"
proof -
  have "list_all (\<lambda>c. \<not> overwrites c) (calls_of (fst race))" by code_simp
  from no_lost_registration [of demo 2 "fst race" "fst (snd race)" "snd (snd race)" "''/a''" 1 "''q r''" "TheString ''qr''"]
    race_run this
  have "Returned 1 (AddProducer ''/a'' ''q r'') (TheString ''qr'') \<in> set (fst race) \<longrightarrow>
      (\<exists>e. entry_at (fst (snd race)) ''/a'' = Some e \<and> erase_spaces ''q r'' \<in> set (producers e))" by simp
  moreover have "last (fst race) = Returned 1 (AddProducer ''/a'' ''q r'') (TheString ''qr'') \<and> fst race \<noteq> []" by code_simp
  moreover have "erase_spaces ''q r'' = ''qr''" by code_simp
  ultimately show ?thesis using last_in_set [of "fst race"] by auto
qed

subsection \<open>How long a call takes\<close>

text \<open>
  How many sections a section leads to at most, itself included, while no path is removed and the
  store holds at most \<open>N\<close> paths.
\<close>

definition if_known :: "string set \<Rightarrow> string \<Rightarrow> nat \<Rightarrow> nat \<Rightarrow> nat" where
  "if_known K path k m = (if path \<in> K then k else m)"

primrec sections_left :: "nat \<Rightarrow> string set \<Rightarrow> critical \<Rightarrow> nat" where
  "sections_left N K (Whole c) = 1"
| "sections_left N K (Create l path) = 1"
| "sections_left N K (Write path w) = if_known K path 1 2"
| "sections_left N K (WriteRelease path w) = if_known K path 1 3"
| "sections_left N K (Depend path d) = if_known K path 1 4"
| "sections_left N K (Read l path f g) = if_known K path 1 3"
| "sections_left N K (Scan path f a) = 2"
| "sections_left N K (FileDeps path deps) = if_known K path 1 (length deps + 2)"
| "sections_left N K (MarkAll path n) = if_known K path (N + 2) (2 * N + 4)"
| "sections_left N K (Count path n) = if_known K path 1 (N + 3)"
| "sections_left N K RaiseFlag = 1"
| "sections_left N K StoreAll = N + 1"

text \<open>A creation that is waiting will have made its path known to the sections after it.\<close>

definition will_create :: "critical \<Rightarrow> string set" where
  "will_create s = (case s of Create l path \<Rightarrow> if path = [] then {} else {path} | _ \<Rightarrow> {})"

primrec total_left :: "nat \<Rightarrow> string set \<Rightarrow> critical list \<Rightarrow> nat" where
  "total_left N K [] = 0"
| "total_left N K (s # ss) = sections_left N K s + total_left N (K \<union> will_create s) ss"

lemma will_create_simps [simp]:
  "will_create (Whole c) = {}" "will_create (Create l p) = (if p = [] then {} else {p})" "will_create (Write p w) = {}"
  "will_create (WriteRelease p w) = {}" "will_create (Depend p d) = {}" "will_create (Read l p f g) = {}"
  "will_create (Scan p h a) = {}" "will_create (FileDeps p ds) = {}" "will_create (MarkAll p n) = {}"
  "will_create (Count p n) = {}" "will_create RaiseFlag = {}" "will_create StoreAll = {}"
  by (simp_all add: will_create_def)

lemma total_left_append:
  "total_left N K (xs @ ys) = total_left N K xs + total_left N (K \<union> \<Union> (will_create ` set xs)) ys"
  by (induction xs arbitrary: K) (simp_all add: Un_assoc)

lemma sections_left_mono: "K \<subseteq> K' \<Longrightarrow> sections_left N K' s \<le> sections_left N K s"
  by (cases s) (auto simp: if_known_def)

lemma total_left_mono: "K \<subseteq> K' \<Longrightarrow> total_left N K' ss \<le> total_left N K ss"
proof (induction ss arbitrary: K K')
  case (Cons s ss)
  have "total_left N (K' \<union> will_create s) ss \<le> total_left N (K \<union> will_create s) ss"
    by (rule Cons.IH) (use Cons.prems in auto)
  with sections_left_mono [OF Cons.prems, of N s] show ?case by simp
qed simp

lemma total_left_creates [simp]: "total_left N K (map (Create True) ds) = length ds"
  by (induction ds arbitrary: K) simp_all

definition most_sections :: "nat \<Rightarrow> call \<Rightarrow> nat" where
  "most_sections N c =
     (case c of
        AddProducer _ _ \<Rightarrow> 3 | AddConsumer _ _ \<Rightarrow> 3 | SetCommitRule _ _ \<Rightarrow> 3 | AddFileDependency _ _ \<Rightarrow> 4
      | SetFireRule _ _ \<Rightarrow> 2 | SetPermanent _ _ \<Rightarrow> 2 | SetExclude _ _ \<Rightarrow> 2 | SetDirectory _ \<Rightarrow> 2 | SetFile _ \<Rightarrow> 2
      | SetCommitedCloseNumber _ _ \<Rightarrow> 2 | SetStoreFileInMemory _ \<Rightarrow> 2 | SetStoreFileInFileSystem _ \<Rightarrow> 2
      | SetDirectoryFileCount _ _ \<Rightarrow> 2 * N + 4 | SetFileDeps _ deps \<Rightarrow> 2 * length deps + 2 | SetAllStoreInMemory \<Rightarrow> N + 2
      | GetDirectoryFileCount _ \<Rightarrow> 3 | GetCommitRule _ \<Rightarrow> 3 | GetFireRule _ \<Rightarrow> 3 | GetProducers _ \<Rightarrow> 3
      | GetCommitCloseCount _ \<Rightarrow> 3 | IsFirable _ \<Rightarrow> 3 | IsFile _ \<Rightarrow> 3 | IsExcluded _ \<Rightarrow> 3 | IsDirectory _ \<Rightarrow> 3
      | IsStoredInMemory _ \<Rightarrow> 3 | IsPermanent _ \<Rightarrow> 3 | IsProducer _ _ \<Rightarrow> 2 | IsConsumer _ _ \<Rightarrow> 2
      | _ \<Rightarrow> 1)"

definition paths_grow :: "engine \<Rightarrow> engine \<Rightarrow> bool" where
  "paths_grow st st' \<longleftrightarrow> set (getPaths st) \<subseteq> set (getPaths st')"

lemma paths_grow_iff: "paths_grow st st' \<longleftrightarrow> (\<forall>q. known st q \<longrightarrow> known st' q)"
  by (auto simp: paths_grow_def known_getPaths)

lemma paths_grow_paths:
  assumes "paths_grow st st'" and "engine_wf st" and "engine_wf st'"
  shows "length (getPaths st) \<le> length (getPaths st')"
  using assms card_mono [of "{q. known st' q}" "{q. known st q}"] by (auto simp: length_getPaths paths_grow_iff)

text \<open>Every section but a whole call and a creation is entered with a path.\<close>

definition has_path :: "critical \<Rightarrow> bool" where
  "has_path s =
     (case s of Write path _ \<Rightarrow> path \<noteq> [] | WriteRelease path _ \<Rightarrow> path \<noteq> [] | Depend path _ \<Rightarrow> path \<noteq> []
      | Read _ path _ _ \<Rightarrow> path \<noteq> [] | FileDeps path _ \<Rightarrow> path \<noteq> [] | MarkAll path _ \<Rightarrow> path \<noteq> [] | Count path _ \<Rightarrow> path \<noteq> []
      | _ \<Rightarrow> True)"

lemma has_path_simps [simp]:
  "has_path (Whole c)" "has_path (Create l p)" "has_path (Scan p h a)" "has_path RaiseFlag" "has_path StoreAll"
  "has_path (Write p w) \<longleftrightarrow> p \<noteq> []" "has_path (WriteRelease p w) \<longleftrightarrow> p \<noteq> []" "has_path (Depend p d) \<longleftrightarrow> p \<noteq> []"
  "has_path (Read l p f g) \<longleftrightarrow> p \<noteq> []" "has_path (FileDeps p ds) \<longleftrightarrow> p \<noteq> []" "has_path (MarkAll p n) \<longleftrightarrow> p \<noteq> []"
  "has_path (Count p n) \<longleftrightarrow> p \<noteq> []"
  by (simp_all add: has_path_def)

interpretation conc_paths: section_invariant P "\<lambda>_. True" has_path "\<lambda>_. True" for P
proof
  show "list_all has_path ss" if "begin_call c = Inr (ss, a)" for c ss a
    using that by (cases c) (auto simp: whole_def setter_def getter_def reader_def rbind_Inr_iff list_all_iff split: if_splits)
  show "list_all has_path ns" if "has_path s" "run_section P s st = (ns, b, st')" for s st ns b st'
    using that by (cases s) (auto simp: write_all_def list_all_iff split: option.splits sum.splits if_splits)
qed simp_all

lemma total_left_writes:
  "list_all (\<lambda>q. q \<in> K) ps \<Longrightarrow> total_left N K (map (\<lambda>q. Write q w) ps) = length ps"
  by (induction ps) (simp_all add: if_known_def)

lemma total_left_write_all:
  "total_left N (set (getPaths st)) (write_all w st) \<le> length (getPaths st)" "\<Union> (will_create ` set (write_all w st)) = {}"
  using total_left_writes [of "set (getPaths st)" "filter (\<lambda>q. q \<noteq> []) (getPaths st)" N w]
  by (auto simp: write_all_def list_all_iff)

lemma known_None: "entry_at st q = None \<longleftrightarrow> q \<notin> set (getPaths st)"
  using known_getPaths [of st q] by (auto simp: known_def)

lemma known_Some: "entry_at st q = Some e \<Longrightarrow> q \<in> set (getPaths st)"
  using known_None [of st q] by auto

lemma newFile_in_paths: "p \<noteq> [] \<Longrightarrow> p \<in> set (getPaths (newFile_internal P p st))"
  using known_getPaths [of "newFile_internal P p st" p] by simp

lemma total_left_section:
  assumes "has_path s" and "run_section P s st = (ns, b, st')" and "length (getPaths st) \<le> N"
  shows "total_left N (set (getPaths st')) ns < sections_left N (set (getPaths st)) s"
  using assms total_left_write_all(1) [of N st "WIsFile False"] total_left_write_all(1) [of N st "WMemory True"]
  by (cases s) (auto simp: if_known_def known_None newFile_in_paths total_left_append total_left_write_all(2)
      split: option.splits sum.splits if_splits dest: known_Some)

lemma begin_most_sections: "begin_call c = Inr (ss, a) \<Longrightarrow> total_left N K ss \<le> most_sections N c"
  by (cases c) (auto simp: whole_def setter_def getter_def reader_def rbind_Inr_iff most_sections_def if_known_def
      total_left_append split: if_splits)

lemma paths_grow_refl [simp]: "paths_grow st st"
  by (simp add: paths_grow_def)

lemma paths_grow_newFile [simp]: "paths_grow st (newFile_internal P p st)"
  by (simp add: paths_grow_iff known_newFile_mono)

lemma known_modify [simp]: "known (modify_at p f st) q = known st q"
  by (simp add: known_def del: not_None_eq)

lemma paths_grow_modify [simp]: "paths_grow st (modify_at p f st)"
  by (simp add: paths_grow_iff)

lemma paths_grow_add_entry [simp]:
  assumes "engine_wf st"
  shows "paths_grow st (add_entry P p e st)"
proof (cases "entry_at st p")
  case None
  with assms show ?thesis by (auto simp: paths_grow_iff known_def add_entry_def um_find_emplace engine_wf_def)
qed (simp add: add_entry_def)

lemma paths_grow_add_rule [simp]: "paths_grow st (add_rule P p ps cs r f a b ds st)"
  by (simp add: paths_grow_iff add_rule_def known_newFile_mono)

lemma paths_grow_globals [simp]: "paths_grow st (st\<lparr>workflow_name := n\<rparr>)" "paths_grow st (st\<lparr>store_all_in_memory := b\<rparr>)"
  by (simp_all add: paths_grow_iff known_def)

lemma section_paths_grow:
  assumes "engine_wf st" and "keeping removes s" and "run_section P s st = (ns, b, st')"
  shows "paths_grow st st'"
proof (cases s)
  case (Whole c)
  with assms show ?thesis
    by (cases c) (auto simp: removes_def finish_def answers_def whole_def setter_def getter_def reader_def newFile_def
        setWorkflowName_def rbind_Inr_iff split: if_splits)
qed (use assms in \<open>auto split: option.splits if_splits\<close>)

definition own_sections :: "nat \<Rightarrow> event list \<Rightarrow> nat" where
  "own_sections i evs = length (filter (\<lambda>ev. case ev of Stepped j \<Rightarrow> j = i | _ \<Rightarrow> False) evs)"

lemma own_sections_simps [simp]:
  "own_sections i [] = 0" "own_sections i (xs @ ys) = own_sections i xs + own_sections i ys"
  "own_sections i (Called j c # xs) = own_sections i xs" "own_sections i (Threw j c ex # xs) = own_sections i xs"
  "own_sections i (Returned j c a # xs) = own_sections i xs"
  "own_sections i (Stepped j # xs) = (if j = i then Suc (own_sections i xs) else own_sections i xs)"
  by (simp_all add: own_sections_def)

text \<open>One step, without removals: the store grows, and what thread \<open>i\<close> has left shrinks by its own sections.\<close>

lemma step_left:
  assumes "conc_step P s ev s'" and "engine_wf (fst s)" and "all_pending (keeping removes) (snd s)" and "all_pending has_path (snd s)"
    and "length (getPaths (fst s')) \<le> N" and "\<forall>c. ev \<noteq> Called i c"
  shows "length (getPaths (fst s)) \<le> N \<and>
    own_sections i [ev] + total_left N (set (getPaths (fst s'))) (pending (snd s' ! i)) \<le>
      total_left N (set (getPaths (fst s))) (pending (snd s ! i))"
  using assms(1)
proof (cases rule: conc_step.cases)
  case (stepped j T c x xs a st ns b st')
  have x: "keeping removes x" "has_path x"
    using all_pending_nth [of _ T j] assms(3,4) stepped by fastforce+
  have wf: "engine_wf st" "engine_wf st'" using assms(2) stepped wf_section by auto
  have paths_grow: "paths_grow st st'" by (rule section_paths_grow [OF wf(1) x(1) stepped(7)])
  have len: "length (getPaths st) \<le> N" using paths_grow_paths [OF paths_grow wf] assms(5) stepped by simp
  let ?K = "set (getPaths st)" and ?K' = "set (getPaths st')"
  have sub: "?K \<subseteq> ?K'" using paths_grow by (simp add: paths_grow_def)
  have "will_create x \<subseteq> ?K'" using stepped(7) newFile_in_paths by (cases x) auto
  then have rest: "total_left N (?K' \<union> \<Union> (will_create ` set ns)) xs \<le> total_left N (?K \<union> will_create x) xs"
    using sub by (intro total_left_mono) auto
  have first: "total_left N ?K' ns < sections_left N ?K x" by (rule total_left_section [OF x(2) stepped(7) len])
  show ?thesis
  proof (cases "j = i")
    case True
    with stepped len rest first show ?thesis by (simp add: total_left_append)
  next
    case False
    with stepped len total_left_mono [OF sub] show ?thesis by simp
  qed
next
  case (called j T c ss a st)
  with assms(5,6) show ?thesis by auto
next
  case (returned j T c a st)
  with assms(5) show ?thesis by (cases "j = i") simp_all
qed (use assms(5) in simp)

lemma run_left:
  assumes "conc_run P n (evs @ Called i c # later) s" and "list_all (\<lambda>c. \<not> removes c) (calls_of (evs @ Called i c # later))"
    and "list_all (\<lambda>ev. \<forall>c. ev \<noteq> Called i c) later" and "length (getPaths (fst s)) \<le> N"
  shows "own_sections i later + total_left N (set (getPaths (fst s))) (pending (snd s ! i)) \<le> most_sections N c"
  using assms
proof (induction later arbitrary: s rule: rev_induct)
  case Nil
  then obtain s0 where "conc_step P s0 (Called i c) s" by (auto elim: conc_run_snocE)
  then show ?case by (cases rule: conc_step.cases) (simp_all add: begin_most_sections)
next
  case (snoc ev later)
  then have "conc_run P n ((evs @ Called i c # later) @ [ev]) s" by simp
  then obtain s0 where run: "conc_run P n (evs @ Called i c # later) s0" and step: "conc_step P s0 ev s"
    by (rule conc_run_snocE)
  have ok: "list_all (\<lambda>c. \<not> removes c) (calls_of (evs @ Called i c # later))" using snoc.prems(2) by simp
  have run0: "conc_run P n (evs @ Called i c # later) (fst s0, snd s0)" using run by simp
  have inv: "engine_wf (fst s0)" "all_pending (keeping removes) (snd s0)" "all_pending has_path (snd s0)"
    using conc_keeping.invariant_run [OF run0 ok] conc_paths.invariant_run [OF run0] by (simp_all add: list_all_iff)
  have "length (getPaths (fst s0)) \<le> N \<and> own_sections i [ev] + total_left N (set (getPaths (fst s))) (pending (snd s ! i)) \<le>
      total_left N (set (getPaths (fst s0))) (pending (snd s0 ! i))"
    by (rule step_left [OF step inv snoc.prems(4)]) (use snoc.prems(3) in simp)
  with snoc.IH [OF run ok] snoc.prems(3) show ?case by simp
qed

text \<open>
  C16. As long as no call removes a path, a call ends: whatever the other threads do, it takes at most
  three critical sections for a getter or setter (four for \<open>addFileDependency\<close>), and for the calls
  that loop a number linear in the dependencies given or in the paths of the store.
\<close>

theorem call_sections_bounded:
  assumes "conc_run P n (evs @ Called i c # later) (st, T)"
    and "list_all (\<lambda>c. \<not> removes c) (calls_of (evs @ Called i c # later))"
    and "list_all (\<lambda>ev. \<forall>c. ev \<noteq> Called i c) later"
  shows "own_sections i later \<le> most_sections (length (getPaths st)) c"
  using run_left [OF assms, of "length (getPaths st)"] by simp

theorem call_sections_bounded_witness:
  "own_sections 0 (tl (fst race)) \<le> 3 \<and> own_sections 0 (tl (fst race)) = 3"
proof -
  have race: "fst race = [] @ Called 0 (AddProducer ''/a'' ''p'') # tl (fst race)" by code_simp
  have "conc_run demo 2 ([] @ Called 0 (AddProducer ''/a'' ''p'') # tl (fst race)) (fst (snd race), snd (snd race))"
    using race_run race by simp
  moreover have "list_all (\<lambda>c. \<not> removes c) (calls_of (fst race))" by code_simp
  moreover have "list_all (\<lambda>ev. case ev of Called j _ \<Rightarrow> j \<noteq> 0 | _ \<Rightarrow> True) (tl (fst race))" by code_simp
  then have "list_all (\<lambda>ev. \<forall>c. ev \<noteq> Called 0 c) (tl (fst race))" by (auto simp: list_all_iff)
  ultimately have "own_sections 0 (tl (fst race)) \<le> most_sections (length (getPaths (fst (snd race)))) (AddProducer ''/a'' ''p'')"
    using call_sections_bounded race by metis
  moreover have "own_sections 0 (tl (fst race)) = 3" by code_simp
  ultimately show ?thesis by (simp add: most_sections_def)
qed

text \<open>A round of a getter against a thread that removes the path: it misses, creates, and misses again.\<close>

definition reading :: "string \<Rightarrow> thread list" where
  "reading path =
     [Running (GetCommitRule path) [Read True path (\<lambda>e. TheString (commit_rule e)) (\<lambda>e. TheString (commit_rule e))]
        (TheString ON_TERMINATION), Idle]"

definition removal_round :: "string \<Rightarrow> event list" where
  "removal_round path = [Stepped 0, Stepped 0, Called 1 (Remove path), Stepped 1, Returned 1 (Remove path) Done]"

lemma starve_start: "path \<noteq> [] \<Longrightarrow> conc_run P 2 [Called 0 (GetCommitRule path)] (new_engine P, reading path)"
  by (rule schedule_from_start [of P "[Makes 0 (GetCommitRule path)]"])
    (simp add: perform_def idle_def reader_def getter_def reading_def numeral_2_eq_2)

lemma starve_round:
  assumes "conc_run P 2 evs (st, reading path)" and "path \<noteq> []" and "\<not> known st path"
  shows "\<exists>st'. conc_run P 2 (evs @ removal_round path) (st', reading path) \<and> \<not> known st' path"
proof -
  let ?made = "newFile_internal P path st"
  have "schedule P [Goes 0, Goes 0, Makes 1 (Remove path), Goes 1, Goes 1] (evs, st, reading path) =
      Some (evs @ removal_round path, remove_path path ?made, reading path)"
    using assms(3) by (simp add: perform_def known_def idle_def whole_def finish_def may_run_def locked_def reading_def removal_round_def)
  moreover have "\<not> known (remove_path path ?made) path"
    using known_newFile [OF assms(2), of P st] by (simp add: remove_path_def known_def um.find_erase)
  ultimately show ?thesis using schedule_run [OF _ assms(1)] by blast
qed

lemma starve_rounds:
  assumes "path \<noteq> []"
  shows "\<exists>st. conc_run P 2 (Called 0 (GetCommitRule path) # concat (replicate k (removal_round path))) (st, reading path) \<and>
    \<not> known st path"
proof (induction k)
  case 0
  show ?case using starve_start [OF assms] by (intro exI [of _ "new_engine P"]) (simp add: known_def new_engine_def)
next
  case (Suc k)
  have "concat (replicate (Suc k) (removal_round path)) = concat (replicate k (removal_round path)) @ removal_round path"
    by (induction k) simp_all
  with Suc starve_round [OF _ assms] show ?case by (metis append_Cons)
qed

text \<open>
  With a thread that keeps removing the path no bound exists: \<open>getCommitRule\<close> can retry any number
  of times without returning.
\<close>

theorem getter_can_starve:
  assumes "path \<noteq> []"
  shows "\<exists>later st T. conc_run P 2 (Called 0 (GetCommitRule path) # later) (st, T) \<and>
    own_sections 0 later = 2 * k \<and> list_all (\<lambda>ev. \<forall>c a. ev \<noteq> Returned 0 c a) later \<and> \<not> idle (T ! 0)"
proof -
  have "own_sections 0 (concat (replicate k (removal_round path))) = 2 * k"
    by (induction k) (simp_all add: removal_round_def)
  moreover have "list_all (\<lambda>ev. \<forall>c a. ev \<noteq> Returned 0 c a) (concat (replicate k (removal_round path)))"
    by (auto simp: list_all_iff removal_round_def)
  moreover have "\<not> idle (reading path ! 0)" by (simp add: reading_def idle_def)
  ultimately show ?thesis using starve_rounds [OF assms] by blast
qed

theorem getter_can_starve_witness:
  "\<exists>later st T. conc_run demo 2 (Called 0 (GetCommitRule ''/a'') # later) (st, T) \<and>
    own_sections 0 later = 2 * 50 \<and> list_all (\<lambda>ev. \<forall>c a. ev \<noteq> Returned 0 c a) later \<and> \<not> idle (T ! 0)"
  by (rule getter_can_starve) simp

end
