(* ===== verification/CL_Runtime_Spec.thy ===== *)
theory CL_Runtime_Spec
  imports CL_Runtime
begin

text \<open>
  Properties of the whole \<open>Engine\<close> object: which backends a configuration file leaves registered, and
  that engines which share a disk see each other's commits through any mixture of backends.
\<close>

subsection \<open>The registered backends\<close>

lemma register_configured_backends:
  assumes "register_configured P rt = Inr rt'"
  shows "the_engine rt' = the_engine rt \<and> configuration rt' = configuration rt \<and>
    (\<exists>ms. monitors rt' = monitors rt @ map MulticastMonitor ms @
        (if switch ''monitor.filesystem.enabled'' (configuration rt)
         then [FileSystemMonitor (new_FileSystemMonitor (hostname P))] else []) \<and>
      map Inr ms = (if switch ''monitor.mcast.enabled'' (configuration rt)
        then [new_MulticastMonitor (hostname P) (configuration rt)] else []))"
proof (cases "switch ''monitor.mcast.enabled'' (configuration rt)")
  case True
  with assms obtain m where m: "new_MulticastMonitor (hostname P) (configuration rt) = Inr m"
    by (auto simp: register_configured_def rbind_Inr_iff)
  with True assms show ?thesis
    by (intro conjI exI [of _ "[m]"]) (auto simp: register_configured_def registerMonitorBackend_def)
next
  case False
  with assms show ?thesis by (auto simp: register_configured_def registerMonitorBackend_def)
qed

text \<open>The engine made with the default settings: both backends, on the default groups.\<close>

lemma Engine_default:
  obtains m where "Engine P True = Inr \<lparr>the_engine = new_engine P, configuration = loadDefaults Map.empty,
      monitors = [MulticastMonitor m, FileSystemMonitor (new_FileSystemMonitor (hostname P))]\<rparr>"
    and "MULTICAST_COMMIT_ADDR m = ''224.224.224.1''" and "MULTICAST_COMMIT_PORT m = 12345"
proof -
  obtain m where m: "new_MulticastMonitor (hostname P) (loadDefaults Map.empty) = Inr m"
    "MULTICAST_COMMIT_ADDR m = ''224.224.224.1''" "MULTICAST_COMMIT_PORT m = 12345" by (simp add: mcast_defaults)
  show thesis by (rule that [OF _ m(2,3)]) (simp add: Engine_def useDefaultConfiguration_def registerMonitorBackend_def m(1))
qed


definition quiet_toml :: "string \<Rightarrow> string + (string \<times> toml) list" where
  "quiet_toml path =
     Inr [(''monitor'', TTable [(''mcast'', TTable [(''enabled'', TString ''false'')]),
                                (''filesystem'', TTable [(''enabled'', TString ''false'')])])]"


subsection \<open>Commits between engines\<close>

text \<open>Messages that the commit listener of a backend can take.\<close>

definition well_formed_arrivals :: "(nat \<Rightarrow> string list) \<Rightarrow> bool" where
  "well_formed_arrivals arrived \<longleftrightarrow> (\<forall>i. list_all (\<lambda>m. 2 \<le> length (c_str m)) (arrived i))"

lemma listen_all_Inr:
  assumes "list_all (\<lambda>m. 2 \<le> length (c_str m)) arrived"
  shows "\<exists>om. listen_all arrived s = Inr om"
  unfolding listen_all_def
proof (rule rfold_total, clarify)
  fix m out b assume "m \<in> set arrived"
  with assms have "2 \<le> length (c_str m)" by (auto simp: list_all_iff)
  then show "\<exists>s'. rbind (commit_listen m b) (\<lambda>(out', m'). Inr (out @ out', m')) = Inr s'"
    by (simp add: commit_listen_def commit_receive_def Let_def)
qed

lemma mcast_isCommitted_Inr:
  assumes "list_all (\<lambda>m. 2 \<le> length (c_str m)) arrived"
  shows "\<exists>k out m'. mcast_isCommitted q arrived m = Inr (k, out, m')"
proof -
  let ?ask = "[send_message (MULTICAST_COMMIT_ADDR m) (MULTICAST_COMMIT_PORT m) q GET]"
  obtain out m' where "listen_all arrived (?ask, m) = Inr (out, m')" using listen_all_Inr [OF assms] by fast
  then show ?thesis by (cases "mcast_knows q m") (auto simp: mcast_isCommitted_def)
qed

text \<open>A commit through every backend leaves the token on the disk.\<close>

definition token_ready :: "string \<Rightarrow> string \<Rightarrow> world \<Rightarrow> bool" where
  "token_ready c path w \<longleftrightarrow> cwd (the_disk w) = c \<and> is_absolute c \<and> fs_accepts c path (the_disk w)"

lemma backend_commit_ready:
  assumes "token_ready c path w" and "b \<noteq> MonitorInterface"
  shows "\<exists>b' w'. backend_setCommitted path b w = (Inr (), b', w') \<and> token_ready c path w' \<and>
    (fs_isCommitted path (the_disk w) \<or> (\<exists>m. b = FileSystemMonitor m) \<longrightarrow> fs_isCommitted path (the_disk w'))"
proof (cases b)
  case (FileSystemMonitor m)
  from assms(1) fs.commit_known [of "the_disk w" c path] obtain d where
    d: "fs_setCommitted path (the_disk w) = Inr d" "fs_isCommitted path d" by (auto simp: token_ready_def)
  moreover have "cwd d = c" using fs.commit_ok [OF _ d(1), of c] assms(1) by (auto simp: token_ready_def)
  moreover have "fs_accepts c path d" using fs.commit_accepts [OF d(1), of c path] assms(1) by (auto simp: token_ready_def)
  ultimately show ?thesis using assms(1) by (simp add: FileSystemMonitor token_ready_def)
qed (use assms in \<open>auto simp: token_ready_def mcast_setCommitted_def send_all_def\<close>)

lemma for_each_commit_ready:
  assumes "token_ready c path w" and "MonitorInterface \<notin> set bs"
  shows "\<exists>bs' w'. for_each_backend (backend_setCommitted path) bs w = (Inr (), bs', w') \<and> token_ready c path w' \<and>
    (fs_isCommitted path (the_disk w) \<or> (\<exists>m. FileSystemMonitor m \<in> set bs) \<longrightarrow> fs_isCommitted path (the_disk w'))"
  using assms
proof (induction bs arbitrary: w)
  case (Cons b bs)
  from backend_commit_ready [OF Cons.prems(1), of b] Cons.prems(2) obtain b' w1 where
    b: "backend_setCommitted path b w = (Inr (), b', w1)" and w1: "token_ready c path w1"
      "fs_isCommitted path (the_disk w) \<or> (\<exists>m. b = FileSystemMonitor m) \<longrightarrow> fs_isCommitted path (the_disk w1)" by auto
  from Cons.IH [OF w1(1)] Cons.prems(2) obtain bs' w' where
    "for_each_backend (backend_setCommitted path) bs w1 = (Inr (), bs', w')" "token_ready c path w'"
    "fs_isCommitted path (the_disk w1) \<or> (\<exists>m. FileSystemMonitor m \<in> set bs) \<longrightarrow> fs_isCommitted path (the_disk w')" by auto
  with b w1(2) show ?case by auto
qed simp

lemma monitor_isCommitted_disk:
  assumes "fs_isCommitted q (the_disk w)" and "FileSystemMonitor m \<in> set bs" and "MonitorInterface \<notin> set bs"
    and "well_formed_arrivals arrived"
  shows "fst (monitor_isCommitted q arrived bs w) = Inr True"
  using assms
proof (induction bs arbitrary: arrived w)
  case (Cons b bs)
  have rest: "well_formed_arrivals (\<lambda>i. arrived (Suc i))" using Cons.prems(4) by (simp add: well_formed_arrivals_def)
  have now: "list_all (\<lambda>m. 2 \<le> length (c_str m)) (arrived 0)" using Cons.prems(4) by (simp add: well_formed_arrivals_def)
  show ?case
  proof (cases b)
    case (MulticastMonitor mc)
    obtain k out mc' where "mcast_isCommitted q (arrived 0) mc = Inr (k, out, mc')"
      using mcast_isCommitted_Inr [OF now] by blast
    moreover have "fst (monitor_isCommitted q (\<lambda>i. arrived (Suc i)) bs (send_all out w)) = Inr True"
      using Cons.IH [OF _ _ _ rest] Cons.prems MulticastMonitor by (simp add: send_all_def)
    ultimately show ?thesis by (cases k) (auto simp: MulticastMonitor split: prod.splits)
  qed (use Cons.prems in auto)
qed simp



end
