(* ===== verification/CL_Socket.thy ===== *)
theory CL_Socket
  imports CL_Runtime CL_Api
begin

text \<open>
  The sockets of the multicast backend (\<open>src/monitors/Multicast.cpp\<close>) and of the API server
  (\<open>src/api.cpp\<close>), as system calls on a table of descriptors. Every call may fail: \<open>fails\<close> of a
  \<open>system\<close> says whether the n-th call of the process does, and with which message of \<open>strerror\<close>.
  \<open>CL_Monitor\<close> looks at the messages only and takes every socket to open; this theory is about what
  happens when one does not, and about what stays open.
\<close>

subsection \<open>Descriptors and system calls\<close>

record sockaddr_in =
  sin_addr :: "32 word"
  sin_port :: "16 word"

record sock =
  reuse :: bool
  bound_to :: "sockaddr_in option"
  member_of :: "32 word option"
  multicast_loop :: bool
  receive_timeout :: "(nat \<times> nat) option"

record kernel =
  calls_made :: nat
  next_fd :: nat
  descriptors :: "(nat \<times> sock) list"
  wire :: "(sockaddr_in \<times> string) list"

record system =
  inet_addr :: "string \<Rightarrow> 32 word"
  fails :: "nat \<Rightarrow> string option"

definition new_sock :: sock where
  "new_sock = \<lparr>reuse = False, bound_to = None, member_of = None, multicast_loop = False, receive_timeout = None\<rparr>"

definition sys_call :: "system \<Rightarrow> kernel \<Rightarrow> string option \<times> kernel" where
  "sys_call S k = (fails S (calls_made k), k\<lparr>calls_made := Suc (calls_made k)\<rparr>)"

definition sys_socket :: "system \<Rightarrow> kernel \<Rightarrow> (string + nat) \<times> kernel" where
  "sys_socket S k =
     (case sys_call S k of
        (Some e, k') \<Rightarrow> (Inl e, k')
      | (None, k') \<Rightarrow>
          (Inr (next_fd k'), k'\<lparr>next_fd := Suc (next_fd k'), descriptors := (next_fd k', new_sock) # descriptors k'\<rparr>))"

text \<open>\<open>setsockopt\<close> and \<open>bind\<close>: a change of one socket.\<close>

definition sys_configure :: "system \<Rightarrow> nat \<Rightarrow> (sock \<Rightarrow> sock) \<Rightarrow> kernel \<Rightarrow> string option \<times> kernel" where
  "sys_configure S fd f k =
     (case sys_call S k of
        (Some e, k') \<Rightarrow> (Some e, k')
      | (None, k') \<Rightarrow> (None, k'\<lparr>descriptors := map (\<lambda>(d, s). (d, if d = fd then f s else s)) (descriptors k')\<rparr>))"

definition sys_sendto :: "system \<Rightarrow> nat \<Rightarrow> sockaddr_in \<Rightarrow> string \<Rightarrow> kernel \<Rightarrow> string option \<times> kernel" where
  "sys_sendto S fd addr message k =
     (case sys_call S k of
        (Some e, k') \<Rightarrow> (Some e, k')
      | (None, k') \<Rightarrow> (None, k'\<lparr>wire := wire k' @ [(addr, message)]\<rparr>))"

definition sys_close :: "nat \<Rightarrow> kernel \<Rightarrow> kernel" where
  "sys_close fd k = k\<lparr>descriptors := filter (\<lambda>(d, s). d \<noteq> fd) (descriptors k)\<rparr>"

text \<open>\<open>htons(port)\<close> takes the \<open>int\<close> as 16 bits.\<close>

definition net_addr :: "system \<Rightarrow> string \<Rightarrow> cint \<Rightarrow> sockaddr_in" where
  "net_addr S address port = \<lparr>sin_addr = inet_addr S address, sin_port = ucast port\<rparr>"

subsection \<open>The sockets of the multicast backend\<close>

definition outgoing_socket_multicast :: "system \<Rightarrow> string \<Rightarrow> cint \<Rightarrow> kernel \<Rightarrow> (exn + nat \<times> sockaddr_in) \<times> kernel" where
  "outgoing_socket_multicast S address port k =
     (case sys_socket S k of
        (Inl e, k') \<Rightarrow> (Inl (MonitorException (''socket() failed: '' @ e)), k')
      | (Inr fd, k') \<Rightarrow> (Inr (fd, net_addr S address port), k'))"

text \<open>The first call that fails throws; the socket is not closed then.\<close>

fun configure_all :: "system \<Rightarrow> nat \<Rightarrow> (string \<times> (sock \<Rightarrow> sock)) list \<Rightarrow> kernel \<Rightarrow> (exn + nat) \<times> kernel" where
  "configure_all S fd [] k = (Inr fd, k)"
| "configure_all S fd ((what, f) # fs) k =
     (case sys_configure S fd f k of
        (Some e, k') \<Rightarrow> (Inl (MonitorException (what @ e)), k')
      | (None, k') \<Rightarrow> configure_all S fd fs k')"

definition incoming_socket_multicast :: "system \<Rightarrow> string \<Rightarrow> cint \<Rightarrow> kernel \<Rightarrow> (exn + nat) \<times> kernel" where
  "incoming_socket_multicast S address_ip port k =
     (case sys_socket S k of
        (Inl e, k') \<Rightarrow> (Inl (MonitorException (''socket() failed: '' @ e)), k')
      | (Inr fd, k') \<Rightarrow>
          configure_all S fd
            [(''REUSEPORT failed: '', \<lambda>s. s\<lparr>reuse := True\<rparr>),
             (''bind failed: '', \<lambda>s. s\<lparr>bound_to := Some (net_addr S address_ip port)\<rparr>),
             (''join multicast failed: '', \<lambda>s. s\<lparr>member_of := Some (inet_addr S address_ip)\<rparr>),
             (''loopback failed: '', \<lambda>s. s\<lparr>multicast_loop := True\<rparr>)] k')"

text \<open>\<open>_send_message\<close>: the result of \<open>sendto\<close> is not looked at.\<close>

definition send_over_socket :: "system \<Rightarrow> string \<Rightarrow> cint \<Rightarrow> string \<Rightarrow> MESSAGE_COMMANDS \<Rightarrow> kernel \<Rightarrow> (exn + unit) \<times> kernel" where
  "send_over_socket S ip_addr ip_port path action k =
     (case outgoing_socket_multicast S ip_addr ip_port k of
        (Inl ex, k') \<Rightarrow> (Inl ex, k')
      | (Inr (out_s, addr), k') \<Rightarrow>
          (Inr (), sys_close out_s (snd (sys_sendto S out_s addr (send_text path action) k'))))"

subsection \<open>The socket of the API server\<close>

text \<open>
  No result is looked at. When \<open>socket()\<close> fails the later calls are made with the descriptor -1 and
  fail as well; \<open>None\<close> is that descriptor. The socket is bound to every interface.
\<close>

definition server_options :: "system \<Rightarrow> string \<Rightarrow> cint \<Rightarrow> (sock \<Rightarrow> sock) list" where
  "server_options S address port =
     [\<lambda>s. s\<lparr>reuse := True\<rparr>,
      \<lambda>s. s\<lparr>bound_to := Some \<lparr>sin_addr = 0, sin_port = ucast port\<rparr>\<rparr>,
      \<lambda>s. s\<lparr>member_of := Some (inet_addr S address)\<rparr>,
      \<lambda>s. s\<lparr>receive_timeout := Some (0, 500)\<rparr>]"

definition server_socket :: "system \<Rightarrow> string \<Rightarrow> cint \<Rightarrow> kernel \<Rightarrow> nat option \<times> kernel" where
  "server_socket S address port k =
     (case sys_socket S k of
        (Inl e, k') \<Rightarrow> (None, k'\<lparr>calls_made := calls_made k' + 4\<rparr>)
      | (Inr fd, k') \<Rightarrow>
          (Some fd, fold (\<lambda>f k. snd (sys_configure S fd f k)) (server_options S address port) k'))"

subsection \<open>What the calls do to the table\<close>

text \<open>Descriptors are given out once.\<close>

definition kernel_ok :: "kernel \<Rightarrow> bool" where
  "kernel_ok k \<longleftrightarrow> list_all (\<lambda>(d, s). d < next_fd k) (descriptors k)"

lemma kernel_ok_others: "kernel_ok k \<Longrightarrow> map (\<lambda>(d, s). (d, if d = next_fd k then f s else s)) (descriptors k) = descriptors k"
  by (auto simp: kernel_ok_def list_all_iff intro!: map_idI)

lemma kernel_ok_close: "kernel_ok k \<Longrightarrow> filter (\<lambda>(d, s). d \<noteq> next_fd k) (descriptors k) = descriptors k"
  by (auto simp: kernel_ok_def list_all_iff intro!: filter_True)

text \<open>The table after configuring the newest descriptor.\<close>

lemma configure_newest:
  assumes "kernel_ok k0" and "descriptors k = (next_fd k0, s) # descriptors k0"
  shows "descriptors (snd (sys_configure S (next_fd k0) f k)) =
      (next_fd k0, if fails S (calls_made k) = None then f s else s) # descriptors k0 \<and>
    fst (sys_configure S (next_fd k0) f k) = fails S (calls_made k)"
  using assms kernel_ok_others [OF assms(1)] by (simp add: sys_configure_def sys_call_def split: option.split)

lemma configure_all_newest:
  assumes "kernel_ok k0" and "descriptors k = (next_fd k0, s) # descriptors k0"
  shows "case configure_all S (next_fd k0) fs k of
      (Inr fd, k') \<Rightarrow> fd = next_fd k0 \<and> descriptors k' = (fd, fold snd fs s) # descriptors k0
    | (Inl ex, k') \<Rightarrow> (\<exists>what s'. ex = MonitorException what \<and> descriptors k' = (next_fd k0, s') # descriptors k0)"
  using assms(2)
proof (induction fs arbitrary: k s)
  case (Cons x fs)
  obtain what f where x: "x = (what, f)" by (cases x)
  let ?r = "sys_configure S (next_fd k0) f k"
  note newest = configure_newest [OF assms(1) Cons.prems, of S f]
  show ?case
  proof (cases "fst ?r")
    case None
    then have "descriptors (snd ?r) = (next_fd k0, f s) # descriptors k0" using newest by simp
    from Cons.IH [OF this] None show ?thesis by (cases ?r) (auto simp: x split: prod.splits sum.splits)
  next
    case (Some e)
    with newest show ?thesis by (cases ?r) (auto simp: x)
  qed
qed simp

lemma incoming_newest:
  assumes "kernel_ok k"
  shows "case incoming_socket_multicast S address_ip port k of
      (Inr fd, k') \<Rightarrow> fd = next_fd k \<and>
        descriptors k' =
          (fd, \<lparr>reuse = True, bound_to = Some (net_addr S address_ip port), member_of = Some (inet_addr S address_ip),
                multicast_loop = True, receive_timeout = None\<rparr>) # descriptors k
    | (Inl ex, k') \<Rightarrow>
        (\<exists>what. ex = MonitorException what) \<and>
        (if fails S (calls_made k) \<noteq> None then descriptors k' = descriptors k
         else length (descriptors k') = length (descriptors k) + 1)"
proof (cases "fails S (calls_made k)")
  case None
  let ?k1 = "k\<lparr>calls_made := Suc (calls_made k), next_fd := Suc (next_fd k), descriptors := (next_fd k, new_sock) # descriptors k\<rparr>"
  have "sys_socket S k = (Inr (next_fd k), ?k1)" by (simp add: sys_socket_def sys_call_def None)
  let ?fs = "[(''REUSEPORT failed: '', \<lambda>s. s\<lparr>reuse := True\<rparr>),
       (''bind failed: '', \<lambda>s. s\<lparr>bound_to := Some (net_addr S address_ip port)\<rparr>),
       (''join multicast failed: '', \<lambda>s. s\<lparr>member_of := Some (inet_addr S address_ip)\<rparr>),
       (''loopback failed: '', \<lambda>s. s\<lparr>multicast_loop := True\<rparr>)]"
  let ?r = "configure_all S (next_fd k) ?fs ?k1"
  have start: "incoming_socket_multicast S address_ip port k = ?r"
    using \<open>sys_socket S k = _\<close> by (simp only: incoming_socket_multicast_def prod.case sum.case)
  obtain r k' where r: "?r = (r, k')" by fastforce
  from configure_all_newest [OF assms, where k = ?k1 and s = new_sock and S = S and fs = ?fs, unfolded r] None
  show ?thesis unfolding start r by (cases r) (auto simp: new_sock_def)
next
  case (Some e)
  then show ?thesis by (simp add: incoming_socket_multicast_def sys_socket_def sys_call_def)
qed

text \<open>
  C22. Opening a listening socket gives a new descriptor that is bound to the group and port of the
  configuration, shares the port and hears its own host, or throws a \<open>MonitorException\<close>. When any
  call but \<open>socket()\<close> is the one that fails, the new descriptor stays open.
\<close>

theorem listening_socket:
  assumes "kernel_ok k"
  shows "case incoming_socket_multicast S address_ip port k of
      (Inr fd, k') \<Rightarrow>
        descriptors k' =
          (fd, \<lparr>reuse = True, bound_to = Some (net_addr S address_ip port), member_of = Some (inet_addr S address_ip),
                multicast_loop = True, receive_timeout = None\<rparr>) # descriptors k
    | (Inl ex, k') \<Rightarrow>
        (\<exists>what. ex = MonitorException what) \<and>
        (if fails S (calls_made k) \<noteq> None then descriptors k' = descriptors k
         else length (descriptors k') = length (descriptors k) + 1)"
  using incoming_newest [OF assms, of S address_ip port] by (simp split: prod.splits sum.splits)

definition calm :: "nat list \<Rightarrow> system" where
  "calm bad = \<lparr>inet_addr = (\<lambda>s. of_nat (length s)), fails = (\<lambda>n. if n \<in> set bad then Some ''no luck'' else None)\<rparr>"

definition kernel0 :: kernel where
  "kernel0 = \<lparr>calls_made = 0, next_fd = 3, descriptors = [(1, new_sock)], wire = []\<rparr>"

lemma kernel0_ok [simp]: "kernel_ok kernel0"
  by code_simp

theorem listening_socket_witness:
  "length (descriptors (snd (incoming_socket_multicast (calm [2]) ''224.224.224.1'' 12345 kernel0))) = 2 \<and>
   (\<exists>what. fst (incoming_socket_multicast (calm [2]) ''224.224.224.1'' 12345 kernel0) = Inl (MonitorException what))"
proof -
  have "\<not> isl (fst (incoming_socket_multicast (calm []) ''224.224.224.1'' 12345 kernel0)) \<and>
      isl (fst (incoming_socket_multicast (calm [2]) ''224.224.224.1'' 12345 kernel0))" by code_simp
  moreover have "fails (calm [2]) (calls_made kernel0) = None \<and> length (descriptors kernel0) = 1" by code_simp
  ultimately show ?thesis
    using listening_socket [OF kernel0_ok, of "calm [2]" "''224.224.224.1''" 12345] by (auto split: prod.splits sum.splits)
qed

text \<open>
  C36. Sending a message opens a socket and closes it again: no descriptor is left whatever fails. It
  throws only if the socket cannot be opened; a datagram that cannot be sent is lost in silence, and
  one that is sent is the one of \<open>CL_Monitor\<close>, to the port modulo \<open>2 ^ 16\<close>.
\<close>

theorem send_leaves_no_socket:
  assumes "kernel_ok k"
  shows "case send_over_socket S ip_addr ip_port path action k of (r, k') \<Rightarrow>
    descriptors k' = descriptors k \<and>
    r = (case fails S (calls_made k) of None \<Rightarrow> Inr () | Some e \<Rightarrow> Inl (MonitorException (''socket() failed: '' @ e))) \<and>
    wire k' = wire k @
      (if fails S (calls_made k) = None \<and> fails S (Suc (calls_made k)) = None
       then (let d = send_message ip_addr ip_port path action
             in [(\<lparr>sin_addr = inet_addr S (dst_ip d), sin_port = of_int (uint (dst_port d) mod 2 ^ 16)\<rparr>, payload d)])
       else [])"
proof -
  have port: "(ucast ip_port :: 16 word) = of_int (uint ip_port mod 65536)"
    by (rule bit_word_eqI) (simp add: bit_simps bit_ucast_iff flip: take_bit_eq_mod [of 16, simplified])
  show ?thesis
    using kernel_ok_close [OF assms]
    by (simp add: send_over_socket_def outgoing_socket_multicast_def sys_socket_def sys_call_def sys_sendto_def sys_close_def
        net_addr_def send_message_def port Let_def split: option.split)
qed

theorem send_leaves_no_socket_witness:
  "descriptors (snd (send_over_socket (calm [1]) ''224.224.224.1'' 12345 ''f'' SET kernel0)) = descriptors kernel0 \<and>
   fst (send_over_socket (calm [1]) ''224.224.224.1'' 12345 ''f'' SET kernel0) = Inr ()"
proof -
  have "fails (calm [1]) (calls_made kernel0) = None" by code_simp
  with send_leaves_no_socket [OF kernel0_ok, of "calm [1]" "''224.224.224.1''" 12345 "''f''" SET] show ?thesis
    by (auto split: prod.splits)
qed

end
