(* ===== verification/CL_Lifecycle.thy ===== *)
theory CL_Lifecycle
  imports CL_Socket
begin

text \<open>
  The life of the two listener threads of a \<open>MulticastMonitor\<close> (\<open>src/monitors/Multicast.cpp\<close>), which
  poll their socket until the destructor asks them to stop. A run of a listener is the list of what
  each round sees: the outcome of \<open>poll\<close> and \<open>recvfrom\<close>, and the flag \<open>terminate\<close> at that moment. What
  is done with a message is \<open>commit_receive\<close> and \<open>home_receive\<close> of \<open>CL_Monitor\<close>.
\<close>

subsection \<open>The listeners\<close>

datatype poll_event =
    Quiet
  | ReceiveFailed
  | Received string

datatype 's thread_state =
    Listening 's
  | Stopped 's
  | Crashed

text \<open>
  The loop of both listeners. \<open>terminate\<close> is looked at only when \<open>poll\<close> times out. The buffer holds
  \<open>MESSAGE_SIZE\<close> bytes, cleared in every round; a longer datagram is cut, and one that fills it leaves
  no end of string. Where the handler gives \<open>None\<close> an exception leaves the thread function, which ends
  the process, or memory is read out of range.
\<close>

definition incoming_message :: "string \<Rightarrow> string option" where
  "incoming_message datagram =
     (let buffer = take MESSAGE_SIZE datagram
      in if length buffer = MESSAGE_SIZE \<and> CHR 0x00 \<notin> set buffer then None else Some buffer)"

fun listener_loop :: "(string \<Rightarrow> 's \<Rightarrow> 's option) \<Rightarrow> (poll_event \<times> bool) list \<Rightarrow> 's \<Rightarrow> 's thread_state" where
  "listener_loop handle [] s = Listening s"
| "listener_loop handle ((ev, terminate) # rounds) s =
     (case ev of
        Quiet \<Rightarrow> if terminate then Stopped s else listener_loop handle rounds s
      | ReceiveFailed \<Rightarrow> listener_loop handle rounds s
      | Received datagram \<Rightarrow>
          (case Option.bind (incoming_message datagram) (\<lambda>message. handle message s) of
             None \<Rightarrow> Crashed
           | Some s' \<Rightarrow> listener_loop handle rounds s'))"

definition listener_thread ::
  "system \<Rightarrow> string \<Rightarrow> cint \<Rightarrow> (string \<Rightarrow> 's \<Rightarrow> 's option) \<Rightarrow> (poll_event \<times> bool) list \<Rightarrow> 's \<Rightarrow> kernel \<Rightarrow>
     's thread_state \<times> kernel" where
  "listener_thread S ip_addr ip_port handle rounds s k =
     (case incoming_socket_multicast S ip_addr ip_port k of
        (Inl ex, k') \<Rightarrow> (Crashed, k')
      | (Inr fd, k') \<Rightarrow>
          (case listener_loop handle rounds s of
             Stopped s' \<Rightarrow> (Stopped s', sys_close fd k')
           | r \<Rightarrow> (r, k')))"

definition commit_handler :: "string \<Rightarrow> cint \<Rightarrow> string \<Rightarrow> datagram list \<times> string list \<Rightarrow> (datagram list \<times> string list) option" where
  "commit_handler ip_addr ip_port message = (\<lambda>(out, committed_files).
     case commit_receive ip_addr ip_port message committed_files of
       Inl ex \<Rightarrow> None
     | Inr (out', committed_files') \<Rightarrow> Some (out @ out', committed_files'))"

definition home_handler ::
  "string \<Rightarrow> cint \<Rightarrow> string \<Rightarrow> string \<Rightarrow> datagram list \<times> (string \<Rightarrow> string option) \<Rightarrow>
     (datagram list \<times> (string \<Rightarrow> string option)) option" where
  "home_handler ip_addr ip_port this_hostname message = (\<lambda>(out, home_nodes).
     map_option (\<lambda>(out', home_nodes'). (out @ out', home_nodes'))
       (home_receive ip_addr ip_port this_hostname message home_nodes))"

definition commit_listener ::
  "system \<Rightarrow> string \<Rightarrow> cint \<Rightarrow> (poll_event \<times> bool) list \<Rightarrow> string list \<Rightarrow> kernel \<Rightarrow>
     (datagram list \<times> string list) thread_state \<times> kernel" where
  "commit_listener S ip_addr ip_port rounds committed_files k =
     listener_thread S ip_addr ip_port (commit_handler ip_addr ip_port) rounds ([], committed_files) k"

definition home_node_listener ::
  "system \<Rightarrow> string \<Rightarrow> cint \<Rightarrow> string \<Rightarrow> (poll_event \<times> bool) list \<Rightarrow> (string \<Rightarrow> string option) \<Rightarrow> kernel \<Rightarrow>
     (datagram list \<times> (string \<Rightarrow> string option)) thread_state \<times> kernel" where
  "home_node_listener S ip_addr ip_port this_hostname rounds home_nodes k =
     listener_thread S ip_addr ip_port (home_handler ip_addr ip_port this_hostname) rounds ([], home_nodes) k"

text \<open>The destructor sets the flag and joins both threads: it returns when both have stopped.\<close>

definition stopped :: "'s thread_state \<Rightarrow> bool" where
  "stopped t = (case t of Stopped _ \<Rightarrow> True | _ \<Rightarrow> False)"

definition monitor_destructor_returns :: "'a thread_state \<Rightarrow> 'b thread_state \<Rightarrow> bool" where
  "monitor_destructor_returns commit_thread home_node_thread \<longleftrightarrow> stopped commit_thread \<and> stopped home_node_thread"

text \<open>
  \<open>~Monitor\<close> deletes the backends in the order they were registered; only a multicast backend has a
  destructor that can wait. What is left when it waits for ever is the rest of the list.
\<close>

fun delete_backends :: "(mcast \<Rightarrow> bool) \<Rightarrow> backend list \<Rightarrow> backend list" where
  "delete_backends returns [] = []"
| "delete_backends returns (b # bs) =
     (case b of
        MulticastMonitor m \<Rightarrow> if returns m then delete_backends returns bs else b # bs
      | _ \<Rightarrow> delete_backends returns bs)"

lemma delete_backends_returns: "delete_backends returns bs = [] \<longleftrightarrow> (\<forall>m. MulticastMonitor m \<in> set bs \<longrightarrow> returns m)"
  by (induction bs) (auto split: backend.splits)

subsection \<open>When a listener stops\<close>

lemma stopped_simps [simp]: "stopped (Stopped s)" "\<not> stopped (Listening s)" "\<not> stopped Crashed"
  by (simp_all add: stopped_def)

text \<open>Rounds whose datagrams the handler can take, in any state.\<close>

definition handled :: "(string \<Rightarrow> 's \<Rightarrow> 's option) \<Rightarrow> (poll_event \<times> bool) list \<Rightarrow> bool" where
  "handled handle rounds \<longleftrightarrow>
     (\<forall>datagram t s. (Received datagram, t) \<in> set rounds \<longrightarrow>
        (\<exists>message. incoming_message datagram = Some message \<and> handle message s \<noteq> None))"

lemma listener_loop_stops:
  "handled handle rounds \<Longrightarrow> stopped (listener_loop handle rounds s) \<longleftrightarrow> (Quiet, True) \<in> set rounds"
proof (induction handle rounds s rule: listener_loop.induct)
  case (2 handle ev terminate rounds s)
  have rest: "handled handle rounds" using "2.prems" unfolding handled_def by (meson list.set_intros(2))
  show ?case
  proof (cases ev)
    case (Received datagram)
    with "2.prems" obtain message where m: "incoming_message datagram = Some message" and "handle message s \<noteq> None"
      unfolding handled_def by (meson list.set_intros(1))
    then obtain s' where "handle message s = Some s'" by blast
    with Received m "2.IH"(3) [OF Received _ rest] show ?thesis by simp
  qed (use "2.IH" rest in \<open>auto split: if_splits\<close>)
qed simp

lemma listener_thread_stops:
  assumes "incoming_socket_multicast S ip_addr ip_port k = (Inr fd, k1)" and "handled handle rounds"
  shows "stopped (fst (listener_thread S ip_addr ip_port handle rounds s k)) \<longleftrightarrow> (Quiet, True) \<in> set rounds"
  using listener_loop_stops [OF assms(2), of s] assms(1)
  by (cases "listener_loop handle rounds s") (simp_all add: listener_thread_def)

text \<open>Messages of the protocol: a short text with a command, a path and, for homes, a host.\<close>

definition commit_message :: "string \<Rightarrow> bool" where
  "commit_message m \<longleftrightarrow> length m < MESSAGE_SIZE \<and> 2 \<le> length (c_str m)"

definition home_message :: "string \<Rightarrow> bool" where
  "home_message m \<longleftrightarrow>
     (let tokens = tokens_from [] (c_str m)
      in length m < MESSAGE_SIZE \<and> (if hd (tokens ! 0) = command_char SET then 3 else 2) \<le> length tokens)"

definition receives_only :: "(string \<Rightarrow> bool) \<Rightarrow> (poll_event \<times> bool) list \<Rightarrow> bool" where
  "receives_only good rounds \<longleftrightarrow> list_all (\<lambda>(ev, t). case ev of Received m \<Rightarrow> good m | _ \<Rightarrow> True) rounds"

lemma handled_by:
  assumes "receives_only good rounds" and "\<And>m s. good m \<Longrightarrow> length m < MESSAGE_SIZE \<and> handle m s \<noteq> None"
  shows "handled handle rounds"
  using assms by (fastforce simp: handled_def receives_only_def list_all_iff incoming_message_def)

lemma commit_handled: "receives_only commit_message rounds \<Longrightarrow> handled (commit_handler ip_addr ip_port) rounds"
  by (erule handled_by) (auto simp: commit_message_def commit_handler_def commit_receive_def Let_def)

lemma home_handled: "receives_only home_message rounds \<Longrightarrow> handled (home_handler ip_addr ip_port this_hostname) rounds"
  by (erule handled_by)
    (auto simp: home_message_def home_handler_def home_receive_def Let_def split: if_splits option.split)

text \<open>
  C19. The destructor of a monitor whose sockets opened and whose traffic is well formed returns exactly
  if each of its two listeners sees, after the flag is set, an interval in which nothing arrives. Under
  traffic without such a pause, or for a listener that never times out, it waits forever.
\<close>

theorem destructor_returns_iff:
  assumes "incoming_socket_multicast S commit_ip commit_port k1 = (Inr fd1, k1')"
    and "incoming_socket_multicast S home_ip home_port k2 = (Inr fd2, k2')"
    and "receives_only commit_message rounds1" and "receives_only home_message rounds2"
  shows "monitor_destructor_returns
      (fst (commit_listener S commit_ip commit_port rounds1 committed_files k1))
      (fst (home_node_listener S home_ip home_port host rounds2 home_nodes k2)) \<longleftrightarrow>
    (Quiet, True) \<in> set rounds1 \<and> (Quiet, True) \<in> set rounds2"
  unfolding monitor_destructor_returns_def commit_listener_def home_node_listener_def
  using listener_thread_stops [OF assms(1) commit_handled [OF assms(3)]]
    listener_thread_stops [OF assms(2) home_handled [OF assms(4)]] by blast

theorem destructor_returns_iff_witness:
  "\<not> monitor_destructor_returns
      (fst (commit_listener (calm []) ''224.224.224.1'' 12345 (replicate 9 (Received ''! f'', True)) [] kernel0))
      (fst (home_node_listener (calm []) ''224.224.224.2'' 12345 ''node'' [(Quiet, False), (Quiet, True)] Map.empty kernel0))"
proof -
  have "\<not> isl (fst (incoming_socket_multicast (calm []) ''224.224.224.1'' 12345 kernel0))"
    and "\<not> isl (fst (incoming_socket_multicast (calm []) ''224.224.224.2'' 12345 kernel0))" by code_simp+
  then obtain fd1 k1 fd2 k2 where
    "incoming_socket_multicast (calm []) ''224.224.224.1'' 12345 kernel0 = (Inr fd1, k1)"
    "incoming_socket_multicast (calm []) ''224.224.224.2'' 12345 kernel0 = (Inr fd2, k2)"
    by (metis isl_def prod.collapse sum.exhaust)
  moreover have "receives_only commit_message (replicate 9 (Received ''! f'', True))"
    and "receives_only home_message [(Quiet, False), (Quiet, True)]"
    by (simp_all add: receives_only_def list_all_iff commit_message_def c_str_def MESSAGE_SIZE_def PATH_MAX_def)
  ultimately show ?thesis using destructor_returns_iff by fastforce
qed

lemma listener_pause:
  assumes "\<not> isl (fst (incoming_socket_multicast S ip port k))" and "handled handle rounds"
  shows "stopped (fst (listener_thread S ip port handle rounds s k)) \<longleftrightarrow> (Quiet, True) \<in> set rounds"
proof -
  obtain fd k' where "incoming_socket_multicast S ip port k = (Inr fd, k')"
    using assms(1) by (metis isl_def prod.collapse sum.exhaust)
  from listener_thread_stops [OF this assms(2)] show ?thesis .
qed

text \<open>
  The destructor of the whole monitor, with the listeners on the groups their backends are configured for,
  returns exactly if every one of them sees a pause after its flag is set: one busy group is enough to stop it.
\<close>

theorem monitor_deleted_iff:
  fixes S :: system and sees_commits sees_homes :: "mcast \<Rightarrow> (poll_event \<times> bool) list" and k :: "mcast \<Rightarrow> kernel"
  defines "returns \<equiv> \<lambda>m. monitor_destructor_returns
      (fst (commit_listener S (MULTICAST_COMMIT_ADDR m) (MULTICAST_COMMIT_PORT m) (sees_commits m) (mc_committed_files m) (k m)))
      (fst (home_node_listener S (MULTICAST_HOME_NODE_ADDR m) (MULTICAST_HOME_NODE_PORT m) (mc_hostname m) (sees_homes m)
        (mc_home_nodes m) (k m)))"
  assumes "\<And>m ip port. MulticastMonitor m \<in> set bs \<Longrightarrow> \<not> isl (fst (incoming_socket_multicast S ip port (k m)))"
    and "\<And>m. MulticastMonitor m \<in> set bs \<Longrightarrow>
      receives_only commit_message (sees_commits m) \<and> receives_only home_message (sees_homes m)"
  shows "delete_backends returns bs = [] \<longleftrightarrow>
    (\<forall>m. MulticastMonitor m \<in> set bs \<longrightarrow> (Quiet, True) \<in> set (sees_commits m) \<and> (Quiet, True) \<in> set (sees_homes m))"
proof -
  have "returns m \<longleftrightarrow> (Quiet, True) \<in> set (sees_commits m) \<and> (Quiet, True) \<in> set (sees_homes m)"
    if m: "MulticastMonitor m \<in> set bs" for m
    using assms(3) [OF m] listener_pause [OF assms(2) [OF m] commit_handled] listener_pause [OF assms(2) [OF m] home_handled]
    by (simp add: returns_def monitor_destructor_returns_def commit_listener_def home_node_listener_def)
  then show ?thesis by (auto simp: delete_backends_returns)
qed

text \<open>What a stopped listener leaves: no descriptor of its own.\<close>

lemma listener_thread_closes:
  assumes "kernel_ok k" and "stopped (fst (listener_thread S ip_addr ip_port handle rounds s k))"
  shows "descriptors (snd (listener_thread S ip_addr ip_port handle rounds s k)) = descriptors k"
proof -
  obtain r k1 where r: "incoming_socket_multicast S ip_addr ip_port k = (r, k1)" by fastforce
  with assms(2) obtain fd where fd: "r = Inr fd" by (cases r) (simp_all add: listener_thread_def)
  with r incoming_newest [OF assms(1), of S ip_addr ip_port] obtain s' where
    "fd = next_fd k" "descriptors k1 = (fd, s') # descriptors k" by auto
  with assms r fd show ?thesis
    by (cases "listener_loop handle rounds s") (auto simp: listener_thread_def sys_close_def kernel_ok_close)
qed

end
