(* ===== verification/CL_Server.thy ===== *)
theory CL_Server
  imports CL_Socket
begin

text \<open>
  The thread of the API server (\<open>src/api.cpp\<close>): its loop, which looks at its flag in every round, and
  the start, where the constructor waits on a condition variable for the thread to be ready, a
  machine of two threads whose steps interleave in any order; and the destruction of an engine, member
  by member, while its server still receives.
\<close>

subsection \<open>The loop\<close>

text \<open>
  One element per round: the flag as the round finds it, and what \<open>recvfrom\<close> returns, \<open>None\<close> for an
  error or the timeout. The text handed to the parser ends at the first null character.
\<close>

definition RECV_BUF_SIZE :: nat where
  "RECV_BUF_SIZE = 65535"

definition server_text :: "string \<Rightarrow> string" where
  "server_text datagram = c_str (take (RECV_BUF_SIZE - 1) datagram)"

fun server_loop :: "platform \<Rightarrow> jsoncons \<Rightarrow> (bool \<times> string option) list \<Rightarrow> engine \<Rightarrow> bool \<times> engine" where
  "server_loop P J [] st = (False, st)"
| "server_loop P J ((terminate, received) # rounds) st =
     (if terminate then (True, st)
      else case received of
             None \<Rightarrow> server_loop P J rounds st
           | Some datagram \<Rightarrow>
               if datagram = [] then server_loop P J rounds st
               else server_loop P J rounds (server_receive P J (server_text datagram) st))"

text \<open>The whole thread. On the descriptor -1 every \<open>recvfrom\<close> fails.\<close>

definition server_thread ::
  "platform \<Rightarrow> jsoncons \<Rightarrow> system \<Rightarrow> string \<Rightarrow> cint \<Rightarrow> (bool \<times> string option) list \<Rightarrow> engine \<Rightarrow> kernel \<Rightarrow>
     bool \<times> engine \<times> kernel" where
  "server_thread P J S address port rounds st k =
     (case server_socket S address port k of
        (None, k') \<Rightarrow>
          (case server_loop P J (map (\<lambda>(terminate, received). (terminate, None)) rounds) st of
             (returned, st') \<Rightarrow> (returned, st', k'))
      | (Some fd, k') \<Rightarrow>
          (case server_loop P J rounds st of
             (returned, st') \<Rightarrow> (returned, st', if returned then sys_close fd k' else k')))"

text \<open>The datagrams that arrive before the flag is seen.\<close>

definition heard :: "(bool \<times> string option) list \<Rightarrow> string list" where
  "heard rounds =
     filter (\<lambda>d. d \<noteq> []) (map the (filter (\<lambda>r. r \<noteq> None) (map snd (takeWhile (\<lambda>r. \<not> fst r) rounds))))"

lemma server_loop_heard:
  "server_loop P J rounds st = (list_ex fst rounds, server_run P J (map server_text (heard rounds)) st)"
  by (induction P J rounds st rule: server_loop.induct) (simp_all add: heard_def server_run_def split: option.split)

lemma configure_fold_newest:
  assumes "kernel_ok k0" and "descriptors k = (next_fd k0, s) # descriptors k0"
  shows "\<exists>s'. descriptors (fold (\<lambda>f k. snd (sys_configure S (next_fd k0) f k)) fs k) = (next_fd k0, s') # descriptors k0"
  using assms(2) by (induction fs arbitrary: k s) (auto simp: configure_newest [OF assms(1)])

lemma server_socket_newest:
  assumes "kernel_ok k"
  shows "case server_socket S address port k of
      (None, k') \<Rightarrow> fails S (calls_made k) \<noteq> None \<and> descriptors k' = descriptors k
    | (Some fd, k') \<Rightarrow> fails S (calls_made k) = None \<and> fd = next_fd k \<and> (\<exists>s. descriptors k' = (fd, s) # descriptors k)"
  using configure_fold_newest [OF assms, where s = new_sock]
  by (auto simp: server_socket_def sys_socket_def sys_call_def split: option.split)

text \<open>
  C20. The server thread returns exactly if some round finds the flag set, after which its socket is
  closed; the engine is then the one the datagrams received before that round leave, cut to the
  buffer. If the socket could not be made it runs on without ever receiving anything.
\<close>

theorem server_thread_outcome:
  assumes "kernel_ok k"
  shows "case server_thread P J S address port rounds st k of (returned, st', k') \<Rightarrow>
    (returned \<longleftrightarrow> list_ex fst rounds) \<and>
    st' = (if fails S (calls_made k) = None then server_run P J (map server_text (heard rounds)) st else st) \<and>
    (returned \<longrightarrow> descriptors k' = descriptors k)"
proof -
  have deaf: "heard (map (\<lambda>(t, r). (t, None)) rounds) = []"
    by (auto simp: heard_def filter_empty_conv dest!: set_takeWhileD)
  have flag: "list_ex fst (map (\<lambda>(t, r). (t, None :: string option)) rounds) = list_ex fst rounds"
    by (simp add: list_ex_iff case_prod_unfold)
  obtain fd k1 where s: "server_socket S address port k = (fd, k1)" by fastforce
  from server_socket_newest [OF assms, of S address port] s show ?thesis
    by (cases fd)
      (auto simp: server_thread_def server_loop_heard deaf flag server_run_def sys_close_def kernel_ok_close [OF assms])
qed

theorem server_thread_outcome_witness:
  "case server_thread demo demo_json (calm []) ''224.224.224.3'' 5000
      [(False, Some ''D''), (False, None), (True, Some ''D'')] (new_engine demo) kernel0 of (returned, st', k') \<Rightarrow>
    returned \<and> contains demo ''f'' st' \<and> descriptors k' = descriptors kernel0"
proof -
  let ?rounds = "[(False, Some ''D''), (False, None), (True, Some ''D'')]"
  have "fails (calm []) (calls_made kernel0) = None" and "list_ex fst ?rounds" by code_simp+
  moreover have "map server_text (heard ?rounds) = [''D'']"
    by (simp add: heard_def server_text_def c_str_def RECV_BUF_SIZE_def)
  moreover have "contains demo ''f'' (server_run demo demo_json [''D''] (new_engine demo))" by code_simp
  ultimately show ?thesis
    using server_thread_outcome [OF kernel0_ok, where P = demo and J = demo_json and S = "calm []" and address = "''224.224.224.3''" and port = 5000
          and rounds = ?rounds and st = "new_engine demo"]
    by (auto split: prod.splits)
qed

subsection \<open>The start\<close>

text \<open>
  The constructor starts the thread, locks \<open>_setupMtx\<close> and waits: while \<open>thread_ready\<close> is false it
  blocks. Looking at the flag and blocking are two steps of the client; the thread sets the flag and
  notifies in two steps, without the mutex, so that they fall between them. \<open>Spurious\<close> is a wake-up
  without a notification, which the standard permits and never promises.
\<close>

datatype server_pc = Preparing | Flagged | Serving

datatype client_pc = Testing | Going_to_wait | Waiting | Constructed

datatype actor = Server_thread | Constructor | Spurious

record startup =
  thread_ready :: bool
  server_at :: server_pc
  client_at :: client_pc

definition starting :: "bool \<Rightarrow> startup" where
  "starting ready = \<lparr>thread_ready = ready, server_at = Preparing, client_at = Testing\<rparr>"

definition notify_all :: "startup \<Rightarrow> startup" where
  "notify_all s = (if client_at s = Waiting then s\<lparr>client_at := Testing\<rparr> else s)"

fun startup_step :: "actor \<Rightarrow> startup \<Rightarrow> startup option" where
  "startup_step Server_thread s =
     (case server_at s of
        Preparing \<Rightarrow> Some (s\<lparr>thread_ready := True, server_at := Flagged\<rparr>)
      | Flagged \<Rightarrow> Some (notify_all (s\<lparr>server_at := Serving\<rparr>))
      | Serving \<Rightarrow> None)"
| "startup_step Constructor s =
     (case client_at s of
        Testing \<Rightarrow> Some (s\<lparr>client_at := (if thread_ready s then Constructed else Going_to_wait)\<rparr>)
      | Going_to_wait \<Rightarrow> Some (s\<lparr>client_at := Waiting\<rparr>)
      | _ \<Rightarrow> None)"
| "startup_step Spurious s = (if client_at s = Waiting then Some (s\<lparr>client_at := Testing\<rparr>) else None)"

text \<open>A schedule names who moves next; it is possible if each named actor can move.\<close>

fun startup_run :: "actor list \<Rightarrow> startup \<Rightarrow> startup option" where
  "startup_run [] s = Some s"
| "startup_run (a # schedule) s = Option.bind (startup_step a s) (startup_run schedule)"

definition stuck :: "startup \<Rightarrow> bool" where
  "stuck s \<longleftrightarrow> startup_step Server_thread s = None \<and> startup_step Constructor s = None"

lemma startup_run_append: "startup_run (xs @ ys) s = Option.bind (startup_run xs s) (startup_run ys)"
  by (induction xs arbitrary: s) (simp_all split: Option.bind_split)

text \<open>The states a start reaches: with the flag down no constructor is through.\<close>

definition startup_ok :: "startup \<Rightarrow> bool" where
  "startup_ok s \<longleftrightarrow> (thread_ready s \<longleftrightarrow> server_at s \<noteq> Preparing) \<and> (client_at s = Constructed \<longrightarrow> thread_ready s)"

lemma startup_ok_step: "startup_ok s \<Longrightarrow> startup_step a s = Some s' \<Longrightarrow> startup_ok s'"
  by (cases a) (auto simp: startup_ok_def notify_all_def split: server_pc.splits client_pc.splits if_splits)

lemma startup_ok_run: "startup_ok s \<Longrightarrow> startup_run schedule s = Some s' \<Longrightarrow> startup_ok s'"
  by (induction schedule arbitrary: s) (auto simp: bind_eq_Some_conv intro: startup_ok_step)

text \<open>
  When the first server of the process starts, the constructor returns only after the thread has
  prepared its socket, in every interleaving and with spurious wake-ups. Nothing lowers the flag again:
  when a later server starts, the constructor can return at once, before anything listens.
\<close>

theorem constructor_waits_for_server:
  assumes "startup_run schedule (starting False) = Some s" and "client_at s = Constructed"
  shows "server_at s \<noteq> Preparing \<and>
    map_option (\<lambda>s. (client_at s, server_at s)) (startup_run [Constructor] (starting True)) = Some (Constructed, Preparing)"
proof -
  have "startup_ok (starting False)" by (simp add: startup_ok_def starting_def)
  with startup_ok_run assms have "startup_ok s" by blast
  with assms(2) show ?thesis by (auto simp: startup_ok_def starting_def)
qed

theorem constructor_waits_for_server_witness:
  "\<exists>s. startup_run [Constructor, Constructor, Server_thread, Spurious, Constructor] (starting False) = Some s \<and>
    client_at s = Constructed \<and> server_at s \<noteq> Preparing"
proof -
  obtain s where s: "startup_run [Constructor, Constructor, Server_thread, Spurious, Constructor] (starting False) = Some s"
    "client_at s = Constructed" by (simp add: starting_def notify_all_def)
  with constructor_waits_for_server [OF s] show ?thesis by blast
qed

text \<open>The runs without spurious wake-ups, one move at a time.\<close>

definition plain_run :: "actor list \<Rightarrow> startup \<Rightarrow> startup \<Rightarrow> bool" where
  "plain_run schedule s s' \<longleftrightarrow> startup_run schedule s = Some s' \<and> Spurious \<notin> set schedule"

lemma plain_run_unfold:
  "plain_run schedule s t \<longleftrightarrow>
     schedule = [] \<and> s = t \<or>
     (\<exists>rest. schedule = Server_thread # rest \<and>
        (case startup_step Server_thread s of None \<Rightarrow> False | Some s' \<Rightarrow> plain_run rest s' t)) \<or>
     (\<exists>rest. schedule = Constructor # rest \<and>
        (case startup_step Constructor s of None \<Rightarrow> False | Some s' \<Rightarrow> plain_run rest s' t))"
proof (cases schedule)
  case (Cons a rest)
  then show ?thesis by (cases a) (auto simp: plain_run_def split: Option.bind_split option.split)
qed (auto simp: plain_run_def)

text \<open>
  C13. Without spurious wake-ups, the constructor of the first server ends up returned, in every
  interleaving but one: if it finds the flag down, then the thread sets the flag and notifies, and only
  then it blocks, it waits for ever.
\<close>

theorem startup_hangs_iff:
  assumes "startup_run schedule (starting False) = Some s" and "Spurious \<notin> set schedule" and "stuck s"
  shows "client_at s = (if schedule = [Constructor, Server_thread, Server_thread, Constructor] then Waiting else Constructed)"
proof -
  have "plain_run schedule (starting False) s" using assms(1,2) by (simp add: plain_run_def)
  with assms(3) show ?thesis
    by (simp add: plain_run_unfold starting_def notify_all_def) (auto simp: stuck_def)
qed

theorem startup_hangs_iff_witness:
  "\<exists>s. startup_run [Constructor, Server_thread, Server_thread, Constructor] (starting False) = Some s \<and> client_at s = Waiting"
proof -
  obtain s where s: "startup_run [Constructor, Server_thread, Server_thread, Constructor] (starting False) = Some s" "stuck s"
    by (simp add: starting_def notify_all_def stuck_def)
  with startup_hangs_iff [OF s(1) _ s(2)] show ?thesis by simp
qed

subsection \<open>The server of an engine\<close>

text \<open>
  \<open>Engine::startApiServer\<close>: where the new server listens and how its start begins; \<open>ready\<close> is the
  global flag at that moment. The pointer of the engine then holds it, and only after that an earlier
  server is destroyed, whose destructor sets its flag and waits for its thread.
\<close>

record api_server =
  server_address :: string
  server_port :: cint
  server_start :: startup

definition CapioClApiServer :: "bool \<Rightarrow> config \<Rightarrow> exn + api_server" where
  "CapioClApiServer ready conf =
     rbind (api_port conf) (\<lambda>port.
       Inr \<lparr>server_address = api_address conf, server_port = port, server_start = starting ready\<rparr>)"

definition startApiServer :: "bool \<Rightarrow> runtime \<Rightarrow> exn + api_server" where
  "startApiServer ready rt = CapioClApiServer ready (configuration rt)"

definition api_destructor_returns :: "bool \<times> engine \<times> kernel \<Rightarrow> bool" where
  "api_destructor_returns thread = fst thread"

subsection \<open>The end of an engine\<close>

text \<open>What a datagram asks for: the path and the entry, when it is well formed and of this workflow.\<close>

definition server_decode :: "jsoncons \<Rightarrow> string \<Rightarrow> string \<Rightarrow> (string \<times> CapioCLEntry) option" where
  "server_decode J wf_name buffer =
     (case rbind (json_parse J buffer) (\<lambda>data.
           rbind (get_value_or (as_string J) ''path'' [] data) (\<lambda>path.
           if path = [] then Inr None
           else
             rbind (get_value_or (as_string J) ''workflow_name'' [] data) (\<lambda>wf.
             if wf = [] then Inr None
             else
               rbind (get_value_or (as_string J) ''CapioClEntry'' [] data) (\<lambda>jsonEntry.
               if jsonEntry = [] then Inr None
               else
                 rbind (CapioCLEntry_fromJson J jsonEntry) (\<lambda>rule.
                 if wf = wf_name then Inr (Some (path, rule)) else Inr None)))))
      of Inl _ \<Rightarrow> None
       | Inr r \<Rightarrow> r)"

lemma rbind_cases: "rbind m f = (case m of Inl e \<Rightarrow> Inl e | Inr x \<Rightarrow> f x)"
  by (cases m) simp_all

lemma server_receive_decode:
  "server_receive P J buffer st =
     (case server_decode J (getWorkflowName st) buffer of None \<Rightarrow> st | Some (path, rule) \<Rightarrow> add_entry P path rule st)"
  unfolding server_receive_def server_decode_def rbind_cases by (simp split: sum.split)

text \<open>
  The members of \<open>Engine\<close> in the order of their declarations; its destructor, which the compiler
  makes, destroys them in the reverse order. Destroying \<open>webapi_server\<close> ends the thread of the server.
\<close>

datatype engine_member =
    Shared_mutex | Store_all_in_memory | Configuration_member | Monitor_member | Node_name | Workflow_name
  | Webapi_server | Capio_cl_entries

definition Engine_members :: "engine_member list" where
  "Engine_members =
     [Shared_mutex, Store_all_in_memory, Configuration_member, Monitor_member, Node_name, Workflow_name,
      Webapi_server, Capio_cl_entries]"

datatype teardown_event = Destroy_next | Datagram string

text \<open>\<open>None\<close>: an entry is added to a map that has been destroyed.\<close>

fun teardown :: "platform \<Rightarrow> jsoncons \<Rightarrow> teardown_event list \<Rightarrow> engine_member list \<times> engine \<Rightarrow> (engine_member list \<times> engine) option" where
  "teardown P J [] s = Some s"
| "teardown P J (Destroy_next # es) (alive, st) = teardown P J es (butlast alive, st)"
| "teardown P J (Datagram buffer # es) (alive, st) =
     (if Webapi_server \<notin> set alive then teardown P J es (alive, st)
      else case server_decode J (getWorkflowName st) buffer of
             None \<Rightarrow> teardown P J es (alive, st)
           | Some (path, rule) \<Rightarrow>
               if Capio_cl_entries \<notin> set alive then None else teardown P J es (alive, add_entry P path rule st))"

lemma teardown_append:
  "teardown P J (es @ fs) s = Option.bind (teardown P J es s) (teardown P J fs)"
  by (induction P J es s rule: teardown.induct) (simp_all split: option.split)

lemma teardown_serving:
  assumes "Webapi_server \<in> set alive" and "Capio_cl_entries \<in> set alive"
  shows "teardown P J (map Datagram ds) (alive, st) = Some (alive, server_run P J ds st)"
  using assms by (induction ds arbitrary: st) (simp_all add: server_run_def server_receive_decode split: option.split)

lemma teardown_no_server:
  assumes "Webapi_server \<notin> set alive"
  shows "\<exists>alive'. teardown P J es (alive, st) = Some (alive', st)"
  using assms
proof (induction es arbitrary: alive)
  case (Cons e es)
  have "Webapi_server \<notin> set (butlast alive)" using Cons.prems by (auto dest: in_set_butlastD)
  with Cons show ?case by (cases e) auto
qed simp

lemma teardown_no_entries:
  assumes "Webapi_server \<in> set alive" and "Capio_cl_entries \<notin> set alive"
  shows "teardown P J (map Datagram ds) (alive, st) =
    (if list_ex (\<lambda>d. server_decode J (getWorkflowName st) d \<noteq> None) ds then None else Some (alive, st))"
  using assms by (induction ds) (auto split: option.split)

text \<open>
  C21. An engine with a running API server is destroyed safely exactly if no datagram with a rule for
  its workflow arrives between the destruction of its first member and its second: the map of the
  entries is destroyed before the server that adds to it is stopped. What arrives before is added,
  what arrives later is not received.
\<close>

theorem engine_destruction_defined_iff:
  "teardown P J (map Datagram ds @ Destroy_next # map Datagram ds' @ Destroy_next # es) (Engine_members, st) \<noteq> None \<longleftrightarrow>
     \<not> list_ex (\<lambda>d. server_decode J (getWorkflowName (server_run P J ds st)) d \<noteq> None) ds'"
proof -
  let ?st = "server_run P J ds st"
  have first: "teardown P J (map Datagram ds) (Engine_members, st) = Some (Engine_members, ?st)"
    by (rule teardown_serving) (simp_all add: Engine_members_def)
  have "Webapi_server \<in> set (butlast Engine_members)" "Capio_cl_entries \<notin> set (butlast Engine_members)"
    by (simp_all add: Engine_members_def)
  note between = teardown_no_entries [OF this, of P J ds' ?st]
  have "Webapi_server \<notin> set (butlast (butlast Engine_members))" by (simp add: Engine_members_def)
  from teardown_no_server [OF this, of P J es ?st] obtain alive' where
    "teardown P J es (butlast (butlast Engine_members), ?st) = Some (alive', ?st)" by blast
  then show ?thesis by (simp add: teardown_append first between)
qed

lemma engine_destruction_races:
  "teardown demo demo_json [Destroy_next, Datagram ''D''] (Engine_members, new_engine demo) = None"
  by code_simp

end
