(* ===== verification/CL_Print.thy ===== *)
theory CL_Print
  imports CL_Session CL_Decimal
begin

text \<open>
  \<open>Engine::print\<close> (\<open>src/Engine.cpp\<close>) and \<open>printer::print\<close> (\<open>capiocl/printer.h\<close>): the table of the
  rules on standard output, as the list of its lines. The columns are kept by \<open>setw\<close> with widths
  computed from the lengths of the texts, in unsigned arithmetic that is then converted to an \<open>int\<close>.

  The property is that the columns are straight: every line of the table has the width of its frame
  on the screen, where a byte is taken to be one column and colour sequences take no room.
\<close>

subsection \<open>Lines\<close>

definition ESC :: char where
  "ESC = CHR 0x1B"

definition CLI_LEVEL_JSON :: string where
  "CLI_LEVEL_JSON = ''['' @ [ESC] @ ''[1;34mCAPIO-CL'' @ [ESC] @ ''[0m''"

text \<open>\<open>printer::print\<close> writes one line; \<open>host\<close> is the host name, asked for once.\<close>

definition print_line :: "string \<Rightarrow> string \<Rightarrow> string \<Rightarrow> string" where
  "print_line host message_type message_line =
     (if message_type = [] then [] else message_type @ '' '' @ host @ ''] '' @ message_line)"

text \<open>\<open>os << std::setfill(' ') << std::setw(w) << s\<close>\<close>

definition set_w :: "int \<Rightarrow> string \<Rightarrow> string" where
  "set_w w s = replicate (nat (w - int (length s))) CHR '' '' @ s"

text \<open>\<open>setw(c - len)\<close>, an unsigned subtraction that is converted to \<open>int\<close>.\<close>

definition width_left :: "nat \<Rightarrow> nat \<Rightarrow> int" where
  "width_left c len = sint (ucast (of_nat c - of_nat len :: 64 word) :: 32 word)"

definition truncateLastN :: "string \<Rightarrow> nat \<Rightarrow> string" where
  "truncateLastN str n = (if n < length str then ''[..] '' @ drop (length str - n) str else str)"

subsection \<open>The table\<close>

definition yes_no :: "bool \<Rightarrow> string" where
  "yes_no b = (if b then ''YES'' else ''NO '')"

definition color_preamble :: "CapioCLEntry \<Rightarrow> string" where
  "color_preamble e = [ESC] @ (if store_in_memory e then ''[38;5;034m'' else ''[38;5;172m'')"

definition color_post :: string where
  "color_post = [ESC] @ ''[0m''"

definition base_line :: "string \<Rightarrow> CapioCLEntry \<Rightarrow> string" where
  "base_line path e =
     (let name_trunc = truncateLastN path 12;
          kind = (if is_file e then ''F'' else ''D'')
      in ''|   '' @ color_preamble e @ kind @ color_post @ ''  | '' @ color_preamble e @
         name_trunc @ color_post @ set_w (width_left 20 (length name_trunc)) ''| '')"

definition n_files_text :: "CapioCLEntry \<Rightarrow> string" where
  "n_files_text e = (if sint (directory_children_count e) < 1 then ''N.A.'' else to_string (directory_children_count e))"

definition table_row :: "string \<Rightarrow> CapioCLEntry \<Rightarrow> nat \<Rightarrow> string" where
  "table_row path e i =
     (if i = 0 then base_line path e else ''|      |                   | '') @
     (if i < length (producers e)
      then let prod1 = truncateLastN (producers e ! i) 12 in prod1 @ set_w (width_left 20 (length prod1)) '' | ''
      else set_w 20 '' | '') @
     (if i < length (consumers e)
      then let cons1 = truncateLastN (consumers e ! i) 12 in '' '' @ cons1 @ set_w (width_left 20 (length cons1)) '' | ''
      else set_w 21 '' | '') @
     (if i = 0
      then '' '' @ commit_rule e @ set_w (width_left 20 (length (commit_rule e))) '' | '' @
           fire_rule e @ set_w (width_left 13 (length (fire_rule e))) '' | '' @
           ''    '' @ yes_no (permanent e) @ ''   |   '' @ yes_no (excluded e) @ ''   | '' @
           n_files_text e @ set_w (width_left 10 (length (n_files_text e))) '' |''
      else set_w 20 ''|'' @ set_w 13 ''|'' @ set_w 12 ''|'' @ set_w 10 ''|'' @ set_w 11 ''|'')"

definition entry_lines :: "string \<times> CapioCLEntry \<Rightarrow> string list" where
  "entry_lines = (\<lambda>(path, e).
     map (table_row path e) [0..<max (length (producers e)) (length (consumers e)) + 1] @
     [''*'' @ replicate 134 CHR ''~'' @ ''*''])"

definition header_lines :: "string \<Rightarrow> string list" where
  "header_lines wf_name =
     [''*'' @ replicate 134 CHR ''='' @ ''*'',
      ''|'' @ replicate 134 CHR '' '' @ ''|'',
      ''|     Parsed configuration file for workflow: '' @ [ESC] @ ''[1;36m'' @ wf_name @
        set_w (width_left 94 (length wf_name)) ([ESC] @ ''[0m |''),
      ''|'' @ replicate 134 CHR '' '' @ ''|'',
      ''|     File color legend:     '' @ [ESC] @ ''[48;5;034m  '' @ [ESC] @ ''[0m File stored in memory'' @
        replicate 82 CHR '' '' @ ''|'',
      ''|                            '' @ [ESC] @ ''[48;5;172m  '' @ [ESC] @ ''[0m File stored on file system'' @
        replicate 77 CHR '' '' @ ''|'',
      ''|'' @ replicate 134 CHR ''='' @ ''|'',
      ''|======|===================|===================|===================='' @
        ''|====================|============|===========|=========|==========|'',
      ''| Kind | Filename          | Producer step     | Consumer step      |  '' @
        ''Commit Rule       |  Fire Rule | Permanent | Exclude | n_files  |'',
      ''|======|===================|===================|====================|========'' @
        ''============|============|===========|=========|==========|'']"

definition table_lines :: "engine \<Rightarrow> string list" where
  "table_lines st = header_lines (workflow_name st) @ concat (map entry_lines (capio_cl_entries st))"

definition engine_print :: "string \<Rightarrow> engine \<Rightarrow> string list" where
  "engine_print host st =
     map (print_line host CLI_LEVEL_JSON)
       ([[], ''Composition of expected CAPIO FS: ''] @ table_lines st @ [[]])"

subsection \<open>What is seen of a line\<close>

text \<open>A terminal shows nothing of a sequence from the escape character to the next \<open>m\<close>.\<close>

fun seen :: "bool \<Rightarrow> string \<Rightarrow> string" where
  "seen hidden [] = []"
| "seen hidden (c # s) =
     (if hidden then seen (c \<noteq> CHR ''m'') s else if c = ESC then seen True s else c # seen False s)"

definition screen_width :: "string \<Rightarrow> nat" where
  "screen_width s = length (seen False s)"

definition no_escape :: "string \<Rightarrow> bool" where
  "no_escape s \<longleftrightarrow> ESC \<notin> set s"

lemma seen_plain: "no_escape s \<Longrightarrow> seen False (s @ t) = s @ seen False t"
  by (induction s) (auto simp: no_escape_def)

lemma width_plain [simp]: "no_escape s \<Longrightarrow> screen_width (s @ t) = length s + screen_width t"
  by (simp add: screen_width_def seen_plain)

lemma width_plain_end [simp]: "no_escape s \<Longrightarrow> screen_width s = length s"
  using width_plain [of s "[]"] by (simp add: screen_width_def)

lemma width_Cons [simp]: "c \<noteq> ESC \<Longrightarrow> screen_width (c # s) = Suc (screen_width s)" "screen_width [] = 0"
  by (simp_all add: screen_width_def)

lemma no_escape_simps [simp]:
  "no_escape []" "no_escape (c # s) \<longleftrightarrow> c \<noteq> ESC \<and> no_escape s" "no_escape (s @ t) \<longleftrightarrow> no_escape s \<and> no_escape t"
  "no_escape (replicate k c) \<longleftrightarrow> k = 0 \<or> c \<noteq> ESC"
  by (auto simp: no_escape_def)

lemma no_escape_drop: "no_escape s \<Longrightarrow> no_escape (drop k s)"
  by (auto simp: no_escape_def dest: in_set_dropD)

lemma no_escape_truncate [simp]: "no_escape s \<Longrightarrow> no_escape (truncateLastN s n)"
  by (simp add: truncateLastN_def no_escape_drop ESC_def)

lemma no_escape_set_w [simp]: "no_escape (set_w w s) = no_escape s"
  by (simp add: set_w_def ESC_def)

lemma width_colors [simp]:
  "screen_width (color_preamble e @ s) = screen_width s" "screen_width (color_post @ s) = screen_width s"
  by (simp_all add: screen_width_def color_preamble_def color_post_def ESC_def)

subsection \<open>Columns\<close>

lemma small_as_int:
  assumes "k < 2 ^ 31"
  shows "sint (ucast (of_nat k :: 64 word) :: 32 word) = int k"
proof -
  have "(ucast (of_nat k :: 64 word) :: 32 word) = of_nat k" by (rule bit_word_eqI) (simp add: bit_simps)
  moreover have "sint (of_nat k :: 32 word) = int k"
    using assms by (simp add: signed_of_nat signed_take_bit_int_eq_self)
  ultimately show ?thesis by (simp only:)
qed

lemma width_left_small:
  assumes "len \<le> c" and "c < 2 ^ 31"
  shows "width_left c len = int c - int len"
proof -
  have w: "(of_nat c - of_nat len :: 64 word) = of_nat (c - len)" using assms(1) by (simp add: of_nat_diff)
  have "width_left c len = int (c - len)" unfolding width_left_def w by (rule small_as_int) (use assms in simp)
  with assms(1) show ?thesis by (simp add: of_nat_diff)
qed

lemma length_set_w: "int (length s) \<le> w \<Longrightarrow> length (set_w w s) = nat w"
  by (simp add: set_w_def)

text \<open>A text and the padding after it fill the column, as long as the text leaves room for the separator.\<close>

lemma column:
  assumes "length t + length sep \<le> c" and "c < 2 ^ 31"
  shows "length t + length (set_w (width_left c (length t)) sep) = c"
  using assms by (simp add: width_left_small length_set_w)

lemma length_truncate: "length (truncateLastN s 12) \<le> 17"
  by (simp add: truncateLastN_def)

text \<open>The widths of the parts of a row, from left to right.\<close>

lemma width_base_line:
  assumes "no_escape path"
  shows "screen_width (base_line path e @ s) = 29 + screen_width s"
proof -
  have "length (truncateLastN path 12) + length (set_w (width_left 20 (length (truncateLastN path 12))) ''| '') = 20"
    using length_truncate [of path] by (intro column) simp_all
  with assms show ?thesis by (simp add: base_line_def Let_def ESC_def)
qed

lemma width_name_cell:
  assumes "no_escape n"
  shows "screen_width ((let t = truncateLastN n 12 in t @ set_w (width_left 20 (length t)) '' | '') @ s) = 20 + screen_width s"
proof -
  have "length (truncateLastN n 12) + length (set_w (width_left 20 (length (truncateLastN n 12))) '' | '') = 20"
    using length_truncate [of n] by (intro column) simp_all
  with assms show ?thesis by (simp add: Let_def ESC_def)
qed

definition row_fits :: "string \<Rightarrow> CapioCLEntry \<Rightarrow> bool" where
  "row_fits path e \<longleftrightarrow>
     no_escape path \<and> list_all no_escape (producers e) \<and> list_all no_escape (consumers e) \<and>
     no_escape (commit_rule e) \<and> no_escape (fire_rule e) \<and>
     length (commit_rule e) \<le> 17 \<and> length (fire_rule e) \<le> 10 \<and> length (n_files_text e) \<le> 8"

lemma no_escape_n_files [simp]: "no_escape (n_files_text e)"
proof -
  have "CHR 0x1B \<noteq> CHR ''-'' \<and> \<not> is_digit (CHR 0x1B)" by code_simp
  then show ?thesis
    using dec_of_digits [unfolded list_all_iff]
    by (auto simp: n_files_text_def no_escape_def ESC_def to_string_def split: if_splits)
qed

lemma width_rule_cells:
  assumes "row_fits path e"
  shows "screen_width ('' '' @ commit_rule e @ set_w (width_left 20 (length (commit_rule e))) '' | '' @
      fire_rule e @ set_w (width_left 13 (length (fire_rule e))) '' | '' @
      ''    '' @ yes_no (permanent e) @ ''   |   '' @ yes_no (excluded e) @ ''   | '' @
      n_files_text e @ set_w (width_left 10 (length (n_files_text e))) '' |'') = 66"
proof -
  have "length (commit_rule e) + length (set_w (width_left 20 (length (commit_rule e))) '' | '') = 20"
    "length (fire_rule e) + length (set_w (width_left 13 (length (fire_rule e))) '' | '') = 13"
    "length (n_files_text e) + length (set_w (width_left 10 (length (n_files_text e))) '' |'') = 10"
    using assms by (auto simp: row_fits_def intro!: column)
  moreover have "no_escape (yes_no b) \<and> length (yes_no b) = 3" for b by (simp add: yes_no_def ESC_def)
  ultimately show ?thesis using assms by (simp add: row_fits_def ESC_def)
qed

lemma width_row:
  assumes "row_fits path e"
  shows "screen_width (table_row path e i) = 136"
proof -
  have names: "no_escape path" "\<And>i. i < length (producers e) \<Longrightarrow> no_escape (producers e ! i)"
    "\<And>i. i < length (consumers e) \<Longrightarrow> no_escape (consumers e ! i)"
    using assms by (simp_all add: row_fits_def list_all_length)
  let ?kind = "if i = 0 then base_line path e else ''|      |                   | ''"
  let ?prod = "if i < length (producers e)
      then let prod1 = truncateLastN (producers e ! i) 12 in prod1 @ set_w (width_left 20 (length prod1)) '' | ''
      else set_w 20 '' | ''"
  let ?cons = "if i < length (consumers e)
      then let cons1 = truncateLastN (consumers e ! i) 12 in '' '' @ cons1 @ set_w (width_left 20 (length cons1)) '' | ''
      else set_w 21 '' | ''"
  have kind: "screen_width (?kind @ s) = 29 + screen_width s" for s
    using width_base_line [OF names(1)] by (simp add: ESC_def)
  have prod: "screen_width (?prod @ s) = 20 + screen_width s" for s
    using width_name_cell [OF names(2)] by (simp add: ESC_def length_set_w)
  have "screen_width ('' '' @ t) = 1 + screen_width t" for t by (rule trans [OF width_plain]) (simp_all add: ESC_def)
  then have cons: "screen_width (?cons @ s) = 21 + screen_width s" for s
    using width_name_cell [OF names(3)] by (simp add: ESC_def length_set_w Let_def)
  show ?thesis
  proof (cases "i = 0")
    case True
    then have "table_row path e i = ?kind @ ?prod @ ?cons @ '' '' @ commit_rule e @
        set_w (width_left 20 (length (commit_rule e))) '' | '' @
        fire_rule e @ set_w (width_left 13 (length (fire_rule e))) '' | '' @
        ''    '' @ yes_no (permanent e) @ ''   |   '' @ yes_no (excluded e) @ ''   | '' @
        n_files_text e @ set_w (width_left 10 (length (n_files_text e))) '' |''"
      by (simp only: table_row_def if_True refl)
    then show ?thesis by (simp only: kind prod cons width_rule_cells [OF assms])
  next
    case False
    then have "table_row path e i = ?kind @ ?prod @ ?cons @
        set_w 20 ''|'' @ set_w 13 ''|'' @ set_w 12 ''|'' @ set_w 10 ''|'' @ set_w 11 ''|''"
      by (simp only: table_row_def if_False refl)
    moreover have "screen_width (set_w 20 ''|'' @ set_w 13 ''|'' @ set_w 12 ''|'' @ set_w 10 ''|'' @ set_w 11 ''|'') = 66"
      by code_simp
    ultimately show ?thesis by (simp only: kind prod cons)
  qed
qed

subsection \<open>The whole table\<close>

lemma length_dec_of: "n < 10 ^ k \<Longrightarrow> 0 < k \<Longrightarrow> length (dec_of n) \<le> k"
proof (induction n arbitrary: k rule: dec_of.induct)
  case (1 n)
  show ?case
  proof (cases "n < 10")
    case False
    then obtain j where k: "k = Suc j" "0 < j" using "1.prems" by (cases k; cases "k - 1") auto
    with "1.prems" have "n div 10 < 10 ^ j" by (simp add: less_mult_imp_div_less mult.commute)
    with "1.IH" [of j] False k show ?thesis by (simp add: dec_of.simps [of n])
  qed (use "1.prems" in \<open>simp add: dec_of.simps [of n]\<close>)
qed

text \<open>What a path and its entry have to be like: no escape characters, rules of the language, a count of eight digits.\<close>

definition printable :: "string \<times> CapioCLEntry \<Rightarrow> bool" where
  "printable = (\<lambda>(path, e).
     no_escape path \<and> list_all no_escape (producers e) \<and> list_all no_escape (consumers e) \<and>
     entry_rules_valid e \<and> sint (directory_children_count e) < 10 ^ 8)"

lemma rules_fit:
  "r \<in> set commit_rules \<Longrightarrow> no_escape r \<and> length r \<le> 17" "r \<in> set fire_rules \<Longrightarrow> no_escape r \<and> length r \<le> 10"
  by (auto simp: commit_rules_def fire_rules_def rule_consts ESC_def)

lemma printable_fits: "printable (path, e) \<Longrightarrow> row_fits path e"
  using length_dec_of [of "nat (sint (directory_children_count e))" 8] rules_fit
  by (auto simp: printable_def row_fits_def entry_rules_valid_def n_files_text_def to_string_def)

lemma header_width:
  assumes "no_escape wf_name" and "length wf_name \<le> 88"
  shows "list_all (\<lambda>l. screen_width l = 136) (header_lines wf_name)"
proof -
  have "screen_width (set_w (width_left 94 (length wf_name)) ([ESC] @ ''[0m |'')) = nat (width_left 94 (length wf_name)) - 4"
    using assms(2) by (simp add: set_w_def screen_width_def seen_plain ESC_def width_left_small)
  then have "screen_width (''|     Parsed configuration file for workflow: '' @ [ESC] @ ''[1;36m'' @ wf_name @
      set_w (width_left 94 (length wf_name)) ([ESC] @ ''[0m |'')) = 136"
    using assms by (simp add: screen_width_def seen_plain ESC_def width_left_small)
  moreover have "screen_width (''*'' @ replicate 134 CHR ''='' @ ''*'') = 136"
    "screen_width (''|'' @ replicate 134 CHR '' '' @ ''|'') = 136" "screen_width (''|'' @ replicate 134 CHR ''='' @ ''|'') = 136"
    by code_simp+
  moreover have "list_all (\<lambda>l. screen_width l = 136) (drop 4 (header_lines []))" by code_simp
  ultimately show ?thesis by (simp add: header_lines_def del: append_Cons)
qed

text \<open>
  C28. The columns of the printed table are straight: with rules of the language, child counts of at most
  eight digits and no escape characters in the names, every line of the table is as wide on the
  screen as its frame, 136 characters, whatever the lengths of paths and application names; and
  there are as many rows as an entry has producers or consumers, and one more.
\<close>

theorem print_table_aligned:
  assumes "no_escape (workflow_name st)" and "length (workflow_name st) \<le> 88"
    and "list_all printable (capio_cl_entries st)"
  shows "list_all (\<lambda>l. screen_width l = 136) (table_lines st) \<and>
    length (engine_print host st) =
      13 + (\<Sum>(path, e) \<leftarrow> capio_cl_entries st. max (length (producers e)) (length (consumers e)) + 2)"
proof
  have "list_all (\<lambda>l. screen_width l = 136) (entry_lines (path, e))" if "(path, e) \<in> set (capio_cl_entries st)" for path e
  proof -
    have "printable (path, e)" using assms(3) that by (simp add: list_all_iff)
    then have "row_fits path e" by (rule printable_fits)
    moreover have "screen_width (''*'' @ replicate 134 CHR ''~'' @ ''*'') = 136" by code_simp
    ultimately show ?thesis by (simp add: entry_lines_def width_row list_all_iff)
  qed
  then show "list_all (\<lambda>l. screen_width l = 136) (table_lines st)"
    using header_width [OF assms(1,2)] by (fastforce simp: table_lines_def list_all_iff)
  have "length (concat (map entry_lines es)) =
      (\<Sum>(path, e) \<leftarrow> es. max (length (producers e)) (length (consumers e)) + 2)" for es
    by (induction es) (auto simp: entry_lines_def)
  then show "length (engine_print host st) =
      13 + (\<Sum>(path, e) \<leftarrow> capio_cl_entries st. max (length (producers e)) (length (consumers e)) + 2)"
    by (simp add: engine_print_def table_lines_def header_lines_def)
qed

definition demo_table :: engine where
  "demo_table =
     \<lparr>store_all_in_memory = False, node_name = ''n'', workflow_name = ''CAPIO_CL'',
      capio_cl_entries = [(''/a/rather/long/path'', default_entry\<lparr>producers := [''an application'', ''q''], store_in_memory := True\<rparr>)]\<rparr>"

theorem print_table_aligned_witness:
  "list_all (\<lambda>l. screen_width l = 136) (table_lines demo_table) \<and> length (engine_print ''n'' demo_table) = 17"
proof -
  have "no_escape (workflow_name demo_table)" "length (workflow_name demo_table) \<le> 88"
    "list_all printable (capio_cl_entries demo_table)" by code_simp+
  from print_table_aligned [OF this, of "''n''"] show ?thesis by (simp add: demo_table_def default_entry_def)
qed

end
