(* ===== verification/CL_Python.thy ===== *)
theory CL_Python
  imports CL_Runtime CL_Api CL_Print CL_Serializer
begin

text \<open>
  The Python module (\<open>bindings/python_bindings.cpp\<close>): the table of methods of the class \<open>Engine\<close>
  with the names of their arguments, the functions of the module, the attributes of \<open>CapioCLEntry\<close>,
  and what a Python program sees of results and exceptions; and the decorator
  \<open>py_capio_cl/decorators.py\<close>, which sends a rule to the API server.

  What \<open>pybind11\<close> does with a value (its casters) is a parameter, \<open>pybind\<close>; that it can pass the plain
  values of each type is the hypothesis \<open>casters_ok\<close>.
\<close>

subsection \<open>Values, casters and exceptions\<close>

datatype pyval =
    PyNone
  | PyBool bool
  | PyInt int
  | PyStr string
  | PyPath string
  | PyList "pyval list"
  | PySet "string set"

record pybind =
  to_str :: "pyval \<Rightarrow> string option"
  to_path :: "pyval \<Rightarrow> string option"
  to_bool :: "pyval \<Rightarrow> bool option"
  to_int64 :: "pyval \<Rightarrow> long option"
  to_strs :: "pyval \<Rightarrow> string list option"
  to_paths :: "pyval \<Rightarrow> string list option"

definition casters_ok :: "pybind \<Rightarrow> bool" where
  "casters_ok B \<longleftrightarrow>
     (\<forall>s. to_str B (PyStr s) = Some s) \<and> (\<forall>s. to_path B (PyStr s) = Some s \<and> to_path B (PyPath s) = Some s) \<and>
     (\<forall>b. to_bool B (PyBool b) = Some b) \<and> (\<forall>n. to_int64 B (PyInt (sint n)) = Some n) \<and>
     (\<forall>ss. to_strs B (PyList (map PyStr ss)) = Some ss) \<and> (\<forall>ss. to_paths B (PyList (map PyPath ss)) = Some ss)"

datatype py_exn =
    AttributeError
  | TypeError
  | ValueError string
  | IndexError
  | RuntimeError
  | Registered string string

text \<open>Three exceptions are registered with the module; the others become the standard ones.\<close>

fun py_exception :: "exn \<Rightarrow> py_exn" where
  "py_exception (ParserException s) = Registered ''ParserException'' s"
| "py_exception (SerializerException s) = Registered ''SerializerException'' s"
| "py_exception (MonitorException s) = Registered ''MonitorException'' s"
| "py_exception (InvalidArgument s) = ValueError s"
| "py_exception OutOfRange = IndexError"
| "py_exception _ = RuntimeError"

subsection \<open>The methods of Engine\<close>

datatype target =
    Call call
  | Print
  | GetHomeNode string
  | SetHomeNode string
  | IsCommitted string
  | SetCommitted string
  | StartApiServer

definition no_args :: "target \<Rightarrow> pyval list \<Rightarrow> target option" where
  "no_args t vs = (case vs of [] \<Rightarrow> Some t | _ \<Rightarrow> None)"

definition path_arg :: "pybind \<Rightarrow> (string \<Rightarrow> target) \<Rightarrow> pyval list \<Rightarrow> target option" where
  "path_arg B f vs = (case vs of [p] \<Rightarrow> map_option f (to_path B p) | _ \<Rightarrow> None)"

definition path_and :: "pybind \<Rightarrow> (pyval \<Rightarrow> 'a option) \<Rightarrow> (string \<Rightarrow> 'a \<Rightarrow> call) \<Rightarrow> pyval list \<Rightarrow> target option" where
  "path_and B conv f vs =
     (case vs of [p, x] \<Rightarrow> Option.bind (to_path B p) (\<lambda>p. map_option (\<lambda>x. Call (f p x)) (conv x)) | _ \<Rightarrow> None)"

definition add_args :: "pybind \<Rightarrow> pyval list \<Rightarrow> target option" where
  "add_args B vs =
     (case vs of
        [path, ps, cs, commit, fire, perm, excl, deps] \<Rightarrow>
          Option.bind (to_path B path) (\<lambda>path. Option.bind (to_strs B ps) (\<lambda>ps. Option.bind (to_strs B cs) (\<lambda>cs.
          Option.bind (to_str B commit) (\<lambda>commit. Option.bind (to_str B fire) (\<lambda>fire.
          Option.bind (to_bool B perm) (\<lambda>perm. Option.bind (to_bool B excl) (\<lambda>excl.
          map_option (\<lambda>deps. Call (AddRule path ps cs commit fire perm excl deps)) (to_paths B deps))))))))
      | _ \<Rightarrow> None)"

definition Engine_methods :: "pybind \<Rightarrow> (string \<times> string list \<times> (pyval list \<Rightarrow> target option)) list" where
  "Engine_methods B =
     [(''newFile'', [''filename''], path_arg B (\<lambda>p. Call (NewFile p))),
      (''print'', [], no_args Print),
      (''contains'', [''path''], path_arg B (\<lambda>p. Call (Contains p))),
      (''size'', [], no_args (Call SizeOf)),
      (''add'', [''path'', ''producers'', ''consumers'', ''commit_rule'', ''fire_rule'', ''permanent'', ''exclude'', ''dependencies''],
         add_args B),
      (''addProducer'', [''path'', ''producer''], path_and B (to_str B) AddProducer),
      (''addConsumer'', [''path'', ''consumer''], path_and B (to_str B) AddConsumer),
      (''addFileDependency'', [''path'', ''file_dependency''], path_and B (to_path B) AddFileDependency),
      (''remove'', [''path''], path_arg B (\<lambda>p. Call (Remove p))),
      (''setCommitRule'', [''path'', ''commit_rule''], path_and B (to_str B) SetCommitRule),
      (''setFireRule'', [''path'', ''fire_rule''], path_and B (to_str B) SetFireRule),
      (''setPermanent'', [''path'', ''permanent''], path_and B (to_bool B) SetPermanent),
      (''setExclude'', [''path'', ''exclude''], path_and B (to_bool B) SetExclude),
      (''setDirectory'', [''path''], path_arg B (\<lambda>p. Call (SetDirectory p))),
      (''setFile'', [''path''], path_arg B (\<lambda>p. Call (SetFile p))),
      (''setCommittedCloseNumber'', [''path'', ''num''], path_and B (to_int64 B) SetCommitedCloseNumber),
      (''setDirectoryFileCount'', [''path'', ''num''], path_and B (to_int64 B) SetDirectoryFileCount),
      (''setFileDeps'', [''path'', ''dependencies''], path_and B (to_paths B) SetFileDeps),
      (''setStoreFileInMemory'', [''path''], path_arg B (\<lambda>p. Call (SetStoreFileInMemory p))),
      (''setStoreFileInFileSystem'', [''path''], path_arg B (\<lambda>p. Call (SetStoreFileInFileSystem p))),
      (''getDirectoryFileCount'', [''path''], path_arg B (\<lambda>p. Call (GetDirectoryFileCount p))),
      (''getCommitRule'', [''path''], path_arg B (\<lambda>p. Call (GetCommitRule p))),
      (''getFireRule'', [''path''], path_arg B (\<lambda>p. Call (GetFireRule p))),
      (''getProducers'', [''path''], path_arg B (\<lambda>p. Call (GetProducers p))),
      (''getConsumers'', [''path''], path_arg B (\<lambda>p. Call (GetConsumers p))),
      (''getCommitCloseCount'', [''path''], path_arg B (\<lambda>p. Call (GetCommitCloseCount p))),
      (''getCommitOnFileDependencies'', [''path''], path_arg B (\<lambda>p. Call (GetCommitOnFileDependencies p))),
      (''getFileToStoreInMemory'', [], no_args (Call GetFileToStoreInMemory)),
      (''getHomeNode'', [''path''], path_arg B GetHomeNode),
      (''isProducer'', [''path'', ''app_name''], path_and B (to_str B) IsProducer),
      (''isConsumer'', [''path'', ''app_name''], path_and B (to_str B) IsConsumer),
      (''isFirable'', [''path''], path_arg B (\<lambda>p. Call (IsFirable p))),
      (''isFile'', [''path''], path_arg B (\<lambda>p. Call (IsFile p))),
      (''isExcluded'', [''path''], path_arg B (\<lambda>p. Call (IsExcluded p))),
      (''isDirectory'', [''path''], path_arg B (\<lambda>p. Call (IsDirectory p))),
      (''isStoredInMemory'', [''path''], path_arg B (\<lambda>p. Call (IsStoredInMemory p))),
      (''isPermanent'', [''path''], path_arg B (\<lambda>p. Call (IsPermanent p))),
      (''setAllStoreInMemory'', [], no_args (Call SetAllStoreInMemory)),
      (''getWorkflowName'', [], no_args (Call GetWorkflowName)),
      (''setWorkflowName'', [''name''], \<lambda>vs. case vs of [s] \<Rightarrow> map_option (\<lambda>s. Call (SetWorkflowName s)) (to_str B s) | _ \<Rightarrow> None),
      (''setCommitted'', [''path''], path_arg B SetCommitted),
      (''isCommitted'', [''path''], path_arg B IsCommitted),
      (''setHomeNode'', [''path''], path_arg B SetHomeNode),
      (''getPaths'', [], no_args (Call GetPaths)),
      (''startApiServer'', [], no_args StartApiServer),
      (''__str__'', [], no_args Print)]"

text \<open>No method has default values: positional arguments first, the rest by name.\<close>

definition bind_arguments :: "string list \<Rightarrow> pyval list \<Rightarrow> (string \<times> pyval) list \<Rightarrow> pyval list option" where
  "bind_arguments names args kwargs =
     (if length args \<le> length names \<and> distinct (map fst kwargs) \<and> set (map fst kwargs) = set (drop (length args) names)
      then Some (args @ map (\<lambda>n. the (map_of kwargs n)) (drop (length args) names)) else None)"

definition engine_method :: "pybind \<Rightarrow> string \<Rightarrow> pyval list \<Rightarrow> (string \<times> pyval) list \<Rightarrow> py_exn + target" where
  "engine_method B name args kwargs =
     (case map_of (Engine_methods B) name of
        None \<Rightarrow> Inl AttributeError
      | Some (names, target_of) \<Rightarrow>
          (case Option.bind (bind_arguments names args kwargs) target_of of None \<Rightarrow> Inl TypeError | Some t \<Rightarrow> Inr t))"

text \<open>
  The result. \<open>addProducer\<close> and \<open>addConsumer\<close> return nothing; the name they strip is a copy that
  Python does not see. The dependencies are a list of \<open>Path\<close> objects.
\<close>

fun py_value :: "(string \<Rightarrow> pyval) \<Rightarrow> answer \<Rightarrow> pyval" where
  "py_value elem Done = PyNone"
| "py_value elem (TheBool b) = PyBool b"
| "py_value elem (TheLong n) = PyInt (sint n)"
| "py_value elem (TheSize n) = PyInt (int n)"
| "py_value elem (TheString s) = PyStr s"
| "py_value elem (TheStrings ss) = PyList (map elem ss)"

definition py_answer :: "call \<Rightarrow> answer \<Rightarrow> pyval" where
  "py_answer c a =
     (case c of
        AddProducer _ _ \<Rightarrow> PyNone
      | AddConsumer _ _ \<Rightarrow> PyNone
      | GetCommitOnFileDependencies _ \<Rightarrow> py_value PyPath a
      | _ \<Rightarrow> py_value PyStr a)"

fun run_target ::
  "platform \<Rightarrow> (nat \<Rightarrow> string list) \<Rightarrow> target \<Rightarrow> runtime \<Rightarrow> world \<Rightarrow> ((exn + pyval) \<times> runtime \<times> world) option" where
  "run_target P arrived (Call c) rt w =
     Some (case exec P c (the_engine rt) of
             Inl ex \<Rightarrow> (Inl ex, rt, w)
           | Inr (a, st) \<Rightarrow> (Inr (py_answer c a), rt\<lparr>the_engine := st\<rparr>, w))"
| "run_target P arrived Print rt w = Some (Inr PyNone, rt, w)"
| "run_target P arrived (GetHomeNode p) rt w =
     map_option (\<lambda>(r, rt', w'). (rbind r (\<lambda>nodes. Inr (PySet nodes)), rt', w')) (getHomeNode p arrived rt w)"
| "run_target P arrived (SetHomeNode p) rt w =
     (case setHomeNode p rt w of (r, rt', w') \<Rightarrow> Some (rbind r (\<lambda>_. Inr PyNone), rt', w'))"
| "run_target P arrived (IsCommitted p) rt w =
     (case isCommitted p arrived rt w of (r, rt', w') \<Rightarrow> Some (rbind r (\<lambda>b. Inr (PyBool b)), rt', w'))"
| "run_target P arrived (SetCommitted p) rt w =
     (case setCommitted p rt w of (r, rt', w') \<Rightarrow> Some (rbind r (\<lambda>_. Inr PyNone), rt', w'))"
| "run_target P arrived StartApiServer rt w = Some (Inr PyNone, rt, w)"

definition target_output :: "platform \<Rightarrow> target \<Rightarrow> engine \<Rightarrow> string list" where
  "target_output P t st = (case t of Print \<Rightarrow> engine_print (hostname P) st | _ \<Rightarrow> [])"

text \<open>One call from Python; \<open>None\<close> is undefined behaviour in a listener (\<open>getHomeNode\<close>).\<close>

record py_call =
  py_method :: string
  py_args :: "pyval list"
  py_kwargs :: "(string \<times> pyval) list"
  heard_meanwhile :: "nat \<Rightarrow> string list"

definition run_py_call ::
  "pybind \<Rightarrow> platform \<Rightarrow> py_call \<Rightarrow> runtime \<times> world \<Rightarrow> ((py_exn + pyval) \<times> runtime \<times> world) option" where
  "run_py_call B P c s =
     (case engine_method B (py_method c) (py_args c) (py_kwargs c) of
        Inl e \<Rightarrow> Some (Inl e, s)
      | Inr t \<Rightarrow>
          map_option (\<lambda>(r, s'). (case r of Inl ex \<Rightarrow> Inl (py_exception ex) | Inr v \<Rightarrow> Inr v, s'))
            (run_target P (heard_meanwhile c) t (fst s) (snd s)))"

primrec run_py_session :: "pybind \<Rightarrow> platform \<Rightarrow> py_call list \<Rightarrow> runtime \<times> world \<Rightarrow> (runtime \<times> world) option" where
  "run_py_session B P [] s = Some s"
| "run_py_session B P (c # cs) s = Option.bind (run_py_call B P c s) (\<lambda>(r, s'). run_py_session B P cs s')"

text \<open>Python's \<open>str()\<close> calls \<open>__str__\<close> and insists on a string.\<close>

definition py_str :: "pybind \<Rightarrow> platform \<Rightarrow> runtime \<times> world \<Rightarrow> (py_exn + string) option" where
  "py_str B P s =
     map_option (\<lambda>(r, _). case r of Inl e \<Rightarrow> Inl e | Inr (PyStr t) \<Rightarrow> Inr t | Inr _ \<Rightarrow> Inl TypeError)
       (run_py_call B P \<lparr>py_method = ''__str__'', py_args = [], py_kwargs = [], heard_meanwhile = (\<lambda>_. [])\<rparr> s)"

subsection \<open>The rest of the module\<close>

definition DEFAULT_MCAST_GROUP :: "exn + string \<times> cint" where
  "DEFAULT_MCAST_GROUP =
     rbind (stoi (ce_v DEFAULT_API_MULTICAST_PORT)) (\<lambda>port. Inr (ce_v DEFAULT_API_MULTICAST_IP, port))"

text \<open>The constants, by submodule; the module itself is the empty name. Version 1.1 has none.\<close>

definition module_constants :: "((string \<times> string) \<times> string) list" where
  "module_constants =
     [(('''', ''CAPIO_CL_DEFAULT_WF_NAME''), CAPIO_CL_DEFAULT_WF_NAME),
      ((''fire_rules'', ''UPDATE''), UPDATE), ((''fire_rules'', ''NO_UPDATE''), NO_UPDATE),
      ((''commit_rules'', ''ON_CLOSE''), ON_CLOSE), ((''commit_rules'', ''ON_FILE''), ON_FILE),
      ((''commit_rules'', ''ON_N_FILES''), ON_N_FILES), ((''commit_rules'', ''ON_TERMINATION''), ON_TERMINATION),
      ((''VERSION'', ''V1''), V1)]"

text \<open>\<open>Engine()\<close>, and \<open>==\<close> between two engines.\<close>

definition py_new_engine :: "platform \<Rightarrow> py_exn + runtime" where
  "py_new_engine P = (case Engine P True of Inl ex \<Rightarrow> Inl (py_exception ex) | Inr rt \<Rightarrow> Inr rt)"

definition py_equal :: "runtime \<Rightarrow> runtime \<Rightarrow> pyval" where
  "py_equal a b = PyBool (engine_eq (the_engine a) (the_engine b))"

text \<open>\<open>Parser.parse\<close> and \<open>serialize\<close>, with the default values of their arguments.\<close>

definition py_parse ::
  "platform \<Rightarrow> jsoncons \<Rightarrow> (string \<Rightarrow> string + (string \<times> toml) list) \<Rightarrow> (string \<Rightarrow> string option) \<Rightarrow>
     string \<Rightarrow> string option \<Rightarrow> bool option \<Rightarrow> (py_exn + runtime) option" where
  "py_parse P J parse_toml read_file source resolve_prefix store_only_in_memory =
     map_option (\<lambda>r. case r of Inl ex \<Rightarrow> Inl (py_exception ex) | Inr rt \<Rightarrow> Inr rt)
       (parse P J parse_toml read_file source
         (case resolve_prefix of Some s \<Rightarrow> s | None \<Rightarrow> [])
         (case store_only_in_memory of Some b \<Rightarrow> b | None \<Rightarrow> False))"

definition py_serialize ::
  "platform \<Rightarrow> (json \<Rightarrow> string) \<Rightarrow> (string \<Rightarrow> bool) \<Rightarrow> engine \<Rightarrow> string \<Rightarrow> string option \<Rightarrow>
     (string \<Rightarrow> string option) \<Rightarrow> py_exn + (string \<Rightarrow> string option)" where
  "py_serialize P pretty_print can_open st out_name version disk_files =
     (case dump P pretty_print can_open st out_name (case version of Some v \<Rightarrow> v | None \<Rightarrow> V1) disk_files of
        Inl ex \<Rightarrow> Inl (py_exception ex)
      | Inr disk_files' \<Rightarrow> Inr disk_files')"

text \<open>The attributes of \<open>CapioCLEntry\<close>: how each is read and assigned.\<close>

definition assign :: "(pyval \<Rightarrow> 'a option) \<Rightarrow> ('a \<Rightarrow> CapioCLEntry \<Rightarrow> CapioCLEntry) \<Rightarrow> pyval \<Rightarrow> CapioCLEntry \<Rightarrow> CapioCLEntry option" where
  "assign conv upd v e = map_option (\<lambda>x. upd x e) (conv v)"

definition entry_attributes ::
  "pybind \<Rightarrow> (string \<times> (CapioCLEntry \<Rightarrow> pyval) \<times> (pyval \<Rightarrow> CapioCLEntry \<Rightarrow> CapioCLEntry option)) list" where
  "entry_attributes B =
     [(''producers'', \<lambda>e. PyList (map PyStr (producers e)), assign (to_strs B) (\<lambda>x e. e\<lparr>producers := x\<rparr>)),
      (''consumers'', \<lambda>e. PyList (map PyStr (consumers e)), assign (to_strs B) (\<lambda>x e. e\<lparr>consumers := x\<rparr>)),
      (''file_dependencies'', \<lambda>e. PyList (map PyPath (file_dependencies e)), assign (to_paths B) (\<lambda>x e. e\<lparr>file_dependencies := x\<rparr>)),
      (''commit_rule'', \<lambda>e. PyStr (commit_rule e), assign (to_str B) (\<lambda>x e. e\<lparr>commit_rule := x\<rparr>)),
      (''fire_rule'', \<lambda>e. PyStr (fire_rule e), assign (to_str B) (\<lambda>x e. e\<lparr>fire_rule := x\<rparr>)),
      (''directory_children_count'', \<lambda>e. PyInt (sint (directory_children_count e)),
         assign (to_int64 B) (\<lambda>x e. e\<lparr>directory_children_count := x\<rparr>)),
      (''commit_on_close_count'', \<lambda>e. PyInt (sint (commit_on_close_count e)),
         assign (to_int64 B) (\<lambda>x e. e\<lparr>commit_on_close_count := x\<rparr>)),
      (''enable_directory_count_update'', \<lambda>e. PyBool (enable_directory_count_update e),
         assign (to_bool B) (\<lambda>x e. e\<lparr>enable_directory_count_update := x\<rparr>)),
      (''store_in_memory'', \<lambda>e. PyBool (store_in_memory e), assign (to_bool B) (\<lambda>x e. e\<lparr>store_in_memory := x\<rparr>)),
      (''permanent'', \<lambda>e. PyBool (permanent e), assign (to_bool B) (\<lambda>x e. e\<lparr>permanent := x\<rparr>)),
      (''excluded'', \<lambda>e. PyBool (excluded e), assign (to_bool B) (\<lambda>x e. e\<lparr>excluded := x\<rparr>)),
      (''is_file'', \<lambda>e. PyBool (is_file e), assign (to_bool B) (\<lambda>x e. e\<lparr>is_file := x\<rparr>))]"

definition get_attribute :: "pybind \<Rightarrow> string \<Rightarrow> CapioCLEntry \<Rightarrow> py_exn + pyval" where
  "get_attribute B name e =
     (case map_of (entry_attributes B) name of Some (read, _) \<Rightarrow> Inr (read e) | None \<Rightarrow> Inl AttributeError)"

definition set_attribute :: "pybind \<Rightarrow> string \<Rightarrow> pyval \<Rightarrow> CapioCLEntry \<Rightarrow> py_exn + CapioCLEntry" where
  "set_attribute B name v e =
     (case map_of (entry_attributes B) name of
        Some (_, put) \<Rightarrow> (case put v e of Some e' \<Rightarrow> Inr e' | None \<Rightarrow> Inl TypeError)
      | None \<Rightarrow> Inl AttributeError)"

subsection \<open>The decorator\<close>

text \<open>
  An argument that is absent, empty, zero or false is not assigned: \<open>truthy\<close> is Python's test.
  \<open>json.loads\<close> and \<open>json.dumps\<close> are parameters.
\<close>

fun truthy :: "pyval \<Rightarrow> bool" where
  "truthy PyNone = False"
| "truthy (PyBool b) = b"
| "truthy (PyInt i) = (i \<noteq> 0)"
| "truthy (PyStr s) = (s \<noteq> [])"
| "truthy (PyPath p) = True"
| "truthy (PyList xs) = (xs \<noteq> [])"
| "truthy (PySet A) = (A \<noteq> {})"

record rule_arguments =
  arg_committed :: pyval
  arg_fire :: pyval
  arg_close_count :: pyval
  arg_directory_n_file_expected :: pyval
  arg_is_directory :: pyval
  arg_is_permanent :: pyval
  arg_is_excluded :: pyval
  arg_producers :: pyval
  arg_consumers :: pyval
  arg_dependencies :: pyval

definition assign_if :: "pybind \<Rightarrow> string \<Rightarrow> pyval \<Rightarrow> pyval \<Rightarrow> CapioCLEntry \<Rightarrow> py_exn + CapioCLEntry" where
  "assign_if B name test v e = (if truthy test then set_attribute B name v e else Inr e)"

fun chain :: "('a \<Rightarrow> 'e + 'a) list \<Rightarrow> 'a \<Rightarrow> 'e + 'a" where
  "chain [] x = Inr x"
| "chain (f # fs) x = (case f x of Inl e \<Rightarrow> Inl e | Inr y \<Rightarrow> chain fs y)"

definition rule_entry :: "pybind \<Rightarrow> rule_arguments \<Rightarrow> py_exn + CapioCLEntry" where
  "rule_entry B a =
     chain
       [assign_if B ''commit_rule'' (arg_committed a) (arg_committed a),
        assign_if B ''fire_rule'' (arg_fire a) (arg_fire a),
        assign_if B ''commit_on_close_count'' (arg_close_count a) (arg_close_count a),
        assign_if B ''directory_children_count'' (arg_directory_n_file_expected a) (arg_directory_n_file_expected a),
        assign_if B ''is_file'' (arg_is_directory a) (PyBool (\<not> truthy (arg_is_directory a))),
        assign_if B ''permanent'' (arg_is_permanent a) (arg_is_permanent a),
        assign_if B ''excluded'' (arg_is_excluded a) (arg_is_excluded a),
        assign_if B ''producers'' (arg_producers a) (arg_producers a),
        assign_if B ''consumers'' (arg_consumers a) (arg_consumers a),
        assign_if B ''file_dependencies'' (arg_dependencies a) (arg_dependencies a)] default_entry"

definition request_body :: "string \<Rightarrow> string \<Rightarrow> json \<Rightarrow> json" where
  "request_body path wf_name entry =
     JObject [(''path'', JString path), (''workflow_name'', JString wf_name), (''CapioClEntry'', entry)]"

definition CapioCLRule ::
  "pybind \<Rightarrow> jsoncons \<Rightarrow> (string \<Rightarrow> json) \<Rightarrow> (json \<Rightarrow> string) \<Rightarrow> string \<Rightarrow> string \<Rightarrow> rule_arguments \<Rightarrow> py_exn + string" where
  "CapioCLRule B J json_loads json_dumps path wf_name a =
     (if path = [] then Inl RuntimeError
      else case rule_entry B a of
             Inl e \<Rightarrow> Inl e
           | Inr rule \<Rightarrow> Inr (json_dumps (request_body path wf_name (json_loads (CapioCLEntry_toJson J rule)))))"

end
