(* ===== verification/CL_Python_Spec.thy ===== *)
theory CL_Python_Spec
  imports CL_Python
begin

text \<open>
  Properties of the Python module: which public calls a program can make, that a program can do no
  more than a sequence of public calls, what its strings and attributes are, and that a rule sent by
  the decorator arrives at the API server.
\<close>

subsection \<open>The table of methods\<close>

lemma no_args_iff: "no_args t vs = Some s \<longleftrightarrow> vs = [] \<and> s = t"
  by (auto simp: no_args_def split: list.splits)

lemma path_arg_iff: "path_arg B f vs = Some s \<longleftrightarrow> (\<exists>v p. vs = [v] \<and> to_path B v = Some p \<and> s = f p)"
  by (auto simp: path_arg_def split: list.splits)

lemma path_and_iff:
  "path_and B conv f vs = Some s \<longleftrightarrow>
     (\<exists>v w p x. vs = [v, w] \<and> to_path B v = Some p \<and> conv w = Some x \<and> s = Call (f p x))"
  by (auto simp: path_and_def bind_eq_Some_conv split: list.splits)

lemma add_args_AddRule: "add_args B vs = Some s \<Longrightarrow> \<exists>path ps cs commit fire perm excl deps. s = Call (AddRule path ps cs commit fire perm excl deps)"
  by (auto simp: add_args_def bind_eq_Some_conv split: list.splits)

definition raw_call :: "call \<Rightarrow> bool" where
  "raw_call c \<longleftrightarrow> \<not> no_raw_entries [c]"

lemma raw_call_cases: "raw_call c \<longleftrightarrow>
    (\<exists>path ps cs commit fire perm excl deps. c = AddRule path ps cs commit fire perm excl deps) \<or> (\<exists>path e. c = AddEntry path e)"
  by (cases c) (simp_all add: raw_call_def no_raw_entries_def)

lemma raw_call_eval [simp]: "raw_call c = (case c of AddRule _ _ _ _ _ _ _ _ \<Rightarrow> True | AddEntry _ _ \<Rightarrow> True | _ \<Rightarrow> False)"
  by (cases c) (simp_all add: raw_call_def no_raw_entries_def)

definition raw_target :: "target \<Rightarrow> bool" where
  "raw_target t = (case t of Call c \<Rightarrow> raw_call c | _ \<Rightarrow> False)"

lemma raw_target_eval [simp]:
  "raw_target (Call c) = raw_call c" "\<not> raw_target Print" "\<not> raw_target (GetHomeNode p)" "\<not> raw_target (SetHomeNode p)"
  "\<not> raw_target (IsCommitted p)" "\<not> raw_target (SetCommitted p)" "\<not> raw_target StartApiServer"
  by (simp_all add: raw_target_def)

definition never_raw :: "(pyval list \<Rightarrow> target option) \<Rightarrow> bool" where
  "never_raw f \<longleftrightarrow> (\<forall>vs t. f vs = Some t \<longrightarrow> \<not> raw_target t)"

lemma never_raw_makers:
  "\<not> raw_target t \<Longrightarrow> never_raw (no_args t)"
  "(\<And>p. \<not> raw_target (g p)) \<Longrightarrow> never_raw (path_arg B g)"
  "(\<And>p x. \<not> raw_call (h p x)) \<Longrightarrow> never_raw (path_and B conv h)"
  "(\<And>s. \<not> raw_call (k s)) \<Longrightarrow>
     never_raw (\<lambda>vs. case vs of [v] \<Rightarrow> map_option (\<lambda>s. Call (k s)) (to_str B v) | _ \<Rightarrow> None)"
  unfolding never_raw_def by (auto simp: no_args_iff path_arg_iff path_and_iff simp del: raw_call_eval split: list.splits)

lemma methods_never_raw: "list_all (\<lambda>(n, names, f). n = ''add'' \<or> never_raw f) (Engine_methods B)"
  unfolding Engine_methods_def list.pred_inject prod.case
  by (intro conjI) (simp_all add: never_raw_makers)

lemma engine_method_Inr:
  assumes "engine_method B name vs kws = Inr t"
  obtains names f ws where "(name, names, f) \<in> set (Engine_methods B)" and "f ws = Some t"
proof -
  from assms obtain names f ws where "map_of (Engine_methods B) name = Some (names, f)" "f ws = Some t"
    by (auto simp: engine_method_def bind_eq_Some_conv split: option.splits)
  then show ?thesis using that map_of_SomeD by fastforce
qed

lemma engine_method_not_raw:
  assumes "engine_method B name vs kws = Inr t" and "name \<noteq> ''add''"
  shows "\<not> raw_target t"
proof -
  obtain names f ws where "(name, names, f) \<in> set (Engine_methods B)" "f ws = Some t"
    by (rule engine_method_Inr [OF assms(1)])
  then show ?thesis using methods_never_raw [of B] assms(2) by (fastforce simp: list_all_iff never_raw_def)
qed

lemma engine_method_no_entry: "engine_method B name vs kws \<noteq> Inr (Call (AddEntry p e))"
proof
  assume *: "engine_method B name vs kws = Inr (Call (AddEntry p e))"
  show False
  proof (cases "name = ''add''")
    case True
    with * have "\<exists>ws. add_args B ws = Some (Call (AddEntry p e))"
      by (auto simp: engine_method_def Engine_methods_def bind_eq_Some_conv split: option.splits)
    then show False using add_args_AddRule by blast
  next
    case False
    from engine_method_not_raw [OF * this] show False by simp
  qed
qed

lemma engine_method_positional:
  assumes "map_of (Engine_methods B) name = Some (names, f)" and "length vs = length names" and "f vs = Some t"
  shows "engine_method B name vs [] = Inr t"
  using assms by (simp add: engine_method_def bind_arguments_def)

text \<open>The Python name and arguments that make a call.\<close>

fun py_of_call :: "call \<Rightarrow> string \<times> pyval list" where
  "py_of_call (Contains p) = (''contains'', [PyStr p])"
| "py_of_call SizeOf = (''size'', [])"
| "py_of_call (AddRule p ps cs commit fire perm excl deps) =
     (''add'', [PyStr p, PyList (map PyStr ps), PyList (map PyStr cs), PyStr commit, PyStr fire, PyBool perm, PyBool excl,
                PyList (map PyPath deps)])"
| "py_of_call (AddEntry p e) = ([], [])"
| "py_of_call (AddProducer p a) = (''addProducer'', [PyStr p, PyStr a])"
| "py_of_call (AddConsumer p a) = (''addConsumer'', [PyStr p, PyStr a])"
| "py_of_call (AddFileDependency p d) = (''addFileDependency'', [PyStr p, PyStr d])"
| "py_of_call (NewFile p) = (''newFile'', [PyStr p])"
| "py_of_call (Remove p) = (''remove'', [PyStr p])"
| "py_of_call (SetCommitRule p r) = (''setCommitRule'', [PyStr p, PyStr r])"
| "py_of_call (SetFireRule p r) = (''setFireRule'', [PyStr p, PyStr r])"
| "py_of_call (SetPermanent p b) = (''setPermanent'', [PyStr p, PyBool b])"
| "py_of_call (SetExclude p b) = (''setExclude'', [PyStr p, PyBool b])"
| "py_of_call (SetDirectory p) = (''setDirectory'', [PyStr p])"
| "py_of_call (SetFile p) = (''setFile'', [PyStr p])"
| "py_of_call (SetCommitedCloseNumber p n) = (''setCommittedCloseNumber'', [PyStr p, PyInt (sint n)])"
| "py_of_call (SetDirectoryFileCount p n) = (''setDirectoryFileCount'', [PyStr p, PyInt (sint n)])"
| "py_of_call (SetFileDeps p ds) = (''setFileDeps'', [PyStr p, PyList (map PyPath ds)])"
| "py_of_call (SetStoreFileInMemory p) = (''setStoreFileInMemory'', [PyStr p])"
| "py_of_call SetAllStoreInMemory = (''setAllStoreInMemory'', [])"
| "py_of_call (SetStoreFileInFileSystem p) = (''setStoreFileInFileSystem'', [PyStr p])"
| "py_of_call (SetWorkflowName n) = (''setWorkflowName'', [PyStr n])"
| "py_of_call (GetDirectoryFileCount p) = (''getDirectoryFileCount'', [PyStr p])"
| "py_of_call (GetCommitRule p) = (''getCommitRule'', [PyStr p])"
| "py_of_call (GetFireRule p) = (''getFireRule'', [PyStr p])"
| "py_of_call (GetProducers p) = (''getProducers'', [PyStr p])"
| "py_of_call (GetConsumers p) = (''getConsumers'', [PyStr p])"
| "py_of_call (GetCommitCloseCount p) = (''getCommitCloseCount'', [PyStr p])"
| "py_of_call (GetCommitOnFileDependencies p) = (''getCommitOnFileDependencies'', [PyStr p])"
| "py_of_call GetFileToStoreInMemory = (''getFileToStoreInMemory'', [])"
| "py_of_call GetWorkflowName = (''getWorkflowName'', [])"
| "py_of_call (IsProducer p a) = (''isProducer'', [PyStr p, PyStr a])"
| "py_of_call (IsConsumer p a) = (''isConsumer'', [PyStr p, PyStr a])"
| "py_of_call (IsFirable p) = (''isFirable'', [PyStr p])"
| "py_of_call (IsFile p) = (''isFile'', [PyStr p])"
| "py_of_call (IsExcluded p) = (''isExcluded'', [PyStr p])"
| "py_of_call (IsDirectory p) = (''isDirectory'', [PyStr p])"
| "py_of_call (IsStoredInMemory p) = (''isStoredInMemory'', [PyStr p])"
| "py_of_call (IsPermanent p) = (''isPermanent'', [PyStr p])"
| "py_of_call GetPaths = (''getPaths'', [])"

lemma py_of_call_reaches:
  assumes "casters_ok B" and "\<forall>p e. c \<noteq> AddEntry p e"
  shows "engine_method B (fst (py_of_call c)) (snd (py_of_call c)) [] = Inr (Call c)"
proof -
  have "\<exists>names f. map_of (Engine_methods B) (fst (py_of_call c)) = Some (names, f) \<and>
      length (snd (py_of_call c)) = length names \<and> f (snd (py_of_call c)) = Some (Call c)"
    using assms
    by (cases c) (simp_all add: Engine_methods_def no_args_def path_arg_def path_and_def add_args_def casters_ok_def)
  then show ?thesis using engine_method_positional by blast
qed

text \<open>
  The methods of the Python class reach every public call of the engine but one: adding a whole
  entry. Each call is made by its method with plain Python values.
\<close>

theorem python_reaches_every_call:
  assumes "casters_ok B"
  shows "(\<exists>name vs kws. engine_method B name vs kws = Inr (Call c)) \<longleftrightarrow> (\<forall>p e. c \<noteq> AddEntry p e)"
  using py_of_call_reaches [OF assms, of c] engine_method_no_entry by blast

text \<open>Casters for the plain values.\<close>

definition plain_casters :: pybind where
  "plain_casters =
     \<lparr>to_str = (\<lambda>v. case v of PyStr s \<Rightarrow> Some s | _ \<Rightarrow> None),
      to_path = (\<lambda>v. case v of PyStr s \<Rightarrow> Some s | PyPath s \<Rightarrow> Some s | _ \<Rightarrow> None),
      to_bool = (\<lambda>v. case v of PyBool b \<Rightarrow> Some b | _ \<Rightarrow> None),
      to_int64 = (\<lambda>v. case v of PyInt i \<Rightarrow> if - (2 ^ 63) \<le> i \<and> i < 2 ^ 63 then Some (word_of_int i) else None | _ \<Rightarrow> None),
      to_strs = (\<lambda>v. case v of PyList vs \<Rightarrow> those (map (\<lambda>x. case x of PyStr s \<Rightarrow> Some s | _ \<Rightarrow> None) vs) | _ \<Rightarrow> None),
      to_paths = (\<lambda>v. case v of PyList vs \<Rightarrow> those (map (\<lambda>x. case x of PyStr s \<Rightarrow> Some s | PyPath s \<Rightarrow> Some s | _ \<Rightarrow> None) vs) | _ \<Rightarrow> None)\<rparr>"

lemma plain_casters_ok: "casters_ok plain_casters"
proof -
  have "those (map (\<lambda>x. case x of PyStr s \<Rightarrow> Some s | _ \<Rightarrow> None) (map PyStr ss)) = Some ss"
    and "those (map (\<lambda>x. case x of PyStr s \<Rightarrow> Some s | PyPath s \<Rightarrow> Some s | _ \<Rightarrow> None) (map PyPath ss)) = Some ss" for ss
    by (induction ss) simp_all
  then show ?thesis using sint_long_range by (simp add: casters_ok_def plain_casters_def)
qed

theorem python_reaches_every_call_witness:
  "(\<exists>name vs kws. engine_method plain_casters name vs kws = Inr (Call (SetDirectoryFileCount ''/d'' (-1)))) \<and>
   \<not> (\<exists>name vs kws. engine_method plain_casters name vs kws = Inr (Call (AddEntry ''/d'' default_entry)))"
  using python_reaches_every_call [OF plain_casters_ok] by blast

text \<open>The submodules of the rules hold the rules of the language and nothing else.\<close>

lemma module_rules:
  "set (map snd (filter (\<lambda>((m, _), _). m = ''commit_rules'') module_constants)) = set commit_rules"
  "set (map snd (filter (\<lambda>((m, _), _). m = ''fire_rules'') module_constants)) = set fire_rules"
  by (auto simp: module_constants_def commit_rules_def fire_rules_def)

subsection \<open>Sessions\<close>

lemma run_target_engine:
  assumes "run_target P arrived t rt w = Some (r, rt', w')"
  shows "the_engine rt' = (case t of Call c \<Rightarrow> after_call P c (the_engine rt) | _ \<Rightarrow> the_engine rt)"
  using assms
  by (cases t)
    (auto simp: after_call_def getHomeNode_def setHomeNode_def isCommitted_def setCommitted_def
      split: prod.splits sum.splits)

lemma run_py_call_calls:
  assumes "run_py_call B P c s = Some (r, s')"
  shows "\<exists>ds. the_engine (fst s') = run_calls P ds (the_engine (fst s)) \<and> (py_method c \<noteq> ''add'' \<longrightarrow> no_raw_entries ds) \<and>
    (\<forall>p e. AddEntry p e \<notin> set ds)"
proof (cases "engine_method B (py_method c) (py_args c) (py_kwargs c)")
  case (Inl e)
  with assms show ?thesis by (intro exI [of _ "[]"]) (simp add: run_py_call_def run_calls_def no_raw_entries_def)
next
  case (Inr t)
  with assms obtain r1 where "run_target P (heard_meanwhile c) t (fst s) (snd s) = Some (r1, s')"
    by (auto simp: run_py_call_def)
  then have eng: "the_engine (fst s') = (case t of Call c \<Rightarrow> after_call P c (the_engine (fst s)) | _ \<Rightarrow> the_engine (fst s))"
    by (cases s') (auto dest: run_target_engine)
  have raw: "py_method c \<noteq> ''add'' \<Longrightarrow> \<not> raw_target t" using engine_method_not_raw [OF Inr] by blast
  show ?thesis
  proof (cases t)
    case (Call d)
    have "d \<noteq> AddEntry p e" for p e using Inr engine_method_no_entry Call by blast
    with eng raw Call show ?thesis by (intro exI [of _ "[d]"]) (auto simp: run_calls_def raw_call_def simp del: raw_call_eval)
  qed (use eng in \<open>auto intro!: exI [of _ "[]"] simp: run_calls_def no_raw_entries_def\<close>)
qed

lemma no_raw_entries_append: "no_raw_entries (xs @ ys) \<longleftrightarrow> no_raw_entries xs \<and> no_raw_entries ys"
  by (simp add: no_raw_entries_def)

lemma run_py_session_calls:
  "run_py_session B P cs s = Some s' \<Longrightarrow>
   \<exists>ds. the_engine (fst s') = run_calls P ds (the_engine (fst s)) \<and> (\<forall>p e. AddEntry p e \<notin> set ds) \<and>
     (list_all (\<lambda>c. py_method c \<noteq> ''add'') cs \<longrightarrow> no_raw_entries ds)"
proof (induction cs arbitrary: s)
  case Nil
  then show ?case by (auto intro!: exI [of _ "[]"] simp: run_calls_def no_raw_entries_def)
next
  case (Cons c cs)
  then obtain r s1 where c: "run_py_call B P c s = Some (r, s1)" and rest: "run_py_session B P cs s1 = Some s'"
    by (auto simp: bind_eq_Some_conv)
  from run_py_call_calls [OF c] Cons.IH [OF rest] obtain ds ds' where
    "the_engine (fst s1) = run_calls P ds (the_engine (fst s))" "\<forall>p e. AddEntry p e \<notin> set ds"
    "py_method c \<noteq> ''add'' \<longrightarrow> no_raw_entries ds"
    "the_engine (fst s') = run_calls P ds' (the_engine (fst s1))" "\<forall>p e. AddEntry p e \<notin> set ds'"
    "list_all (\<lambda>c. py_method c \<noteq> ''add'') cs \<longrightarrow> no_raw_entries ds'" by blast
  then show ?case by (intro exI [of _ "ds @ ds'"]) (auto simp: run_calls_append no_raw_entries_append)
qed


definition demo_session :: "py_call list" where
  "demo_session =
     [\<lparr>py_method = ''addProducer'', py_args = [PyStr ''f''], py_kwargs = [(''producer'', PyStr ''my app'')], heard_meanwhile = (\<lambda>_. [])\<rparr>,
      \<lparr>py_method = ''setCommitRule'', py_args = [PyStr ''f'', PyStr ''sometimes''], py_kwargs = [], heard_meanwhile = (\<lambda>_. [])\<rparr>,
      \<lparr>py_method = ''setCommitRule'', py_args = [PyStr ''f'', PyInt 3], py_kwargs = [], heard_meanwhile = (\<lambda>_. [])\<rparr>]"

lemma demo_session_runs:
  "case run_py_session plain_casters demo demo_session
      (\<lparr>the_engine = new_engine demo, configuration = Map.empty, monitors = []\<rparr>, \<lparr>the_disk = demo_disk, sent = []\<rparr>) of
     Some (rt, w) \<Rightarrow> entry_at (the_engine rt) ''f'' \<noteq> None
   | None \<Rightarrow> False"
  by code_simp


text \<open>
  The class has a method \<open>__str__\<close> bound to \<open>print\<close>, which returns nothing: \<open>str(engine)\<close> raises a
  \<open>TypeError\<close> for every engine, after printing the table.
\<close>

theorem python_str_raises:
  "py_str B P s = Some (Inl TypeError) \<and>
   (\<exists>t. engine_method B ''__str__'' [] [] = Inr t \<and> target_output P t st = engine_print (hostname P) st)"
proof -
  have "engine_method B ''__str__'' [] [] = Inr Print"
    by (simp add: engine_method_def Engine_methods_def bind_arguments_def no_args_def)
  then show ?thesis by (simp add: py_str_def run_py_call_def target_output_def)
qed

subsection \<open>Entries\<close>

text \<open>Assigning an attribute changes no other; reading it gives what was assigned.\<close>

lemma assign_all: "(\<forall>v e e'. assign conv upd v e = Some e' \<longrightarrow> Q e e') \<longleftrightarrow> (\<forall>v e x. conv v = Some x \<longrightarrow> Q e (upd x e))"
  by (auto simp: assign_def)

lemma attributes_frame:
  "list_all (\<lambda>(n, _, put). \<forall>v e e'. put v e = Some e' \<longrightarrow>
     list_all (\<lambda>(m, read, _). m = n \<or> read e' = read e) (entry_attributes B)) (entry_attributes B)"
  by (simp add: entry_attributes_def assign_all)

lemma attributes_read:
  "casters_ok B \<Longrightarrow>
   list_all (\<lambda>(n, read, put). \<exists>e'. put (read x) e = Some e' \<and> read e' = read x) (entry_attributes B)"
  by (simp add: entry_attributes_def assign_def casters_ok_def)

lemma attribute_frame:
  assumes "set_attribute B name v e = Inr e'" and "other \<noteq> name"
  shows "get_attribute B other e' = get_attribute B other e"
proof -
  from assms(1) obtain read put where put: "map_of (entry_attributes B) name = Some (read, put)" "put v e = Some e'"
    by (auto simp: set_attribute_def split: option.splits)
  show ?thesis
  proof (cases "map_of (entry_attributes B) other")
    case (Some rp)
    obtain r q where rp: "rp = (r, q)" by fastforce
    have "r e' = r e"
      using attributes_frame [of B] map_of_SomeD [OF put(1)] put(2) map_of_SomeD [OF Some [unfolded rp]] assms(2)
      by (fastforce simp: list_all_iff)
    with Some rp show ?thesis by (simp add: get_attribute_def)
  qed (simp add: get_attribute_def)
qed



subsection \<open>The decorator\<close>

text \<open>Arguments of the annotated types: what is not given is \<open>None\<close>.\<close>

definition optional :: "('a \<Rightarrow> pyval) \<Rightarrow> 'a option \<Rightarrow> pyval" where
  "optional mk x = (case x of None \<Rightarrow> PyNone | Some v \<Rightarrow> mk v)"

definition or_default :: "('a \<Rightarrow> bool) \<Rightarrow> 'a option \<Rightarrow> 'a \<Rightarrow> 'a" where
  "or_default given x d = (case x of Some v \<Rightarrow> if given v then v else d | None \<Rightarrow> d)"

lemma assign_optional:
  assumes "\<And>x. set_attribute B name (mk x) e = Inr (upd x)" and "\<And>x. truthy (mk x) \<longleftrightarrow> given x" and "upd (sel e) = e"
  shows "assign_if B name (optional mk v) (optional mk v) e = Inr (upd (or_default given v (sel e)))"
  using assms by (simp add: assign_if_def optional_def or_default_def split: option.split)

lemma set_attributes:
  assumes "casters_ok B"
  shows "set_attribute B ''commit_rule'' (PyStr s) e = Inr (e\<lparr>commit_rule := s\<rparr>)"
    "set_attribute B ''fire_rule'' (PyStr s) e = Inr (e\<lparr>fire_rule := s\<rparr>)"
    "set_attribute B ''commit_on_close_count'' (PyInt (sint n)) e = Inr (e\<lparr>commit_on_close_count := n\<rparr>)"
    "set_attribute B ''directory_children_count'' (PyInt (sint n)) e = Inr (e\<lparr>directory_children_count := n\<rparr>)"
    "set_attribute B ''is_file'' (PyBool b) e = Inr (e\<lparr>is_file := b\<rparr>)"
    "set_attribute B ''permanent'' (PyBool b) e = Inr (e\<lparr>permanent := b\<rparr>)"
    "set_attribute B ''excluded'' (PyBool b) e = Inr (e\<lparr>excluded := b\<rparr>)"
    "set_attribute B ''producers'' (PyList (map PyStr ss)) e = Inr (e\<lparr>producers := ss\<rparr>)"
    "set_attribute B ''consumers'' (PyList (map PyStr ss)) e = Inr (e\<lparr>consumers := ss\<rparr>)"
    "set_attribute B ''file_dependencies'' (PyList (map PyPath ss)) e = Inr (e\<lparr>file_dependencies := ss\<rparr>)"
  using assms by (simp_all add: set_attribute_def entry_attributes_def assign_def casters_ok_def)

lemma assign_directory:
  assumes "casters_ok B"
  shows "assign_if B ''is_file'' (optional PyBool dir) (PyBool (\<not> truthy (optional PyBool dir))) e =
    Inr (e\<lparr>is_file := (is_file e \<and> dir \<noteq> Some True)\<rparr>)"
  using set_attributes(5) [OF assms] by (auto simp: assign_if_def optional_def split: option.split)

lemma sint_zero_iff: "sint (n :: long) = 0 \<longleftrightarrow> n = 0"
  by (metis sint_0 word_of_sint)

text \<open>The entry the decorator builds: what is given and not empty, else the default.\<close>

lemma rule_entry_typed:
  assumes "casters_ok B"
  shows "rule_entry B
      \<lparr>arg_committed = optional PyStr commit, arg_fire = optional PyStr fire_r,
       arg_close_count = optional (\<lambda>n. PyInt (sint n)) closes, arg_directory_n_file_expected = optional (\<lambda>n. PyInt (sint n)) n_files,
       arg_is_directory = optional PyBool dir, arg_is_permanent = optional PyBool perm, arg_is_excluded = optional PyBool excl,
       arg_producers = optional (\<lambda>ss. PyList (map PyStr ss)) ps, arg_consumers = optional (\<lambda>ss. PyList (map PyStr ss)) cs,
       arg_dependencies = optional (\<lambda>ss. PyList (map PyPath ss)) ds\<rparr> =
    Inr (default_entry\<lparr>
      commit_rule := or_default (\<lambda>s. s \<noteq> []) commit ON_TERMINATION, fire_rule := or_default (\<lambda>s. s \<noteq> []) fire_r UPDATE,
      commit_on_close_count := or_default (\<lambda>n. n \<noteq> 0) closes 0, directory_children_count := or_default (\<lambda>n. n \<noteq> 0) n_files 0,
      is_file := (dir \<noteq> Some True), permanent := or_default (\<lambda>b. b) perm False, excluded := or_default (\<lambda>b. b) excl False,
      producers := or_default (\<lambda>ss. ss \<noteq> []) ps [], consumers := or_default (\<lambda>ss. ss \<noteq> []) cs [],
      file_dependencies := or_default (\<lambda>ss. ss \<noteq> []) ds []\<rparr>)"
proof -
  note step = assign_optional [OF set_attributes(1) [OF assms], where given = "\<lambda>s. s \<noteq> []" and sel = commit_rule]
    assign_optional [OF set_attributes(2) [OF assms], where given = "\<lambda>s. s \<noteq> []" and sel = fire_rule]
    assign_optional [OF set_attributes(3) [OF assms], where given = "\<lambda>n. n \<noteq> 0" and sel = commit_on_close_count]
    assign_optional [OF set_attributes(4) [OF assms], where given = "\<lambda>n. n \<noteq> 0" and sel = directory_children_count]
    assign_optional [OF set_attributes(6) [OF assms], where given = "\<lambda>b. b" and sel = permanent]
    assign_optional [OF set_attributes(7) [OF assms], where given = "\<lambda>b. b" and sel = excluded]
    assign_optional [OF set_attributes(8) [OF assms], where given = "\<lambda>ss. ss \<noteq> []" and sel = producers]
    assign_optional [OF set_attributes(9) [OF assms], where given = "\<lambda>ss. ss \<noteq> []" and sel = consumers]
    assign_optional [OF set_attributes(10) [OF assms], where given = "\<lambda>ss. ss \<noteq> []" and sel = file_dependencies]
    assign_directory [OF assms]
  show ?thesis by (simp add: rule_entry_def step sint_zero_iff default_entry_def)
qed


definition demo_rule_arguments :: rule_arguments where
  "demo_rule_arguments =
     \<lparr>arg_committed = PyStr ON_FILE, arg_fire = PyNone, arg_close_count = PyInt 0, arg_directory_n_file_expected = PyNone,
      arg_is_directory = PyBool True, arg_is_permanent = PyNone, arg_is_excluded = PyBool False,
      arg_producers = PyList [PyStr ''app''], arg_consumers = PyNone, arg_dependencies = PyNone\<rparr>"

definition demo_rule :: CapioCLEntry where
  "demo_rule = default_entry\<lparr>commit_rule := ON_FILE, is_file := False, producers := [''app'']\<rparr>"

lemma demo_rule_built: "rule_entry plain_casters demo_rule_arguments = Inr demo_rule"
proof -
  have given: "demo_rule_arguments =
      \<lparr>arg_committed = optional PyStr (Some ON_FILE), arg_fire = optional PyStr None,
       arg_close_count = optional (\<lambda>n. PyInt (sint n)) (Some 0), arg_directory_n_file_expected = optional (\<lambda>n. PyInt (sint n)) None,
       arg_is_directory = optional PyBool (Some True), arg_is_permanent = optional PyBool None, arg_is_excluded = optional PyBool (Some False),
       arg_producers = optional (\<lambda>ss. PyList (map PyStr ss)) (Some [''app'']), arg_consumers = optional (\<lambda>ss. PyList (map PyStr ss)) None,
       arg_dependencies = optional (\<lambda>ss. PyList (map PyPath ss)) None\<rparr>"
    by (simp add: demo_rule_arguments_def optional_def)
  from rule_entry_typed [OF plain_casters_ok, of "Some ON_FILE" None "Some 0" None "Some True" None "Some False" "Some [''app'']" None None]
  show ?thesis
    unfolding given [symmetric] by (simp add: or_default_def demo_rule_def default_entry_def rule_consts)
qed

definition wire_json :: jsoncons where
  "wire_json = demo_json\<lparr>
     json_parse := (\<lambda>t. if t = ''M'' then Inr (request_body ''d'' ''CAPIO'' (entry_json demo_rule)) else Inr (entry_json demo_rule)),
     as_string := (\<lambda>j. case j of JString s \<Rightarrow> Inr s | JObject _ \<Rightarrow> Inr ''E'' | _ \<Rightarrow> Inl JsonException)\<rparr>"


end
