(* ===== verification/CL_Home_Net.thy ===== *)
theory CL_Home_Net
  imports CL_Multicast_Net
begin

text \<open>
  The home node protocol of the multicast backend with any number of processes, as the commit protocol
  in \<open>CL_Multicast_Net\<close>: a process announces that it is the home node of a path, asks for the home node
  of one, or its listener takes a datagram that was sent to its group. The network is everything ever
  sent. A listener that reads a token that is not there takes no step: what it does is not defined.

  Home nodes are right as long as announcements fit the message; but two processes that announce the same
  path can leave each other believed, and then no process answers for the path.
\<close>

datatype home_event = Announces nat string | Inquires nat string | Notices nat datagram | Enters mcast

definition in_home_group :: "datagram \<Rightarrow> mcast \<Rightarrow> bool" where
  "in_home_group d m \<longleftrightarrow> dst_ip d = MULTICAST_HOME_NODE_ADDR m \<and> dst_port d = MULTICAST_HOME_NODE_PORT m"

definition home_query :: "string \<Rightarrow> mcast \<Rightarrow> datagram" where
  "home_query p m = send_message (MULTICAST_HOME_NODE_ADDR m) (MULTICAST_HOME_NODE_PORT m) p GET"

inductive home_step :: "net \<Rightarrow> home_event \<Rightarrow> net \<Rightarrow> bool" where
  announces: "n < length (nodes N) \<Longrightarrow> mcast_setHomeNode p (nodes N ! n) = (out, m) \<Longrightarrow>
    home_step N (Announces n p) (N\<lparr>nodes := (nodes N)[n := m], wire := wire N @ out\<rparr>)"
| inquires: "n < length (nodes N) \<Longrightarrow> mc_home_nodes (nodes N ! n) p = None \<Longrightarrow>
    home_step N (Inquires n p) (N\<lparr>wire := wire N @ [home_query p (nodes N ! n)]\<rparr>)"
| notices: "n < length (nodes N) \<Longrightarrow> d \<in> set (wire N) \<Longrightarrow> in_home_group d (nodes N ! n) \<Longrightarrow>
    home_listen (payload d) (nodes N ! n) = Some (out, m) \<Longrightarrow>
    home_step N (Notices n d) (N\<lparr>nodes := (nodes N)[n := m], wire := wire N @ out\<rparr>)"
| enters: "new_MulticastMonitor host conf = Inr m \<Longrightarrow>
    home_step N (Enters m) (N\<lparr>nodes := nodes N @ [m]\<rparr>)"

inductive home_run :: "home_event list \<Rightarrow> net \<Rightarrow> bool" where
  nobody: "home_run [] \<lparr>nodes = [], wire = []\<rparr>"
| proceeds: "home_run es N \<Longrightarrow> home_step N e N' \<Longrightarrow> home_run (es @ [e]) N'"

subsection \<open>What a listener makes of a message\<close>

text \<open>A path and a host name that the message carries whole.\<close>

definition fits :: "string \<Rightarrow> string \<Rightarrow> bool" where
  "fits p h \<longleftrightarrow> home_word p \<and> home_word h \<and> wire_safe (p @ '' '' @ h)"

definition announcement :: "string \<Rightarrow> string \<Rightarrow> mcast \<Rightarrow> datagram" where
  "announcement p h m =
     send_message (MULTICAST_HOME_NODE_ADDR m) (MULTICAST_HOME_NODE_PORT m) (p @ '' '' @ h) SET"

lemma announces_out: "mcast_setHomeNode p m = (out, m') \<longleftrightarrow>
    out = [announcement p (mc_hostname m) m] \<and>
    m' = m\<lparr>mc_home_nodes := (mc_home_nodes m)(p \<mapsto> mc_hostname m)\<rparr>"
  by (auto simp: mcast_setHomeNode_def announcement_def)

lemma home_listen_set:
  assumes "fits p h"
  shows "home_listen (send_text (p @ '' '' @ h) SET) m =
    Some ([], m\<lparr>mc_home_nodes := (mc_home_nodes m)(p \<mapsto> h)\<rparr>)"
  using home_message_tokens [of p h] assms
  by (simp add: fits_def home_listen_def home_receive_def del: c_str_send_text)

lemma query_tokens: "tokens_from [] (c_str (send_text q GET)) = ''?'' # tokens_from [] (wire_path q)"
  by (simp only: c_str_send_text) (simp add: send_text_eq)

text \<open>A query changes nothing; it is answered by a process that takes itself for the home node.\<close>

lemma home_listen_get:
  assumes "home_listen (send_text q GET) m = Some (out, m')"
  shows "m' = m \<and> (out = [] \<or>
    (\<exists>p. mc_home_nodes m p = Some (mc_hostname m) \<and> out = [announcement p (mc_hostname m) m]))"
  using assms by (auto simp: home_listen_def home_receive_def query_tokens announcement_def Let_def
      simp del: c_str_send_text split: if_splits option.splits)

lemma home_query_answer:
  assumes "home_word p" and "wire_safe p"
  shows "home_listen (send_text p GET) m =
    Some (if mc_home_nodes m p = Some (mc_hostname m) then [announcement p (mc_hostname m) m] else [], m)"
proof -
  have "tokens_from [] (c_str (send_text p GET)) = [''?'', p]"
    using assms tokens_word [of p "[]" "[]"]
    by (simp add: query_tokens wire_path_safe home_word_def del: c_str_send_text)
  then show ?thesis
    by (auto simp: home_listen_def home_receive_def announcement_def simp del: c_str_send_text split: option.splits)
qed

lemma fits_path: "fits p h \<Longrightarrow> home_word p \<and> wire_safe p"
  by (auto simp: fits_def wire_safe_def)

lemma home_listen_host: "home_listen msg m = Some (out, m') \<Longrightarrow> mc_hostname m' = mc_hostname m"
  by (auto simp: home_listen_def split: option.splits)

subsection \<open>The invariant\<close>

text \<open>Who announced what: the host names of the processes never change.\<close>

definition announced :: "home_event list \<Rightarrow> net \<Rightarrow> (string \<times> string) set" where
  "announced es N = {(p, h). \<exists>n. Announces n p \<in> set es \<and> mc_hostname (nodes N ! n) = h}"

definition node_in :: "(string \<times> string) set \<Rightarrow> mcast \<Rightarrow> bool" where
  "node_in A m \<longleftrightarrow> (\<forall>p h. mc_home_nodes m p = Some h \<longrightarrow> (p, h) \<in> A)"

definition message_in :: "(string \<times> string) set \<Rightarrow> datagram \<Rightarrow> bool" where
  "message_in A d \<longleftrightarrow>
     (\<exists>q. payload d = send_text q GET) \<or> (\<exists>p h. (p, h) \<in> A \<and> payload d = send_text (p @ '' '' @ h) SET)"

definition home_inv :: "(string \<times> string) set \<Rightarrow> net \<Rightarrow> bool" where
  "home_inv A N \<longleftrightarrow> list_all (node_in A) (nodes N) \<and> list_all (message_in A) (wire N)"

lemma home_inv_update:
  assumes "home_inv A N" and "node_in A m" and "list_all (message_in A) out"
  shows "home_inv A (N\<lparr>nodes := (nodes N)[n := m], wire := wire N @ out\<rparr>)"
  using assms set_update_subset_insert [of "nodes N" n m] by (auto simp: home_inv_def list_all_iff)

lemma node_in_set: "node_in A m \<Longrightarrow> (p, h) \<in> A \<Longrightarrow> node_in A (m\<lparr>mc_home_nodes := (mc_home_nodes m)(p \<mapsto> h)\<rparr>)"
  by (simp add: node_in_def)

lemma message_in_simps [simp]: "message_in A (home_query p m)" "(p, h) \<in> A \<Longrightarrow> message_in A (announcement p h m)"
  by (auto simp: message_in_def home_query_def announcement_def send_message_def)

lemma home_inv_node: "home_inv A N \<Longrightarrow> n < length (nodes N) \<Longrightarrow> node_in A (nodes N ! n)"
  by (simp add: home_inv_def list_all_length)

lemma home_inv_mono: "A \<subseteq> B \<Longrightarrow> home_inv A N \<Longrightarrow> home_inv B N"
  unfolding home_inv_def list_all_iff node_in_def message_in_def by blast

lemma home_step_hosts:
  "home_step N e N' \<Longrightarrow> length (nodes N) \<le> length (nodes N') \<and>
     (\<forall>n < length (nodes N). mc_hostname (nodes N' ! n) = mc_hostname (nodes N ! n))"
  by (erule home_step.cases)
    (auto simp: announces_out nth_list_update nth_append home_listen_host)

lemma announced_step:
  assumes "home_step N e N'" and "\<And>n p. Announces n p \<in> set es \<Longrightarrow> n < length (nodes N)"
  shows "announced (es @ [e]) N' = announced es N \<union> announced [e] N'"
proof -
  have "mc_hostname (nodes N' ! n) = mc_hostname (nodes N ! n)" if "Announces n p \<in> set es" for n p
    using assms(2) [OF that] home_step_hosts [OF assms(1)] by simp
  then have "(p, h) \<in> announced es N' \<longleftrightarrow> (p, h) \<in> announced es N" for p h by (auto simp: announced_def)
  then have "announced es N' = announced es N" by auto
  moreover have "announced (es @ [e]) N' = announced es N' \<union> announced [e] N'" by (auto simp: announced_def)
  ultimately show ?thesis by simp
qed

lemma home_run_length: "home_run es N \<Longrightarrow> Announces n p \<in> set es \<Longrightarrow> n < length (nodes N)"
proof (induction rule: home_run.induct)
  case (proceeds es N e N')
  from proceeds home_step_hosts [OF proceeds(2)] show ?case
    by (auto elim!: home_step.cases)
qed simp

lemma home_inv_step:
  assumes "home_step N e N'" and "home_inv A N" and "announced [e] N' \<subseteq> A" and "\<And>p h. (p, h) \<in> A \<Longrightarrow> fits p h"
  shows "home_inv A N'"
  using assms(1)
proof cases
  case (announces n p out m)
  have "mc_hostname m = mc_hostname (nodes N ! n)" using announces by (simp add: announces_out)
  with announces assms(3) have "(p, mc_hostname (nodes N ! n)) \<in> A" by (auto simp: announced_def)
  with announces home_inv_node [OF assms(2)] show ?thesis
    by (auto simp: announces_out intro!: home_inv_update [OF assms(2)] node_in_set)
next
  case (inquires n p)
  with assms(2) show ?thesis by (simp add: home_inv_def)
next
  case (notices n d out m)
  note node = home_inv_node [OF assms(2) notices(3)]
  have "message_in A d" using assms(2) notices(4) by (simp add: home_inv_def list_all_iff)
  then consider q where "payload d = send_text q GET"
    | p h where "(p, h) \<in> A" "payload d = send_text (p @ '' '' @ h) SET"
    unfolding message_in_def by blast
  then have "node_in A m \<and> list_all (message_in A) out"
  proof cases
    case 1
    with home_listen_get [of q "nodes N ! n" out m] notices(6) node show ?thesis by (auto simp: node_in_def)
  next
    case 2
    with home_listen_set [OF assms(4) [OF 2(1)], of "nodes N ! n"] notices(6) node show ?thesis
      by (auto intro: node_in_set)
  qed
  with notices(2) show ?thesis by (simp add: home_inv_update [OF assms(2)])
next
  case (enters host conf m)
  then have "node_in A m" by (auto simp: new_MulticastMonitor_def rbind_Inr_iff node_in_def)
  with assms(2) enters show ?thesis by (simp add: home_inv_def)
qed

lemma home_run_inv:
  assumes "home_run es N" and "\<And>p h. (p, h) \<in> announced es N \<Longrightarrow> fits p h"
  shows "home_inv (announced es N) N"
  using assms
proof (induction rule: home_run.induct)
  case nobody
  show ?case by (simp add: home_inv_def)
next
  case (proceeds es N e N')
  have split: "announced (es @ [e]) N' = announced es N \<union> announced [e] N'"
    by (rule announced_step [OF proceeds(2)]) (rule home_run_length [OF proceeds(1)])
  with proceeds have "home_inv (announced es N) N" by simp
  with split have "home_inv (announced (es @ [e]) N') N" by (auto intro: home_inv_mono)
  with proceeds split show ?case by (intro home_inv_step [OF proceeds(2)]) auto
qed

subsection \<open>Properties of the home node protocol on the network\<close>

text \<open>
  C7. As long as every announced path and its announcer's host name are words that fit the message, then
  whatever datagrams are lost, repeated, late or out of order and whatever is asked, a process that has a
  home node for a path is right: a process with that host name has announced that path.
\<close>

theorem home_nodes_never_lie:
  assumes "home_run es N" and "\<And>n p. Announces n p \<in> set es \<Longrightarrow> fits p (mc_hostname (nodes N ! n))"
    and "m \<in> set (nodes N)" and "mc_home_nodes m p = Some h"
  shows "\<exists>n < length (nodes N). Announces n p \<in> set es \<and> mc_hostname (nodes N ! n) = h"
proof -
  have "home_inv (announced es N) N"
    by (rule home_run_inv [OF assms(1)]) (auto simp: announced_def assms(2))
  then have "(p, h) \<in> announced es N"
    using assms(3,4) by (auto simp: home_inv_def list_all_iff node_in_def)
  with home_run_length [OF assms(1)] show ?thesis by (auto simp: announced_def)
qed

definition demo_host :: "string \<Rightarrow> mcast" where
  "demo_host h = demo_start\<lparr>mc_hostname := h\<rparr>"

lemma demo_host_enters: "home_step N (Enters (demo_host h)) (N\<lparr>nodes := nodes N @ [demo_host h]\<rparr>)"
  by (rule home_step.enters [of h "loadDefaults Map.empty"])
    (simp add: demo_host_def demo_start_def mcast_defaults)

definition demo_pair :: net where
  "demo_pair = \<lparr>nodes = [demo_host ''node1'', demo_host ''node2''], wire = []\<rparr>"

lemma demo_pair_run: "home_run [Enters (demo_host ''node1''), Enters (demo_host ''node2'')] demo_pair"
  using home_run.proceeds [OF home_run.proceeds [OF home_run.nobody demo_host_enters] demo_host_enters]
  by (simp add: demo_pair_def)

lemma demo_host_simps [simp]: "mc_hostname (demo_host h) = h" "mc_home_nodes (demo_host h) = Map.empty"
  by (simp_all add: demo_host_def demo_start_def mcast_defaults)

lemma demo_fits [simp]: "fits ''f'' ''node1''" "fits ''f'' ''node2''"
  by (simp_all add: fits_def home_word_def wire_safe_def MESSAGE_SIZE_def PATH_MAX_def)

theorem home_nodes_never_lie_witness:
  "\<exists>es N. home_run es N \<and> mc_home_nodes (nodes N ! 0) ''f'' = Some ''node1'' \<and>
    (\<exists>n < length (nodes N). Announces n ''f'' \<in> set es \<and> mc_hostname (nodes N ! n) = ''node1'')"
proof -
  define out where "out = fst (mcast_setHomeNode ''f'' (demo_host ''node1''))"
  define m where "m = snd (mcast_setHomeNode ''f'' (demo_host ''node1''))"
  let ?es = "[Enters (demo_host ''node1''), Enters (demo_host ''node2'')] @ [Announces 0 ''f'']"
  let ?N = "demo_pair\<lparr>nodes := (nodes demo_pair)[0 := m], wire := wire demo_pair @ out\<rparr>"
  have "mcast_setHomeNode ''f'' (nodes demo_pair ! 0) = (out, m)" by (simp add: demo_pair_def out_def m_def)
  then have run: "home_run ?es ?N"
    by (intro home_run.proceeds [OF demo_pair_run] home_step.announces) (simp_all add: demo_pair_def)
  have m: "mc_hostname m = ''node1''" "mc_home_nodes m ''f'' = Some ''node1''"
    by (simp_all add: m_def mcast_setHomeNode_def)
  have "\<exists>n < length (nodes ?N). Announces n ''f'' \<in> set ?es \<and> mc_hostname (nodes ?N ! n) = ''node1''"
    by (rule home_nodes_never_lie [OF run, of m]) (use m in \<open>auto simp: demo_pair_def\<close>)
  moreover have "mc_home_nodes (nodes ?N ! 0) ''f'' = Some ''node1''" using m by (simp add: demo_pair_def)
  ultimately show ?thesis using run by blast
qed

text \<open>
  The home node of a path can be lost although nobody gives it up: two processes that announce the same
  path and hear one another afterwards each take the other for its home node. Both are then silent when a
  process asks for it, so nobody can learn it any more by asking.
\<close>

theorem crossed_announcements:
  assumes "home_run es N" and "a < length (nodes N)" and "b < length (nodes N)"
    and "mc_hostname (nodes N ! a) \<noteq> mc_hostname (nodes N ! b)"
    and "fits p (mc_hostname (nodes N ! a))" and "fits p (mc_hostname (nodes N ! b))"
    and "MULTICAST_HOME_NODE_ADDR (nodes N ! a) = MULTICAST_HOME_NODE_ADDR (nodes N ! b)"
    and "MULTICAST_HOME_NODE_PORT (nodes N ! a) = MULTICAST_HOME_NODE_PORT (nodes N ! b)"
  shows "\<exists>es' N'. home_run (es @ es') N' \<and> length es' = 4 \<and>
    mc_home_nodes (nodes N' ! a) p = Some (mc_hostname (nodes N ! b)) \<and>
    mc_home_nodes (nodes N' ! b) p = Some (mc_hostname (nodes N ! a)) \<and>
    (\<forall>c \<in> {a, b}. home_listen (payload (home_query p asker)) (nodes N' ! c) = Some ([], nodes N' ! c))"
proof -
  let ?A = "nodes N ! a" and ?B = "nodes N ! b"
  let ?ha = "mc_hostname ?A" and ?hb = "mc_hostname ?B"
  let ?set = "\<lambda>h m. m\<lparr>mc_home_nodes := (mc_home_nodes m)(p \<mapsto> h)\<rparr>"
  let ?da = "announcement p ?ha ?A" and ?db = "announcement p ?hb ?B"
  let ?N1 = "N\<lparr>nodes := (nodes N)[a := ?set ?ha ?A], wire := wire N @ [?da]\<rparr>"
  let ?N2 = "?N1\<lparr>nodes := (nodes ?N1)[b := ?set ?hb ?B], wire := wire ?N1 @ [?db]\<rparr>"
  let ?N3 = "?N2\<lparr>nodes := (nodes ?N2)[a := ?set ?hb (?set ?ha ?A)], wire := wire ?N2 @ []\<rparr>"
  let ?N4 = "?N3\<lparr>nodes := (nodes ?N3)[b := ?set ?ha (?set ?hb ?B)], wire := wire ?N3 @ []\<rparr>"
  have ab: "a \<noteq> b" using assms(4) by auto
  have pay: "payload ?da = send_text (p @ '' '' @ ?ha) SET" "payload ?db = send_text (p @ '' '' @ ?hb) SET"
    by (simp_all add: announcement_def send_message_def)
  have "home_step N (Announces a p) ?N1"
    by (rule home_step.announces) (simp_all add: assms(2) announces_out)
  moreover have "home_step ?N1 (Announces b p) ?N2"
    by (rule home_step.announces) (use assms(3) ab in \<open>simp_all add: announces_out\<close>)
  moreover have "home_step ?N2 (Notices a ?db) ?N3"
    using home_step.notices [of a ?N2 ?db "[]" "?set ?hb (?set ?ha ?A)"]
      assms(2,7,8) ab home_listen_set [OF assms(6)] pay
    by (simp add: in_home_group_def announcement_def send_message_def)
  moreover have "home_step ?N3 (Notices b ?da) ?N4"
    using home_step.notices [of b ?N3 ?da "[]" "?set ?ha (?set ?hb ?B)"]
      assms(3,7,8) ab home_listen_set [OF assms(5)] pay
    by (simp add: in_home_group_def announcement_def send_message_def)
  ultimately have "home_run (es @ [Announces a p, Announces b p, Notices a ?db, Notices b ?da]) ?N4"
    using home_run.proceeds [OF home_run.proceeds [OF home_run.proceeds [OF home_run.proceeds [OF assms(1)]]]] by simp
  moreover have "home_listen (payload (home_query p asker)) m = Some ([], m)"
    if "mc_home_nodes m p = Some h" "h \<noteq> mc_hostname m" for m h
    using home_query_answer fits_path [OF assms(5)] that by (simp add: home_query_def send_message_def)
  ultimately show ?thesis
    using assms(2-4) ab
    by (intro exI [of _ "[Announces a p, Announces b p, Notices a ?db, Notices b ?da]"] exI [of _ ?N4]) auto
qed

theorem crossed_announcements_witness:
  "\<exists>es' N'. home_run ([Enters (demo_host ''node1''), Enters (demo_host ''node2'')] @ es') N' \<and>
    mc_home_nodes (nodes N' ! 0) ''f'' = Some ''node2'' \<and> mc_home_nodes (nodes N' ! 1) ''f'' = Some ''node1''"
proof -
  have "0 < length (nodes demo_pair)" "1 < length (nodes demo_pair)"
    and "mc_hostname (nodes demo_pair ! 0) = ''node1''" "mc_hostname (nodes demo_pair ! 1) = ''node2''"
    and "MULTICAST_HOME_NODE_ADDR (nodes demo_pair ! 0) = MULTICAST_HOME_NODE_ADDR (nodes demo_pair ! 1)"
    and "MULTICAST_HOME_NODE_PORT (nodes demo_pair ! 0) = MULTICAST_HOME_NODE_PORT (nodes demo_pair ! 1)"
    by (simp_all add: demo_pair_def demo_host_def)
  with crossed_announcements [OF demo_pair_run, of 0 1 "''f''"] show ?thesis by fastforce
qed

text \<open>
  A process that takes itself for the home node of a path can tell every process that asks: the query, its
  answer and the arrival of the answer are three steps the network can take.
\<close>

theorem home_node_can_be_learnt:
  assumes "home_run es N" and "a < length (nodes N)" and "b < length (nodes N)"
    and "mc_home_nodes (nodes N ! a) p = Some (mc_hostname (nodes N ! a))" and "mc_home_nodes (nodes N ! b) p = None"
    and "fits p (mc_hostname (nodes N ! a))"
    and "MULTICAST_HOME_NODE_ADDR (nodes N ! a) = MULTICAST_HOME_NODE_ADDR (nodes N ! b)"
    and "MULTICAST_HOME_NODE_PORT (nodes N ! a) = MULTICAST_HOME_NODE_PORT (nodes N ! b)"
  shows "\<exists>es' N'. home_run (es @ es') N' \<and> length es' = 3 \<and> mc_home_nodes (nodes N' ! b) p = Some (mc_hostname (nodes N ! a))"
proof -
  let ?A = "nodes N ! a" and ?B = "nodes N ! b"
  let ?q = "home_query p ?B" and ?d = "announcement p (mc_hostname ?A) ?A"
  let ?B' = "?B\<lparr>mc_home_nodes := (mc_home_nodes ?B)(p \<mapsto> mc_hostname ?A)\<rparr>"
  let ?N1 = "N\<lparr>wire := wire N @ [?q]\<rparr>"
  let ?N2 = "?N1\<lparr>nodes := (nodes ?N1)[a := ?A], wire := wire ?N1 @ [?d]\<rparr>"
  let ?N3 = "?N2\<lparr>nodes := (nodes ?N2)[b := ?B'], wire := wire ?N2 @ []\<rparr>"
  have "home_step N (Inquires b p) ?N1" using home_step.inquires assms(3,5) by simp
  moreover have "home_step ?N1 (Notices a ?q) ?N2"
    using home_step.notices [of a ?N1 ?q "[?d]" ?A] assms(2,4,7,8) home_query_answer fits_path [OF assms(6)]
    by (simp add: in_home_group_def home_query_def send_message_def)
  moreover have "home_step ?N2 (Notices b ?d) ?N3"
    using home_step.notices [of b ?N2 ?d "[]" ?B'] assms(2,3,7,8) home_listen_set [OF assms(6)]
    by (simp add: in_home_group_def announcement_def send_message_def)
  ultimately have "home_run (es @ [Inquires b p, Notices a ?q, Notices b ?d]) ?N3"
    using home_run.proceeds [OF home_run.proceeds [OF home_run.proceeds [OF assms(1)]]] by simp
  then show ?thesis using assms(3) by (intro exI [of _ "[Inquires b p, Notices a ?q, Notices b ?d]"] exI [of _ ?N3]) simp
qed

end
