(* ===== verification/CL_Token_Race.thy ===== *)
theory CL_Token_Race
  imports CL_Monitor_Spec
begin

text \<open>
  The token files of the file system backend (\<open>src/monitors/FileSystem.cpp\<close>) when several processes work on
  the same disk. A process writes a token in four operations on the file system: it looks whether the
  token exists, makes the directories, opens the file, which empties it, and writes. Between two operations
  the other processes run. \<open>write_token\<close> of \<open>CL_Monitor\<close> is the four without interruption.

  Processes differ in their current directory and host name. Files are written from the start: what is
  longer than the text written stays behind it.
\<close>

subsection \<open>The operations of one process\<close>

datatype token_op = SetsCommitted string | SetsHomeNode string

datatype stage = Looking | Making | Opening | Writing

datatype progress = Next stage | Finished | Failed exn

definition put_content :: "string \<Rightarrow> string \<Rightarrow> disk \<Rightarrow> disk" where
  "put_content token_name content d = d\<lparr>files := (files d)(path_key token_name \<mapsto> content)\<rparr>"

definition token_step :: "string \<Rightarrow> string \<Rightarrow> stage \<Rightarrow> disk \<Rightarrow> progress \<times> disk" where
  "token_step token_name content g d =
     (case g of
        Looking \<Rightarrow> (if file_exists d token_name then Finished else Next Making, d)
      | Making \<Rightarrow> (if mkdir_ok d (parent_path token_name) then Next Opening else Failed (FilesystemError (parent_path token_name)), d)
      | Opening \<Rightarrow> if open_ok d token_name then (Next Writing, put_content token_name [] d) else (Finished, d)
      | Writing \<Rightarrow>
          (Finished,
           case files d (path_key token_name) of
             None \<Rightarrow> d
           | Some old \<Rightarrow> put_content token_name (content @ drop (length content) old) d))"

text \<open>Without interruption the four operations are \<open>write_token\<close>.\<close>

fun token_steps :: "string \<Rightarrow> string \<Rightarrow> nat \<Rightarrow> stage \<Rightarrow> disk \<Rightarrow> progress \<times> disk" where
  "token_steps t content 0 g d = (Next g, d)"
| "token_steps t content (Suc n) g d =
     (case token_step t content g d of (Next g', d') \<Rightarrow> token_steps t content n g' d' | r \<Rightarrow> r)"

lemma token_alone:
  "token_steps t content 4 Looking d =
     (case write_token t content d of Inl ex \<Rightarrow> (Failed ex, d) | Inr d' \<Rightarrow> (Finished, d'))"
  by (simp add: numeral_eq_Suc token_step_def write_token_def put_content_def file_exists_def)

text \<open>What does not change of a process.\<close>

record fs_proc =
  pwd :: string
  host :: string

primrec op_token :: "fs_proc \<Rightarrow> token_op \<Rightarrow> string" where
  "op_token pr (SetsCommitted p) = compute_capiocl_token_name (pwd pr) p COMMIT"
| "op_token pr (SetsHomeNode p) = compute_capiocl_token_name (pwd pr) p HOME_NODE"

primrec op_content :: "fs_proc \<Rightarrow> token_op \<Rightarrow> string" where
  "op_content pr (SetsCommitted p) = []"
| "op_content pr (SetsHomeNode p) = host pr @ [CHR 0x0A]"

abbreviation op_key :: "fs_proc \<Rightarrow> token_op \<Rightarrow> bool \<times> string list" where
  "op_key pr op \<equiv> path_key (op_token pr op)"

definition seen_by :: "fs_proc \<Rightarrow> disk \<Rightarrow> disk" where
  "seen_by pr d = d\<lparr>cwd := pwd pr\<rparr>"

subsection \<open>Processes on one disk\<close>

datatype token_event = Starts nat token_op | Proceeds nat | Ends nat token_op | Throws nat token_op exn

type_synonym jobs = "nat \<Rightarrow> (token_op \<times> stage) option"

text \<open>What an operation shows and what the process does next.\<close>

definition op_event :: "nat \<Rightarrow> token_op \<Rightarrow> progress \<Rightarrow> token_event" where
  "op_event i op r = (case r of Next _ \<Rightarrow> Proceeds i | Finished \<Rightarrow> Ends i op | Failed ex \<Rightarrow> Throws i op ex)"

definition next_job :: "token_op \<Rightarrow> progress \<Rightarrow> (token_op \<times> stage) option" where
  "next_job op r = (case r of Next g \<Rightarrow> Some (op, g) | _ \<Rightarrow> None)"

inductive disk_step :: "fs_proc list \<Rightarrow> disk \<times> jobs \<Rightarrow> token_event \<Rightarrow> disk \<times> jobs \<Rightarrow> bool" for C where
  d_starts: "i < length C \<Longrightarrow> js i = None \<Longrightarrow> disk_step C (d, js) (Starts i op) (d, js(i \<mapsto> (op, Looking)))"
| d_operates: "js i = Some (op, g) \<Longrightarrow> token_step (op_token (C ! i) op) (op_content (C ! i) op) g d = (r, d') \<Longrightarrow>
    disk_step C (d, js) (op_event i op r) (d', js(i := next_job op r))"

inductive disk_run :: "fs_proc list \<Rightarrow> disk \<Rightarrow> token_event list \<Rightarrow> disk \<times> jobs \<Rightarrow> bool" for C d0 where
  nothing_yet: "disk_run C d0 [] (d0, Map.empty)"
| next_op: "disk_run C d0 evs s \<Longrightarrow> disk_step C s ev s' \<Longrightarrow> disk_run C d0 (evs @ [ev]) s'"

subsection \<open>The invariant\<close>

text \<open>The calls that have started on a token, and what it can hold: nothing, or a line of one of them in front.\<close>

definition started :: "fs_proc list \<Rightarrow> token_event list \<Rightarrow> bool \<times> string list \<Rightarrow> (nat \<times> token_op) set" where
  "started C evs k = {(i, op). i < length C \<and> Starts i op \<in> set evs \<and> op_key (C ! i) op = k}"

definition lines :: "fs_proc list \<Rightarrow> token_event list \<Rightarrow> bool \<times> string list \<Rightarrow> string \<Rightarrow> bool" where
  "lines C evs k c \<longleftrightarrow> c = [] \<or> (\<exists>(i, op) \<in> started C evs k. \<exists>junk. c = op_content (C ! i) op @ junk)"

definition job_ok :: "fs_proc list \<Rightarrow> disk \<Rightarrow> token_event list \<Rightarrow> disk \<Rightarrow> nat \<Rightarrow> token_op \<times> stage \<Rightarrow> bool" where
  "job_ok C d0 evs d i = (\<lambda>(op, g).
     (i, op) \<in> started C evs (op_key (C ! i) op) \<and>
     (g \<noteq> Looking \<longrightarrow> files d0 (op_key (C ! i) op) = None) \<and> (g = Writing \<longrightarrow> files d (op_key (C ! i) op) \<noteq> None))"

definition token_inv :: "fs_proc list \<Rightarrow> disk \<Rightarrow> token_event list \<Rightarrow> disk \<times> jobs \<Rightarrow> bool" where
  "token_inv C d0 evs = (\<lambda>(d, js).
     mkdir_ok d = mkdir_ok d0 \<and> open_ok d = open_ok d0 \<and>
     (\<forall>k. files d0 k \<noteq> None \<longrightarrow> files d k = files d0 k) \<and>
     (\<forall>k c. files d k = Some c \<longrightarrow> files d0 k = None \<longrightarrow> started C evs k \<noteq> {} \<and> lines C evs k c) \<and>
     (\<forall>i j. js i = Some j \<longrightarrow> job_ok C d0 evs d i j) \<and>
     (\<forall>i op. Ends i op \<in> set evs \<longrightarrow>
        open_ok d0 (op_token (C ! i) op) \<longrightarrow> files d (op_key (C ! i) op) \<noteq> None))"

lemma token_invD:
  assumes "token_inv C d0 evs (d, js)"
  shows "\<And>k. files d0 k \<noteq> None \<Longrightarrow> files d k = files d0 k"
    and "\<And>k c. files d k = Some c \<Longrightarrow> files d0 k = None \<Longrightarrow> started C evs k \<noteq> {} \<and> lines C evs k c"
    and "\<And>j x. js j = Some x \<Longrightarrow> job_ok C d0 evs d j x"
    and "\<And>i op. Ends i op \<in> set evs \<Longrightarrow> open_ok d0 (op_token (C ! i) op) \<Longrightarrow> files d (op_key (C ! i) op) \<noteq> None"
  using assms by (auto simp: token_inv_def)

lemma started_mono: "started C evs k \<subseteq> started C (evs @ [ev]) k"
  by (auto simp: started_def)

lemma lines_mono: "lines C evs k c \<Longrightarrow> lines C (evs @ [ev]) k c"
  using started_mono [of C evs k ev] unfolding lines_def by blast

lemma started_simps [simp]:
  "started C (evs @ [op_event i op r]) k = started C evs k"
  "started C (evs @ [Starts i op]) k = started C evs k \<union> (if i < length C \<and> op_key (C ! i) op = k then {(i, op)} else {})"
  by (auto simp: started_def op_event_def split: progress.splits)

lemma lines_op_event [simp]: "lines C (evs @ [op_event i op r]) = lines C evs"
  by (simp add: lines_def fun_eq_iff)

text \<open>What one operation does to the files.\<close>

lemma token_step_static: "token_step t content g d = (r, d') \<Longrightarrow> mkdir_ok d' = mkdir_ok d \<and> open_ok d' = open_ok d"
  by (auto simp: token_step_def put_content_def split: stage.splits if_splits option.splits)

lemma token_step_other: "token_step t content g d = (r, d') \<Longrightarrow> k \<noteq> path_key t \<Longrightarrow> files d' k = files d k"
  by (auto simp: token_step_def put_content_def split: stage.splits if_splits option.splits)

lemma token_step_grows: "token_step t content g d = (r, d') \<Longrightarrow> files d k \<noteq> None \<Longrightarrow> files d' k \<noteq> None"
  by (auto simp: token_step_def put_content_def split: stage.splits if_splits option.splits)

lemma token_step_own:
  "token_step t content g d = (r, d') \<Longrightarrow> files d' (path_key t) = Some c \<Longrightarrow>
     files d (path_key t) = Some c \<or> g \<noteq> Looking \<and> (c = [] \<or> (\<exists>junk. c = content @ junk))"
  by (auto simp: token_step_def put_content_def split: stage.splits if_splits option.splits)

lemma token_step_looking: "token_step t content Looking d = (r, d') \<Longrightarrow>
    d' = d \<and> r = (if files d (path_key t) = None then Next Making else Finished)"
  by (auto simp: token_step_def file_exists_def)

lemma token_step_next:
  "token_step t content g d = (Next g', d') \<Longrightarrow> g' \<noteq> Looking \<and> (g = Looking \<longrightarrow> files d (path_key t) = None) \<and>
     (g' = Writing \<longrightarrow> files d' (path_key t) \<noteq> None)"
  by (auto simp: token_step_def put_content_def file_exists_def split: stage.splits if_splits)

lemma token_step_finished:
  "token_step t content g d = (Finished, d') \<Longrightarrow> open_ok d t \<Longrightarrow> g = Writing \<longrightarrow> files d (path_key t) \<noteq> None \<Longrightarrow>
     files d' (path_key t) \<noteq> None"
  by (auto simp: token_step_def put_content_def file_exists_def split: stage.splits if_splits option.splits)

lemma token_inv_operates:
  assumes inv: "token_inv C d0 evs (d, js)" and job: "js i = Some (op, g)"
    and step: "token_step (op_token (C ! i) op) (op_content (C ! i) op) g d = (r, d')"
  shows "token_inv C d0 (evs @ [op_event i op r]) (d', js(i := next_job op r))"
proof -
  let ?k = "op_key (C ! i) op"
  note old = token_invD(1) [OF inv] and content = token_invD(2) [OF inv] and jobs = token_invD(3) [OF inv]
    and ended = token_invD(4) [OF inv]
  have static: "mkdir_ok d = mkdir_ok d0" "open_ok d = open_ok d0" using inv by (simp_all add: token_inv_def)
  have own: "(i, op) \<in> started C evs ?k" "g \<noteq> Looking \<longrightarrow> files d0 ?k = None" "g = Writing \<longrightarrow> files d ?k \<noteq> None"
    using jobs [OF job] by (auto simp: job_ok_def)
  have "files d' k = files d0 k" if k: "files d0 k \<noteq> None" for k
  proof (cases "k = ?k")
    case True
    with own(2) k have "g = Looking" by auto
    with token_step_looking [of "op_token (C ! i) op" "op_content (C ! i) op" d r d'] step old [OF k] show ?thesis by simp
  qed (use token_step_other [OF step] old [OF k] in simp)
  moreover have "started C evs k \<noteq> {} \<and> lines C evs k c" if "files d' k = Some c" "files d0 k = None" for k c
  proof (cases "k = ?k")
    case True
    with token_step_own [OF step] that(1) content [OF _ that(2)] own(1) show ?thesis
      unfolding lines_def by blast
  qed (use token_step_other [OF step] that content in simp)
  moreover have "job_ok C d0 (evs @ [op_event i op r]) d' j x" if "(js(i := next_job op r)) j = Some x" for j x
  proof (cases "j = i")
    case True
    with that obtain g' where g': "r = Next g'" "x = (op, g')" by (auto simp: next_job_def split: progress.splits)
    with token_step_next step own(2) old [of ?k] have "g' \<noteq> Looking \<longrightarrow> files d0 ?k = None"
      and "g' = Writing \<longrightarrow> files d' ?k \<noteq> None" by (metis option.distinct(1))+
    with g' True own(1) show ?thesis by (simp add: job_ok_def)
  next
    case False
    with that jobs [of j x] token_step_grows [OF step, of "op_key (C ! j) (fst x)"] show ?thesis
      by (auto simp: job_ok_def)
  qed
  moreover have "files d' (op_key (C ! j) q) \<noteq> None"
    if "Ends j q \<in> set (evs @ [op_event i op r])" "open_ok d0 (op_token (C ! j) q)" for j q
  proof (cases "Ends j q \<in> set evs")
    case True
    then show ?thesis using token_step_grows [OF step] ended that(2) by blast
  next
    case False
    with that(1) have "j = i" "q = op" "r = Finished" by (auto simp: op_event_def split: progress.splits)
    with token_step_finished step own(3) static that(2) show ?thesis by metis
  qed
  ultimately show ?thesis
    using token_step_static [OF step] static by (simp add: token_inv_def)
qed

lemma token_run_inv: "disk_run C d0 evs s \<Longrightarrow> token_inv C d0 evs s"
proof (induction rule: disk_run.induct)
  case nothing_yet
  then show ?case by (simp add: token_inv_def)
next
  case (next_op evs s ev s')
  from next_op(2) show ?case
  proof cases
    case (d_starts i js d op)
    have inv: "token_inv C d0 evs (d, js)" using next_op(3) d_starts by simp
    have job: "job_ok C d0 (evs @ [Starts i op]) d j x" if "(js(i \<mapsto> (op, Looking))) j = Some x" for j x
      using inv that d_starts(4) by (cases "j = i") (auto simp: token_inv_def job_ok_def)
    have "started C evs k \<noteq> {} \<and> lines C evs k c \<Longrightarrow>
        started C (evs @ [Starts i op]) k \<noteq> {} \<and> lines C (evs @ [Starts i op]) k c" for k c
      using lines_mono [of C evs k c "Starts i op"] started_mono [of C evs k "Starts i op"] by blast
    with inv job show ?thesis unfolding d_starts(2,3) token_inv_def by fastforce
  next
    case (d_operates js i op g d r d')
    with next_op(3) show ?thesis by (simp add: token_inv_operates)
  qed
qed

subsection \<open>Properties of the tokens\<close>

definition absolute_dirs :: "fs_proc list \<Rightarrow> bool" where
  "absolute_dirs C \<longleftrightarrow> list_all (\<lambda>pr. is_absolute (pwd pr)) C"

text \<open>A commit token is never a home node token, whatever the directories of the processes.\<close>

lemma token_kinds:
  assumes "is_absolute c" and "is_absolute c'"
  shows "path_key (compute_capiocl_token_name c p COMMIT) \<noteq> path_key (compute_capiocl_token_name c' q HOME_NODE)"
  using token_suffix_inj [of "CHR ''.'' # filename (absolute c p)" COMMIT "CHR ''.'' # filename (absolute c' q)" HOME_NODE]
  by (simp add: token_key [OF assms(1)] token_key [OF assms(2)])

lemma op_key_kind:
  assumes "absolute_dirs C" and "i < length C" and "j < length C"
  shows "op_key (C ! i) op = op_key (C ! j) (SetsCommitted q) \<Longrightarrow> \<exists>p. op = SetsCommitted p"
    and "op_key (C ! i) op = op_key (C ! j) (SetsHomeNode q) \<Longrightarrow> \<exists>p. op = SetsHomeNode p"
  using assms token_kinds [of "pwd (C ! i)" "pwd (C ! j)"] token_kinds [of "pwd (C ! j)" "pwd (C ! i)"]
  by (cases op; simp add: absolute_dirs_def list_all_length; metis)+

lemma committed_key: "fs_isCommitted q (seen_by pr d) \<longleftrightarrow> files d (op_key pr (SetsCommitted q)) \<noteq> None"
  by (simp add: fs_isCommitted_def file_exists_def seen_by_def)


lemma first_word_front:
  "list_all (\<lambda>c. \<not> is_space c) w \<Longrightarrow> w \<noteq> [] \<Longrightarrow> first_word (w @ CHR 0x0A # rest) = w"
  by (cases w) (auto simp: first_word_def takeWhile_append list_all_iff is_space_def)

text \<open>
  C26. Whatever home nodes processes set for a file at the same time, their operations interleaved in any
  way, the token never holds a mixture: a process that asks for the first time is told no home node, an empty
  name or the host name of one process that has set it.
\<close>

theorem home_token_one_name:
  assumes "disk_run C d0 evs (d, js)" and "absolute_dirs C" and "j < length C"
    and "list_all (\<lambda>pr. host pr \<noteq> [] \<and> list_all (\<lambda>c. \<not> is_space c) (host pr)) C"
    and "files d0 (op_key (C ! j) (SetsHomeNode q)) = None" and "fs_home_nodes m q = None"
  shows "fst (fs_getHomeNode q (seen_by (C ! j) d) m) \<in> {NO_HOME_NODE, []} \<union>
    {host (C ! i) | i p. i < length C \<and> Starts i (SetsHomeNode p) \<in> set evs \<and>
       op_key (C ! i) (SetsHomeNode p) = op_key (C ! j) (SetsHomeNode q)}"
proof -
  let ?k = "op_key (C ! j) (SetsHomeNode q)"
  have inv: "token_inv C d0 evs (d, js)" by (rule token_run_inv [OF assms(1)])
  have told: "fst (fs_getHomeNode q (seen_by (C ! j) d) m) =
      (case files d ?k of None \<Rightarrow> NO_HOME_NODE | Some c \<Rightarrow> first_word c)"
    using assms(6) by (simp add: fs_getHomeNode_def seen_by_def Let_def split: option.split)
  show ?thesis
  proof (cases "files d ?k")
    case (Some c)
    then have "lines C evs ?k c" using token_invD(2) [OF inv _ assms(5)] by blast
    then consider "c = []" | i op junk where "(i, op) \<in> started C evs ?k" "c = op_content (C ! i) op @ junk"
      unfolding lines_def by blast
    then show ?thesis
    proof cases
      case 1
      with told Some show ?thesis by (simp add: first_word_def)
    next
      case 2
      then have op: "i < length C" "Starts i op \<in> set evs" "op_key (C ! i) op = ?k" by (simp_all add: started_def)
      then obtain p where p: "op = SetsHomeNode p" using op_key_kind(2) [OF assms(2) op(1) assms(3)] by blast
      have "first_word c = host (C ! i)"
        using 2(2) p first_word_front assms(4) op(1) by (simp add: list_all_length)
      with told Some op p show ?thesis by auto
    qed
  qed (simp add: told)
qed

definition two_procs :: "fs_proc list" where
  "two_procs = [\<lparr>pwd = ''/w'', host = ''node1''\<rparr>, \<lparr>pwd = ''/'', host = ''node2''\<rparr>]"

lemma two_procs_simps [simp]: "absolute_dirs two_procs" "length two_procs = 2"
  "list_all (\<lambda>pr. host pr \<noteq> [] \<and> list_all (\<lambda>c. \<not> is_space c) (host pr)) two_procs"
  by code_simp+

text \<open>A process that sets a new token and nobody in between: when it has opened the file, and when it is done.\<close>

lemma token_opened:
  assumes "i < length C" and "\<not> file_exists d0 (op_token (C ! i) op)" and "can_write d0 (op_token (C ! i) op)"
  shows "disk_run C d0 [Starts i op, Proceeds i, Proceeds i, Proceeds i]
    (put_content (op_token (C ! i) op) [] d0, [i \<mapsto> (op, Writing)])"
proof -
  let ?t = "op_token (C ! i) op" and ?c = "op_content (C ! i) op"
  have "disk_step C (d0, Map.empty) (Starts i op) (d0, [i \<mapsto> (op, Looking)])"
    using assms(1) by (rule disk_step.d_starts) simp
  moreover have "disk_step C (d0, [i \<mapsto> (op, Looking)]) (Proceeds i) (d0, [i \<mapsto> (op, Making)])"
    using disk_step.d_operates [of "[i \<mapsto> (op, Looking)]" i op Looking C d0 "Next Making" d0] assms(2)
    by (simp add: token_step_def op_event_def next_job_def)
  moreover have "disk_step C (d0, [i \<mapsto> (op, Making)]) (Proceeds i) (d0, [i \<mapsto> (op, Opening)])"
    using disk_step.d_operates [of "[i \<mapsto> (op, Making)]" i op Making C d0 "Next Opening" d0] assms(3)
    by (simp add: token_step_def op_event_def next_job_def can_write_def)
  moreover have "disk_step C (d0, [i \<mapsto> (op, Opening)]) (Proceeds i) (put_content ?t [] d0, [i \<mapsto> (op, Writing)])"
    using disk_step.d_operates [of "[i \<mapsto> (op, Opening)]" i op Opening C d0 "Next Writing" "put_content ?t [] d0"] assms(3)
    by (simp add: token_step_def op_event_def next_job_def can_write_def)
  ultimately show ?thesis
    using disk_run.next_op [OF disk_run.next_op [OF disk_run.next_op [OF disk_run.next_op [OF disk_run.nothing_yet]]]] by fastforce
qed

lemma token_written:
  assumes "i < length C" and "\<not> file_exists d0 (op_token (C ! i) op)" and "can_write d0 (op_token (C ! i) op)"
  shows "disk_run C d0 [Starts i op, Proceeds i, Proceeds i, Proceeds i, Ends i op]
    (put_content (op_token (C ! i) op) (op_content (C ! i) op) (put_content (op_token (C ! i) op) [] d0), Map.empty)"
proof -
  let ?t = "op_token (C ! i) op" and ?c = "op_content (C ! i) op"
  have "disk_step C (put_content ?t [] d0, [i \<mapsto> (op, Writing)]) (Ends i op) (put_content ?t ?c (put_content ?t [] d0), Map.empty)"
    using disk_step.d_operates [of "[i \<mapsto> (op, Writing)]" i op Writing C "put_content ?t [] d0" Finished
        "put_content ?t ?c (put_content ?t [] d0)"]
    by (simp add: token_step_def op_event_def next_job_def put_content_def)
  from disk_run.next_op [OF token_opened [OF assms] this] show ?thesis by simp
qed


theorem home_token_one_name_witness:
  "\<exists>d. disk_run two_procs demo_disk
      [Starts 0 (SetsHomeNode ''f''), Proceeds 0, Proceeds 0, Proceeds 0, Ends 0 (SetsHomeNode ''f'')] (d, Map.empty) \<and>
    fst (fs_getHomeNode ''w/f'' (seen_by (two_procs ! 1) d) (new_FileSystemMonitor ''node2'')) \<in> {NO_HOME_NODE, [], ''node1''}"
proof -
  let ?op = "SetsHomeNode ''f''" and ?q = "two_procs ! 1"
  let ?evs = "[Starts 0 ?op, Proceeds 0, Proceeds 0, Proceeds 0, Ends 0 ?op]"
  have "\<not> file_exists demo_disk (op_token (two_procs ! 0) ?op)" and "can_write demo_disk (op_token (two_procs ! 0) ?op)"
    by (simp_all add: demo_disk_def file_exists_def can_write_def)
  with token_written [of 0 two_procs demo_disk ?op] obtain d where run: "disk_run two_procs demo_disk ?evs (d, Map.empty)" by auto
  have "host (two_procs ! 0) = ''node1''" by code_simp
  moreover have "files demo_disk (op_key ?q (SetsHomeNode ''w/f'')) = None" by (simp add: demo_disk_def)
  moreover have "fs_home_nodes (new_FileSystemMonitor ''node2'') ''w/f'' = None" by (simp add: new_FileSystemMonitor_def)
  ultimately have "fst (fs_getHomeNode ''w/f'' (seen_by ?q d) (new_FileSystemMonitor ''node2'')) \<in> {NO_HOME_NODE, [], ''node1''}"
    using home_token_one_name [OF run, of 1 "''w/f''" "new_FileSystemMonitor ''node2''"] by (auto simp: less_2_cases_iff)
  with run show ?thesis by blast
qed

text \<open>
  The empty name can be read: a process that asks while another has opened the token and not yet written it
  is told the empty host name, and keeps that answer when the token is complete.
\<close>

theorem empty_home_node_is_cached:
  assumes "i < length C" and "\<not> file_exists d0 (op_token (C ! i) (SetsHomeNode p))"
    and "can_write d0 (op_token (C ! i) (SetsHomeNode p))"
    and "op_key (C ! j) (SetsHomeNode q) = op_key (C ! i) (SetsHomeNode p)" and "fs_home_nodes m q = None"
  shows "\<exists>evs d1 js1 evs' d2 js2. disk_run C d0 evs (d1, js1) \<and> disk_run C d0 (evs @ evs') (d2, js2) \<and>
    Ends i (SetsHomeNode p) \<in> set evs' \<and> fst (fs_getHomeNode q (seen_by (C ! j) d1) m) = [] \<and>
    fst (fs_getHomeNode q (seen_by (C ! j) d2) (snd (fs_getHomeNode q (seen_by (C ! j) d1) m))) = []"
proof -
  let ?op = "SetsHomeNode p" and ?d1 = "put_content (op_token (C ! i) (SetsHomeNode p)) [] d0"
  have told: "fs_getHomeNode q (seen_by (C ! j) ?d1) m = ([], m\<lparr>fs_home_nodes := (fs_home_nodes m)(q \<mapsto> [])\<rparr>)"
    using assms(4,5) by (simp add: fs_getHomeNode_def seen_by_def put_content_def first_word_def Let_def)
  have cached: "fst (fs_getHomeNode q d (snd (fs_getHomeNode q (seen_by (C ! j) ?d1) m))) = []" for d
    unfolding told by (simp add: fs_getHomeNode_def)
  show ?thesis
    using token_opened [OF assms(1-3)] token_written [OF assms(1-3)] told cached
    by (intro exI [of _ "[Starts i ?op, Proceeds i, Proceeds i, Proceeds i]"] exI [of _ ?d1] exI [of _ "[i \<mapsto> (?op, Writing)]"]
        exI [of _ "[Ends i ?op]"] exI [of _ "put_content (op_token (C ! i) ?op) (op_content (C ! i) ?op) ?d1"] exI [of _ Map.empty])
      (simp del: op_token.simps op_content.simps)
qed

end
