(* ===== verification/CL_Lock.thy ===== *)
theory CL_Lock
  imports CL_Concurrent_Spec
begin

text \<open>
  The lock of the engine (\<open>shared_lock_guard\<close> in \<open>src/Engine.cpp\<close>, \<open>_shared_mutex\<close> in
  \<open>capiocl/engine.h\<close>). \<open>CL_Concurrent\<close> takes a critical section as one step. Here a section takes the
  mutex, shared or exclusive, makes any number of accesses to the engine while the other threads go on,
  and releases the mutex; while it writes the engine can be in any state. It is shown that no two
  conflicting accesses can be concurrent, that what the threads observe is what they observe when sections
  are single steps, and that the threads never block each other for good.

  What a section computes depends on what it has read: if its reads did not agree, anything can come out.
  The calls are those of \<open>CL_Session\<close>. Besides them a thread can read the engine without any lock, as
  \<open>print\<close>, \<open>operator==\<close> and the serializers do, and as a caller does with the reference that
  \<open>getWorkflowName\<close> returns. The engine here is its map of entries, its flag for new entries and the name
  of its workflow; its configuration and its monitor are not guarded by the mutex and not in question.
\<close>

subsection \<open>The shared mutex\<close>

record shared_mutex =
  holders :: "nat list"
  owner :: "nat option"

definition free_mutex :: shared_mutex where
  "free_mutex = \<lparr>holders = [], owner = None\<rparr>"

text \<open>\<open>None\<close>: the thread has to wait.\<close>

definition lock_shared :: "nat \<Rightarrow> shared_mutex \<Rightarrow> shared_mutex option" where
  "lock_shared i mu = (if owner mu = None then Some (mu\<lparr>holders := i # holders mu\<rparr>) else None)"

definition unlock_shared :: "nat \<Rightarrow> shared_mutex \<Rightarrow> shared_mutex" where
  "unlock_shared i mu = mu\<lparr>holders := remove1 i (holders mu)\<rparr>"

definition lock_exclusive :: "nat \<Rightarrow> shared_mutex \<Rightarrow> shared_mutex option" where
  "lock_exclusive i mu = (if owner mu = None \<and> holders mu = [] then Some (mu\<lparr>owner := Some i\<rparr>) else None)"

definition unlock_exclusive :: "shared_mutex \<Rightarrow> shared_mutex" where
  "unlock_exclusive mu = mu\<lparr>owner := None\<rparr>"

subsection \<open>The guard each section takes\<close>

text \<open>
  The guard of \<open>getWorkflowName\<close> covers only the return of a reference: the answer of the call is the name at
  that moment, and a caller that reads the reference afterwards is \<open>Peeking Reading_name\<close> below.
\<close>

datatype lock_mode = Shared_lock | Exclusive_lock | No_lock

definition whole_mode :: "call \<Rightarrow> lock_mode" where
  "whole_mode c =
     (case c of
        Contains _ \<Rightarrow> Shared_lock | SizeOf \<Rightarrow> Shared_lock | GetPaths \<Rightarrow> Shared_lock
      | GetCommitOnFileDependencies _ \<Rightarrow> Shared_lock | GetFileToStoreInMemory \<Rightarrow> Shared_lock
      | GetWorkflowName \<Rightarrow> Shared_lock | _ \<Rightarrow> Exclusive_lock)"

definition section_mode :: "critical \<Rightarrow> lock_mode" where
  "section_mode s =
     (case s of
        Whole c \<Rightarrow> whole_mode c
      | Create l _ \<Rightarrow> if l then Exclusive_lock else No_lock
      | Read _ _ _ _ \<Rightarrow> Shared_lock | Scan _ _ _ \<Rightarrow> Shared_lock
      | MarkAll _ _ \<Rightarrow> Shared_lock | StoreAll \<Rightarrow> Shared_lock
      | _ \<Rightarrow> Exclusive_lock)"

definition acquire :: "lock_mode \<Rightarrow> nat \<Rightarrow> shared_mutex \<Rightarrow> shared_mutex option" where
  "acquire mode i mu =
     (case mode of Shared_lock \<Rightarrow> lock_shared i mu | Exclusive_lock \<Rightarrow> lock_exclusive i mu | No_lock \<Rightarrow> Some mu)"

definition release :: "lock_mode \<Rightarrow> nat \<Rightarrow> shared_mutex \<Rightarrow> shared_mutex" where
  "release mode i mu =
     (case mode of Shared_lock \<Rightarrow> unlock_shared i mu | Exclusive_lock \<Rightarrow> unlock_exclusive mu | No_lock \<Rightarrow> mu)"

text \<open>The sections that take the mutex shared do not write.\<close>

lemma shared_reads_only:
  "section_mode s = Shared_lock \<Longrightarrow> run_section P s st = (ns, b, st') \<Longrightarrow> st' = st"
proof (cases s)
  case (Whole c)
  then show "section_mode s = Shared_lock \<Longrightarrow> run_section P s st = (ns, b, st') \<Longrightarrow> st' = st"
    by (cases c) (simp_all add: section_mode_def whole_mode_def)
qed (auto simp: section_mode_def split: option.splits if_splits)

lemma section_mode_locked: "section_mode s \<noteq> No_lock \<longleftrightarrow> locked s"
proof (cases s)
  case (Whole c)
  then show ?thesis by (cases c) (simp_all add: section_mode_def whole_mode_def locked_def)
qed (simp_all add: section_mode_def locked_def)

subsection \<open>Threads that take the lock\<close>

text \<open>
  \<open>Inside c s ss a seen dirty\<close>: in section \<open>s\<close> of call \<open>c\<close>, having read the engines \<open>seen\<close>; \<open>dirty\<close>
  once it has begun to write. \<open>Peeking u\<close>: reading the engine without the mutex, in \<open>print\<close>, in
  \<open>operator==\<close>, in the copy the serializers make of the map, or through the reference to the name of the
  workflow, after the guard in \<open>getWorkflowName\<close> is gone.
\<close>

datatype (plugins only: code size) unguarded_read = Printing | Comparing | Serializing | Reading_name

datatype (plugins only: code size) lthread =
    Outside thread
  | Inside call critical "critical list" answer "engine list" bool
  | Peeking unguarded_read

datatype (plugins only: code size) label =
    Visible event
  | Acquires nat
  | Reads nat
  | Writes nat
  | Peeks nat unguarded_read
  | Peeked nat

text \<open>What a section can compute from its reads.\<close>

definition computes :: "platform \<Rightarrow> critical \<Rightarrow> engine list \<Rightarrow> critical list \<times> answer option \<times> engine \<Rightarrow> bool" where
  "computes P s seen r \<longleftrightarrow> seen \<noteq> [] \<and> ((\<forall>x \<in> set seen. x = hd seen) \<longrightarrow> run_section P s (hd seen) = r)"

inductive lock_step ::
  "platform \<Rightarrow> engine \<times> shared_mutex \<times> lthread list \<Rightarrow> label \<Rightarrow> engine \<times> shared_mutex \<times> lthread list \<Rightarrow> bool" for P where
  l_called: "i < length T \<Longrightarrow> T ! i = Outside Idle \<Longrightarrow> begin_call c = Inr (ss, a) \<Longrightarrow>
    lock_step P (st, mu, T) (Visible (Called i c)) (st, mu, T[i := Outside (Running c ss a)])"
| l_threw: "i < length T \<Longrightarrow> T ! i = Outside Idle \<Longrightarrow> begin_call c = Inl ex \<Longrightarrow>
    lock_step P (st, mu, T) (Visible (Threw i c ex)) (st, mu, T)"
| l_acquires: "i < length T \<Longrightarrow> T ! i = Outside (Running c (s # ss) a) \<Longrightarrow> acquire (section_mode s) i mu = Some mu' \<Longrightarrow>
    lock_step P (st, mu, T) (Acquires i) (st, mu', T[i := Inside c s ss a [] False])"
| l_reads: "i < length T \<Longrightarrow> T ! i = Inside c s ss a seen False \<Longrightarrow>
    lock_step P (st, mu, T) (Reads i) (st, mu, T[i := Inside c s ss a (seen @ [st]) False])"
| l_writes: "i < length T \<Longrightarrow> T ! i = Inside c s ss a seen dirty \<Longrightarrow> seen \<noteq> [] \<Longrightarrow> section_mode s \<noteq> Shared_lock \<Longrightarrow>
    lock_step P (st, mu, T) (Writes i) (torn, mu, T[i := Inside c s ss a seen True])"
| l_leaves: "i < length T \<Longrightarrow> T ! i = Inside c s ss a seen dirty \<Longrightarrow> computes P s seen (ns, b, out) \<Longrightarrow>
    st' = (if section_mode s = Shared_lock then st else out) \<Longrightarrow>
    lock_step P (st, mu, T) (Visible (Stepped i))
      (st', release (section_mode s) i mu, T[i := Outside (Running c (ns @ ss) (answered b a))])"
| l_returned: "i < length T \<Longrightarrow> T ! i = Outside (Running c [] a) \<Longrightarrow>
    lock_step P (st, mu, T) (Visible (Returned i c a)) (st, mu, T[i := Outside Idle])"
| l_peeks: "i < length T \<Longrightarrow> T ! i = Outside Idle \<Longrightarrow>
    lock_step P (st, mu, T) (Peeks i u) (st, mu, T[i := Peeking u])"
| l_peeked: "i < length T \<Longrightarrow> T ! i = Peeking u \<Longrightarrow>
    lock_step P (st, mu, T) (Peeked i) (st, mu, T[i := Outside Idle])"

inductive lock_run :: "platform \<Rightarrow> nat \<Rightarrow> label list \<Rightarrow> engine \<times> shared_mutex \<times> lthread list \<Rightarrow> bool" for P n where
  starts: "lock_run P n [] (new_engine P, free_mutex, replicate n (Outside Idle))"
| continues: "lock_run P n ls s \<Longrightarrow> lock_step P s l s' \<Longrightarrow> lock_run P n (ls @ [l]) s'"

definition events_of :: "label list \<Rightarrow> event list" where
  "events_of ls = concat (map (\<lambda>l. case l of Visible ev \<Rightarrow> [ev] | _ \<Rightarrow> []) ls)"

lemma events_of_simps [simp]:
  "events_of [] = []" "events_of (ls @ ks) = events_of ls @ events_of ks" "events_of (Visible ev # ls) = ev # events_of ls"
  "events_of (Acquires i # ls) = events_of ls" "events_of (Reads i # ls) = events_of ls" "events_of (Writes i # ls) = events_of ls"
  "events_of (Peeks i u # ls) = events_of ls" "events_of (Peeked i # ls) = events_of ls"
  by (simp_all add: events_of_def)

text \<open>
  A data race: a thread is inside a section that writes while another accesses the engine. A thread is
  unguarded while it reads without the mutex, and in a section that takes no guard, the creation of
  \<open>getDirectoryFileCount\<close>.
\<close>

definition inside :: "lock_mode \<Rightarrow> lthread \<Rightarrow> bool" where
  "inside mode t = (case t of Inside c s ss a seen dirty \<Rightarrow> section_mode s = mode | _ \<Rightarrow> False)"

definition is_inside :: "lthread \<Rightarrow> bool" where
  "is_inside t = (case t of Inside c s ss a seen dirty \<Rightarrow> True | _ \<Rightarrow> False)"

definition accesses :: "lthread \<Rightarrow> bool" where
  "accesses t = (case t of Inside c s ss a seen dirty \<Rightarrow> True | Peeking u \<Rightarrow> True | Outside _ \<Rightarrow> False)"

definition may_write :: "lthread \<Rightarrow> bool" where
  "may_write t = (case t of Inside c s ss a seen dirty \<Rightarrow> section_mode s \<noteq> Shared_lock | _ \<Rightarrow> False)"

definition unguarded :: "lthread \<Rightarrow> bool" where
  "unguarded t =
     (case t of Inside c s ss a seen dirty \<Rightarrow> section_mode s = No_lock | Peeking u \<Rightarrow> True | Outside _ \<Rightarrow> False)"

definition data_race :: "lthread list \<Rightarrow> nat \<Rightarrow> nat \<Rightarrow> bool" where
  "data_race T i j \<longleftrightarrow> i < length T \<and> j < length T \<and> i \<noteq> j \<and> may_write (T ! i) \<and> accesses (T ! j)"

lemma inside_simps [simp]:
  "\<not> inside mode (Outside t)" "inside mode (Inside c s ss a seen dirty) \<longleftrightarrow> section_mode s = mode" "\<not> inside mode (Peeking u)"
  "\<not> is_inside (Outside t)" "is_inside (Inside c s ss a seen dirty)" "\<not> is_inside (Peeking u)"
  by (simp_all add: inside_def is_inside_def)

lemma race_simps [simp]:
  "\<not> accesses (Outside t)" "accesses (Inside c s ss a seen dirty)" "accesses (Peeking u)"
  "\<not> may_write (Outside t)" "may_write (Inside c s ss a seen dirty) \<longleftrightarrow> section_mode s \<noteq> Shared_lock" "\<not> may_write (Peeking u)"
  "\<not> unguarded (Outside t)" "unguarded (Peeking u)"
  "unguarded (Inside c s ss a seen dirty) \<longleftrightarrow> section_mode s = No_lock"
  by (simp_all add: accesses_def may_write_def unguarded_def)

subsection \<open>Who holds the mutex\<close>

text \<open>The owner is the one thread in an exclusive section, the holders are those in shared ones.\<close>

definition mutex_inv :: "shared_mutex \<Rightarrow> lthread list \<Rightarrow> bool" where
  "mutex_inv mu T \<longleftrightarrow>
     (\<forall>i < length T. inside Exclusive_lock (T ! i) \<longleftrightarrow> owner mu = Some i) \<and>
     (\<forall>i < length T. inside Shared_lock (T ! i) \<longleftrightarrow> i \<in> set (holders mu)) \<and>
     (\<forall>i. owner mu = Some i \<longrightarrow> i < length T) \<and> (\<forall>i \<in> set (holders mu). i < length T) \<and>
     distinct (holders mu) \<and> (owner mu \<noteq> None \<longrightarrow> holders mu = [])"

lemma mutex_inv_same:
  assumes "mutex_inv mu T" and "i < length T" and "\<And>mode. mode \<noteq> No_lock \<Longrightarrow> inside mode t = inside mode (T ! i)"
  shows "mutex_inv mu (T[i := t])"
  using assms by (auto simp: mutex_inv_def nth_list_update)

lemma mutex_inv_acquire:
  assumes "mutex_inv mu T" and "i < length T" and "T ! i = Outside t" and "acquire (section_mode s) i mu = Some mu'"
  shows "mutex_inv mu' (T[i := Inside c s ss a [] False])"
  using assms
  by (cases "section_mode s")
    (auto simp: mutex_inv_def acquire_def lock_shared_def lock_exclusive_def nth_list_update split: if_splits)

lemma mutex_inv_release:
  assumes "mutex_inv mu T" and "i < length T" and "T ! i = Inside c s ss a seen dirty"
  shows "mutex_inv (release (section_mode s) i mu) (T[i := Outside t])"
  using assms
  by (cases "section_mode s")
    (auto simp: mutex_inv_def release_def unlock_shared_def unlock_exclusive_def nth_list_update)

lemma mutex_excludes:
  assumes "mutex_inv mu T" and "i < length T" and "j < length T" and "i \<noteq> j" and "inside Exclusive_lock (T ! i)"
  shows "\<not> inside Exclusive_lock (T ! j) \<and> \<not> inside Shared_lock (T ! j)"
  using assms by (auto simp: mutex_inv_def)

subsection \<open>Sections are single steps\<close>

definition abs_thread :: "lthread \<Rightarrow> thread" where
  "abs_thread t = (case t of Outside u \<Rightarrow> u | Inside c s ss a seen dirty \<Rightarrow> Running c (s # ss) a | Peeking u \<Rightarrow> Idle)"

definition dirty :: "lthread \<Rightarrow> bool" where
  "dirty t = (case t of Inside c s ss a seen d \<Rightarrow> d | _ \<Rightarrow> False)"

text \<open>A thread inside has read nothing but the engine between the sections, and is dirty only if it owns the mutex.\<close>

definition consistent :: "engine \<Rightarrow> lthread \<Rightarrow> bool" where
  "consistent st0 t =
     (case t of
        Inside c s ss a seen d \<Rightarrow> locked s \<and> (\<forall>x \<in> set seen. x = st0) \<and> (d \<longrightarrow> section_mode s = Exclusive_lock)
      | _ \<Rightarrow> True)"

lemma thread_simps [simp]:
  "abs_thread (Outside u) = u" "abs_thread (Inside c s ss a seen d) = Running c (s # ss) a" "abs_thread (Peeking r) = Idle"
  "\<not> dirty (Peeking r)" "consistent st0 (Peeking r)"
  "\<not> dirty (Outside u)" "dirty (Inside c s ss a seen d) = d" "consistent st0 (Outside u)"
  "consistent st0 (Inside c s ss a seen d) \<longleftrightarrow>
     locked s \<and> (\<forall>x \<in> set seen. x = st0) \<and> (d \<longrightarrow> section_mode s = Exclusive_lock)"
  by (simp_all add: abs_thread_def dirty_def consistent_def)

definition simulated :: "platform \<Rightarrow> nat \<Rightarrow> event list \<Rightarrow> engine \<times> shared_mutex \<times> lthread list \<Rightarrow> engine \<Rightarrow> bool" where
  "simulated P n evs = (\<lambda>(st, mu, T) st0.
     conc_run P n evs (st0, map abs_thread T) \<and> mutex_inv mu T \<and>
     (\<forall>i < length T. consistent st0 (T ! i)) \<and> ((\<forall>i < length T. \<not> dirty (T ! i)) \<longrightarrow> st = st0))"

lemma dirty_owner:
  assumes "mutex_inv mu T" and "\<forall>i < length T. consistent st0 (T ! i)" and "j < length T" and "dirty (T ! j)"
  shows "inside Exclusive_lock (T ! j)"
  using assms by (cases "T ! j") force+

lemma inside_others:
  assumes "mutex_inv mu T" and "\<forall>i < length T. consistent st0 (T ! i)"
    and "i < length T" and "j < length T" and "i \<noteq> j" and "inside Exclusive_lock (T ! i)"
  shows "\<not> is_inside (T ! j)"
proof
  assume "is_inside (T ! j)"
  then obtain c s ss a seen d where t: "T ! j = Inside c s ss a seen d" by (cases "T ! j") auto
  with assms(2,4) have "locked s" by force
  then have "section_mode s = Exclusive_lock \<or> section_mode s = Shared_lock"
    using section_mode_locked [of s] by (cases "section_mode s") auto
  with mutex_excludes [OF assms(1,3,4,5,6)] t show False by auto
qed

text \<open>A step of one thread that leaves the engine between the sections as it is.\<close>

lemma simulated_update:
  assumes "simulated P n evs (st, mu, T) st0" and "i < length T" and "consistent st0 t"
    and "mutex_inv mu' (T[i := t])" and "conc_run P n evs' (st0, (map abs_thread T)[i := abs_thread t])"
    and "dirty (T ! i) \<longrightarrow> dirty t" and "st' = st \<or> dirty t"
  shows "simulated P n evs' (st', mu', T[i := t]) st0"
proof -
  have "\<forall>j < length (T[i := t]). consistent st0 (T[i := t] ! j)"
    using assms(1-3) by (auto simp: simulated_def nth_list_update)
  moreover have "st' = st0" if clean: "\<forall>j < length (T[i := t]). \<not> dirty (T[i := t] ! j)"
  proof -
    have t: "\<not> dirty t" using clean assms(2) by auto
    moreover have "\<not> dirty (T ! j)" if "j < length T" for j
      using clean that assms(6) t by (cases "j = i") (auto simp: nth_list_update)
    ultimately show ?thesis using assms(1,7) by (auto simp: simulated_def)
  qed
  ultimately show ?thesis using assms(4,5) by (simp add: simulated_def map_update)
qed

lemma simulated_inv: "simulated P n evs (st, mu, T) st0 \<Longrightarrow> mutex_inv mu T"
  "simulated P n evs (st, mu, T) st0 \<Longrightarrow> conc_run P n evs (st0, map abs_thread T)"
  "simulated P n evs (st, mu, T) st0 \<Longrightarrow> i < length T \<Longrightarrow> consistent st0 (T ! i)"
  by (simp_all add: simulated_def)

text \<open>No call creates a path without the lock but \<open>getDirectoryFileCount\<close>.\<close>

definition locks :: "call \<Rightarrow> bool" where
  "locks c = (case c of GetDirectoryFileCount _ \<Rightarrow> False | _ \<Rightarrow> True)"

definition always_locked :: "critical \<Rightarrow> bool" where
  "always_locked s = (case s of Create l _ \<Rightarrow> l | Read l _ _ _ \<Rightarrow> l | _ \<Rightarrow> True)"

interpretation conc_locked: section_invariant P "\<lambda>_. True" always_locked locks for P
proof
  show "list_all always_locked ss" if "locks c" "begin_call c = Inr (ss, a)" for c ss a
    using that by (cases c) (auto simp: locks_def always_locked_def whole_def setter_def getter_def reader_def rbind_Inr_iff
        list_all_iff split: if_splits)
  show "list_all always_locked ns" if "always_locked s" "run_section P s st = (ns, b, st')" for s st ns b st'
    using that by (cases s) (auto simp: always_locked_def write_all_def list_all_iff split: option.splits sum.splits if_splits)
qed simp_all

lemma always_locked: "always_locked s \<Longrightarrow> locked s"
  by (cases s) (simp_all add: always_locked_def locked_def)

lemma simulated_read:
  assumes "simulated P n evs (st, mu, T) st0" and "i < length T" and "T ! i = Inside c s ss a seen False"
  shows "st = st0"
proof -
  have inv: "mutex_inv mu T" "\<forall>i < length T. consistent st0 (T ! i)" using assms(1) by (auto simp: simulated_def)
  have "\<not> dirty (T ! j)" if "j < length T" for j
  proof
    assume d: "dirty (T ! j)"
    with assms(3) have "j \<noteq> i" by auto
    with inside_others [OF inv that assms(2)] dirty_owner [OF inv that d] assms(3) show False by simp
  qed
  with assms(1) show ?thesis by (simp add: simulated_def)
qed

lemma simulated_step:
  assumes "simulated P n evs s st0" and "lock_step P s l s'" and "list_all locks (calls_of (evs @ events_of [l]))"
  shows "\<exists>st0'. simulated P n (evs @ events_of [l]) s' st0'"
  using assms(2)
proof cases
  case (l_called i T c ss a st mu)
  have sim: "simulated P n evs (st, mu, T) st0" using assms(1) l_called by simp
  have "conc_step P (st0, map abs_thread T) (Called i c) (st0, (map abs_thread T)[i := Running c ss a])"
    by (rule conc_step.called) (use l_called in simp_all)
  then have "simulated P n (evs @ [Called i c]) s' st0"
    unfolding l_called(3) using l_called simulated_inv [OF sim]
    by (intro simulated_update [OF sim]) (auto intro: conc_run.goes_on mutex_inv_same)
  with l_called show ?thesis by auto
next
  case (l_threw i T c ex st mu)
  have "conc_step P (st0, map abs_thread T) (Threw i c ex) (st0, map abs_thread T)"
    by (rule conc_step.threw) (use l_threw in simp_all)
  with assms(1) l_threw have "simulated P n (evs @ [Threw i c ex]) s' st0"
    by (auto simp: simulated_def intro!: conc_run.goes_on)
  with l_threw show ?thesis by auto
next
  case (l_acquires i T c x ss a mu mu' st)
  have sim: "simulated P n evs (st, mu, T) st0" using assms(1) l_acquires by simp
  have "all_pending always_locked (map abs_thread T)"
    using conc_locked.invariant_run [OF simulated_inv(2) [OF sim]] assms(3) by simp
  with l_acquires have "locked x" using all_pending_nth [of always_locked "map abs_thread T" i] always_locked by simp
  moreover have "(map abs_thread T)[i := Running c (x # ss) a] = map abs_thread T"
    using l_acquires by (simp add: list_update_same_conv)
  ultimately have "simulated P n evs s' st0"
    unfolding l_acquires(3) using l_acquires simulated_inv [OF sim]
    by (intro simulated_update [OF sim]) (auto intro: mutex_inv_acquire)
  with l_acquires show ?thesis by auto
next
  case (l_reads i T c x ss a seen st mu)
  have sim: "simulated P n evs (st, mu, T) st0" using assms(1) l_reads by simp
  have "st = st0" by (rule simulated_read [OF sim]) (use l_reads in auto)
  moreover have "(map abs_thread T)[i := Running c (x # ss) a] = map abs_thread T"
    using l_reads by (simp add: list_update_same_conv)
  moreover have "consistent st0 (T ! i)" by (rule simulated_inv(3) [OF sim l_reads(4)])
  ultimately have "simulated P n evs s' st0"
    unfolding l_reads(3) using l_reads simulated_inv [OF sim]
    by (intro simulated_update [OF sim]) (auto intro: mutex_inv_same)
  with l_reads show ?thesis by auto
next
  case (l_writes i T c x ss a seen d st mu torn)
  have sim: "simulated P n evs (st, mu, T) st0" using assms(1) l_writes by simp
  have "(map abs_thread T)[i := Running c (x # ss) a] = map abs_thread T"
    using l_writes by (simp add: list_update_same_conv)
  moreover have con: "consistent st0 (T ! i)" by (rule simulated_inv(3) [OF sim l_writes(4)])
  moreover have "section_mode x = Exclusive_lock"
    using con l_writes section_mode_locked [of x] by (cases "section_mode x") auto
  ultimately have "simulated P n evs s' st0"
    unfolding l_writes(3) using l_writes simulated_inv [OF sim]
    by (intro simulated_update [OF sim]) (auto intro: mutex_inv_same)
  with l_writes show ?thesis by auto
next
  case (l_returned i T c a st mu)
  have sim: "simulated P n evs (st, mu, T) st0" using assms(1) l_returned by simp
  have "conc_step P (st0, map abs_thread T) (Returned i c a) (st0, (map abs_thread T)[i := Idle])"
    by (rule conc_step.returned) (use l_returned in simp_all)
  then have "simulated P n (evs @ [Returned i c a]) s' st0"
    unfolding l_returned(3) using l_returned simulated_inv [OF sim]
    by (intro simulated_update [OF sim]) (auto intro: conc_run.goes_on mutex_inv_same)
  with l_returned show ?thesis by auto
next
  case (l_peeks i T st mu u)
  have sim: "simulated P n evs (st, mu, T) st0" using assms(1) l_peeks by simp
  have "(map abs_thread T)[i := Idle] = map abs_thread T" using l_peeks by (simp add: list_update_same_conv)
  then have "simulated P n evs s' st0"
    unfolding l_peeks(3) using l_peeks simulated_inv [OF sim]
    by (intro simulated_update [OF sim]) (auto intro: mutex_inv_same)
  with l_peeks show ?thesis by auto
next
  case (l_peeked i T u st mu)
  have sim: "simulated P n evs (st, mu, T) st0" using assms(1) l_peeked by simp
  have "(map abs_thread T)[i := Idle] = map abs_thread T" using l_peeked by (simp add: list_update_same_conv)
  then have "simulated P n evs s' st0"
    unfolding l_peeked(3) using l_peeked simulated_inv [OF sim]
    by (intro simulated_update [OF sim]) (auto intro: mutex_inv_same)
  with l_peeked show ?thesis by auto
next
  case (l_leaves i T c x ss a seen d ns b out st' st mu)
  have sim: "simulated P n evs (st, mu, T) st0" using assms(1) l_leaves by simp
  then have con: "\<forall>i < length T. consistent st0 (T ! i)" and clean: "(\<forall>i < length T. \<not> dirty (T ! i)) \<longrightarrow> st = st0"
    by (auto simp: simulated_def)
  note inv = simulated_inv(1) [OF sim]
  have x: "locked x" "\<forall>y \<in> set seen. y = st0" "d \<longrightarrow> section_mode x = Exclusive_lock"
    using con l_leaves(4,5) by force+
  from l_leaves(6) have "seen \<noteq> []" and same: "(\<forall>y \<in> set seen. y = hd seen) \<longrightarrow> run_section P x (hd seen) = (ns, b, out)"
    by (simp_all add: computes_def)
  with x(2) have "hd seen = st0" by simp
  with same x(2) have out: "run_section P x st0 = (ns, b, out)" by simp
  let ?t = "Outside (Running c (ns @ ss) (answered b a))"
  have "conc_step P (st0, map abs_thread T) (Stepped i) (out, (map abs_thread T)[i := Running c (ns @ ss) (answered b a)])"
    by (rule conc_step.stepped) (use l_leaves out x in \<open>simp_all add: may_run_def\<close>)
  then have run: "conc_run P n (evs @ [Stepped i]) (out, map abs_thread (T[i := ?t]))"
    using simulated_inv(2) [OF sim] by (auto simp: map_update intro: conc_run.goes_on)
  have inv': "mutex_inv (release (section_mode x) i mu) (T[i := ?t])"
    by (rule mutex_inv_release [OF inv]) (use l_leaves in simp_all)
  have "simulated P n (evs @ [Stepped i]) s' out"
  proof (cases "section_mode x = Shared_lock")
    case True
    then have same: "out = st0" using shared_reads_only out by blast
    have "simulated P n (evs @ [Stepped i]) s' st0"
      unfolding l_leaves(3) using l_leaves run inv' True x(3) same
      by (intro simulated_update [OF sim]) (auto simp: map_update)
    with same show ?thesis by simp
  next
    case False
    then have excl: "section_mode x = Exclusive_lock" using x(1) section_mode_locked [of x] by (cases "section_mode x") auto
    have "consistent out (T ! j)" if "j < length T" "j \<noteq> i" for j
      using inside_others [OF inv con l_leaves(4) that(1)] that(2) l_leaves(5) excl by (cases "T ! j") auto
    then have "consistent out (T[i := ?t] ! j)" if "j < length T" for j
      using that l_leaves(4) by (simp add: nth_list_update)
    with False l_leaves run inv' show ?thesis by (simp add: simulated_def)
  qed
  with l_leaves show ?thesis by auto
qed

lemma simulated_run:
  assumes "lock_run P n ls s" and "list_all locks (calls_of (events_of ls))"
  shows "\<exists>st0. simulated P n (events_of ls) s st0"
  using assms
proof (induction rule: lock_run.induct)
  case starts
  have "mutex_inv free_mutex (replicate n (Outside Idle))" by (simp add: mutex_inv_def free_mutex_def)
  then show ?case
    using conc_run.begins [of P n] by (intro exI [of _ "new_engine P"]) (simp add: simulated_def)
next
  case (continues ls s l s')
  then obtain st0 where "simulated P n (events_of ls) s st0" by auto
  from simulated_step [OF this continues(2)] continues.prems show ?case by simp
qed

subsection \<open>Properties of the lock\<close>

text \<open>
  C12. The lock makes critical sections atomic: whatever the accesses of the sections and their order, and
  whatever state the engine is in while a section writes, the calls, their results and the order in which
  they return are those of a run in which every section is one step, and the engine between the sections
  is the one of that run. Only \<open>getDirectoryFileCount\<close>, which creates paths without the lock, is excluded.
\<close>

theorem sections_atomic:
  assumes "lock_run P n ls (st, mu, T)" and "list_all locks (calls_of (events_of ls))"
  shows "\<exists>st0. conc_run P n (events_of ls) (st0, map abs_thread T) \<and>
    ((\<forall>i < length T. \<not> is_inside (T ! i)) \<longrightarrow> st0 = st)"
proof -
  obtain st0 where sim: "simulated P n (events_of ls) (st, mu, T) st0"
    using simulated_run [OF assms] by blast
  have "st0 = st" if "\<forall>i < length T. \<not> is_inside (T ! i)"
  proof -
    have "\<not> dirty (T ! i)" if "i < length T" for i
      using \<open>\<forall>i < length T. \<not> is_inside (T ! i)\<close> that by (cases "T ! i") auto
    with sim show ?thesis by (simp add: simulated_def)
  qed
  with simulated_inv(2) [OF sim] show ?thesis by blast
qed

text \<open>A run of two threads: the first creates a path, the second asks for the size meanwhile.\<close>

definition creating :: "platform \<Rightarrow> lthread" where
  "creating P = Inside (NewFile ''/a'') (Whole (NewFile ''/a'')) [] Done [new_engine P] True"

definition owned :: shared_mutex where
  "owned = \<lparr>holders = [], owner = Some 0\<rparr>"

lemma creating_alone:
  "lock_run P 2 [Visible (Called 0 (NewFile ''/a'')), Acquires 0, Reads 0, Writes 0] (torn, owned, [creating P, Outside Idle])"
proof -
  let ?e = "new_engine P" and ?c = "NewFile ''/a''" and ?idle = "Outside Idle"
  let ?s = "Whole ?c"
  have "lock_run P 2 [] (?e, free_mutex, [?idle, ?idle])"
    using lock_run.starts [of P 2] by (simp add: numeral_2_eq_2)
  moreover have "lock_step P (?e, free_mutex, [?idle, ?idle]) (Visible (Called 0 ?c)) (?e, free_mutex, [Outside (Running ?c [?s] Done), ?idle])"
    using lock_step.l_called [of 0 "[?idle, ?idle]" ?c "[?s]" Done P ?e free_mutex] by (simp add: whole_def)
  moreover have "lock_step P (?e, free_mutex, [Outside (Running ?c [?s] Done), ?idle]) (Acquires 0)
      (?e, owned, [Inside ?c ?s [] Done [] False, ?idle])"
    using lock_step.l_acquires [of 0 "[Outside (Running ?c [?s] Done), ?idle]" ?c ?s "[]" Done free_mutex owned P ?e]
    by (simp add: acquire_def section_mode_def whole_mode_def lock_exclusive_def free_mutex_def owned_def)
  moreover have "lock_step P (?e, owned, [Inside ?c ?s [] Done [] False, ?idle]) (Reads 0)
      (?e, owned, [Inside ?c ?s [] Done [?e] False, ?idle])"
    using lock_step.l_reads [of 0 "[Inside ?c ?s [] Done [] False, ?idle]" ?c ?s "[]" Done "[]" P ?e owned] by simp
  moreover have "lock_step P (?e, owned, [Inside ?c ?s [] Done [?e] False, ?idle]) (Writes 0) (torn, owned, [creating P, ?idle])"
    using lock_step.l_writes [of 0 "[Inside ?c ?s [] Done [?e] False, ?idle]" ?c ?s "[]" Done "[?e]" False P ?e owned torn]
    by (simp add: creating_def section_mode_def whole_mode_def)
  ultimately show ?thesis
    using lock_run.continues [OF lock_run.continues [OF lock_run.continues [OF lock_run.continues]]] by fastforce
qed

lemma creating_run:
  "lock_run P 2 [Visible (Called 0 (NewFile ''/a'')), Acquires 0, Reads 0, Writes 0, Visible (Called 1 SizeOf)]
     (torn, owned, [creating P, Outside (Running SizeOf [Whole SizeOf] Done)])"
proof -
  have "lock_step P (torn, owned, [creating P, Outside Idle]) (Visible (Called 1 SizeOf))
      (torn, owned, [creating P, Outside (Running SizeOf [Whole SizeOf] Done)])"
    using lock_step.l_called [of 1 "[creating P, Outside Idle]" SizeOf "[Whole SizeOf]" Done P torn owned] by (simp add: whole_def)
  from lock_run.continues [OF creating_alone this] show ?thesis by simp
qed

theorem sections_atomic_witness:
  "\<exists>st0. conc_run demo 2 [Called 0 (NewFile ''/a''), Called 1 SizeOf, Stepped 0] (st0,
      [Running (NewFile ''/a'') [] Done, Running SizeOf [Whole SizeOf] Done]) \<and> st0 = newFile demo ''/a'' (new_engine demo)"
proof -
  let ?T = "[Outside (Running (NewFile ''/a'') [] Done), Outside (Running SizeOf [Whole SizeOf] Done)]"
  let ?ls = "[Visible (Called 0 (NewFile ''/a'')), Acquires 0, Reads 0, Writes 0, Visible (Called 1 SizeOf)] @ [Visible (Stepped 0)]"
  have "lock_step demo (undefined, owned, [creating demo, Outside (Running SizeOf [Whole SizeOf] Done)]) (Visible (Stepped 0))
      (newFile demo ''/a'' (new_engine demo), free_mutex, ?T)"
    using lock_step.l_leaves [of 0 "[creating demo, Outside (Running SizeOf [Whole SizeOf] Done)]" "NewFile ''/a''"
        "Whole (NewFile ''/a'')" "[]" Done "[new_engine demo]" True demo "[]" "Some Done"
        "newFile demo ''/a'' (new_engine demo)" "newFile demo ''/a'' (new_engine demo)" undefined owned]
    by (simp add: creating_def computes_def finish_def section_mode_def whole_mode_def release_def unlock_exclusive_def
        owned_def free_mutex_def)
  then have run: "lock_run demo 2 ?ls (newFile demo ''/a'' (new_engine demo), free_mutex, ?T)"
    by (rule lock_run.continues [OF creating_run])
  have "list_all locks (calls_of (events_of ?ls))" by (simp add: locks_def)
  from sections_atomic [OF run this] show ?thesis by (force simp: less_Suc_eq numeral_2_eq_2)
qed

text \<open>A thread that has begun to write has read.\<close>

definition has_read :: "lthread \<Rightarrow> bool" where
  "has_read t = (case t of Inside c s ss a seen d \<Rightarrow> d \<longrightarrow> seen \<noteq> [] | _ \<Rightarrow> True)"

lemma has_read_simps [simp]: "has_read (Outside u)" "has_read (Peeking r)" "has_read (Inside c s ss a seen d) \<longleftrightarrow> (d \<longrightarrow> seen \<noteq> [])"
  by (simp_all add: has_read_def)

lemma lock_step_inv:
  assumes "lock_step P (st, mu, T) l (st', mu', T')" and "mutex_inv mu T" and "\<forall>i < length T. has_read (T ! i)"
  shows "mutex_inv mu' T' \<and> (\<forall>i < length T'. has_read (T' ! i))"
  using assms(1) by cases
    (use assms(2,3) in \<open>auto simp: nth_list_update intro: mutex_inv_same mutex_inv_acquire mutex_inv_release\<close>)

lemma lock_run_inv:
  "lock_run P n ls s \<Longrightarrow> mutex_inv (fst (snd s)) (snd (snd s)) \<and> (\<forall>i < length (snd (snd s)). has_read (snd (snd s) ! i))"
proof (induction rule: lock_run.induct)
  case starts
  then show ?case by (simp add: mutex_inv_def free_mutex_def)
next
  case (continues ls s l s')
  then show ?case
    using lock_step_inv [of P "fst s" "fst (snd s)" "snd (snd s)" l "fst s'" "fst (snd s')" "snd (snd s')"] by simp
qed

subsection \<open>Data races\<close>

lemma unguarded_mode: "\<not> unguarded t \<Longrightarrow> accesses t \<Longrightarrow> inside Shared_lock t \<or> inside Exclusive_lock t"
proof (cases t)
  case (Inside c s ss a seen d)
  then show "\<not> unguarded t \<Longrightarrow> accesses t \<Longrightarrow> inside Shared_lock t \<or> inside Exclusive_lock t"
    by (cases "section_mode s") simp_all
qed simp_all


text \<open>
  All four ways to read without the mutex do race: here with a thread that creates a path.
\<close>

lemma peeking_races:
  "lock_run P 2 [Visible (Called 0 (NewFile ''/a'')), Acquires 0, Reads 0, Writes 0, Peeks 1 u] (torn, owned, [creating P, Peeking u]) \<and>
   data_race [creating P, Peeking u] 0 1"
proof -
  let ?ls = "[Visible (Called 0 (NewFile ''/a'')), Acquires 0, Reads 0, Writes 0]"
  have "lock_step P (torn, owned, [creating P, Outside Idle]) (Peeks 1 u) (torn, owned, [creating P, Peeking u])"
    using lock_step.l_peeks [of 1 "[creating P, Outside Idle]" P torn owned u] by simp
  from lock_run.continues [OF creating_alone this] show ?thesis
    by (simp add: data_race_def creating_def section_mode_def whole_mode_def)
qed


text \<open>
  \<open>getDirectoryFileCount\<close> races with any call that writes: it creates the path it misses without the lock.
\<close>

definition counting :: "string \<Rightarrow> critical" where
  "counting p = Read False p (\<lambda>e. TheLong (directory_children_count e)) (\<lambda>e. TheLong (directory_children_count e))"

theorem unlocked_creation_races:
  assumes "p \<noteq> []"
  shows "\<exists>ls st mu T. lock_run P 2 ls (st, mu, T) \<and> data_race T 0 1 \<and>
    calls_of (events_of ls) = [GetDirectoryFileCount p, NewFile ''/a'']"
proof -
  let ?e = "new_engine P" and ?g = "GetDirectoryFileCount p" and ?c = "NewFile ''/a''" and ?idle = "Outside Idle"
  let ?held = "\<lparr>holders = [1], owner = None\<rparr>"
  let ?miss = "Running ?g [Create False p, counting p] (TheLong 0)"
  let ?made = "Inside ?g (Create False p) [counting p] (TheLong 0) [] False"
  let ?new = "Inside ?c (Whole ?c) [] Done [] False"
  have "lock_run P 2 [] (?e, free_mutex, [?idle, ?idle])"
    using lock_run.starts [of P 2] by (simp add: numeral_2_eq_2)
  moreover have "lock_step P (?e, free_mutex, [?idle, ?idle]) (Visible (Called 1 ?g))
      (?e, free_mutex, [?idle, Outside (Running ?g [counting p] (TheLong 0))])"
    using lock_step.l_called [of 1 "[?idle, ?idle]" ?g "[counting p]" "TheLong 0" P ?e free_mutex] assms
    by (simp add: getter_def counting_def)
  moreover have "lock_step P (?e, free_mutex, [?idle, Outside (Running ?g [counting p] (TheLong 0))]) (Acquires 1)
      (?e, ?held, [?idle, Inside ?g (counting p) [] (TheLong 0) [] False])"
    using lock_step.l_acquires [of 1 "[?idle, Outside (Running ?g [counting p] (TheLong 0))]" ?g "counting p" "[]" "TheLong 0"
        free_mutex ?held P ?e]
    by (simp add: acquire_def section_mode_def counting_def lock_shared_def free_mutex_def)
  moreover have "lock_step P (?e, ?held, [?idle, Inside ?g (counting p) [] (TheLong 0) [] False]) (Reads 1)
      (?e, ?held, [?idle, Inside ?g (counting p) [] (TheLong 0) [?e] False])"
    using lock_step.l_reads [of 1 "[?idle, Inside ?g (counting p) [] (TheLong 0) [] False]" ?g "counting p" "[]" "TheLong 0" "[]"
        P ?e ?held] by simp
  moreover have "lock_step P (?e, ?held, [?idle, Inside ?g (counting p) [] (TheLong 0) [?e] False]) (Visible (Stepped 1))
      (?e, free_mutex, [?idle, Outside ?miss])"
    using lock_step.l_leaves [of 1 "[?idle, Inside ?g (counting p) [] (TheLong 0) [?e] False]" ?g "counting p" "[]" "TheLong 0"
        "[?e]" False P "[Create False p, counting p]" None ?e ?e ?e ?held]
    by (simp add: computes_def counting_def section_mode_def release_def unlock_shared_def free_mutex_def new_engine_def)
  moreover have "lock_step P (?e, free_mutex, [?idle, Outside ?miss]) (Visible (Called 0 ?c))
      (?e, free_mutex, [Outside (Running ?c [Whole ?c] Done), Outside ?miss])"
    using lock_step.l_called [of 0 "[?idle, Outside ?miss]" ?c "[Whole ?c]" Done P ?e free_mutex] by (simp add: whole_def)
  moreover have "lock_step P (?e, free_mutex, [Outside (Running ?c [Whole ?c] Done), Outside ?miss]) (Acquires 0)
      (?e, owned, [?new, Outside ?miss])"
    using lock_step.l_acquires [of 0 "[Outside (Running ?c [Whole ?c] Done), Outside ?miss]" ?c "Whole ?c" "[]" Done
        free_mutex owned P ?e]
    by (simp add: acquire_def section_mode_def whole_mode_def lock_exclusive_def free_mutex_def owned_def)
  moreover have "lock_step P (?e, owned, [?new, Outside ?miss]) (Acquires 1) (?e, owned, [?new, ?made])"
    using lock_step.l_acquires [of 1 "[?new, Outside ?miss]" ?g "Create False p" "[counting p]" "TheLong 0" owned owned P ?e]
    by (simp add: acquire_def section_mode_def)
  ultimately have "lock_run P 2 [Visible (Called 1 ?g), Acquires 1, Reads 1, Visible (Stepped 1), Visible (Called 0 ?c), Acquires 0, Acquires 1]
      (?e, owned, [?new, ?made])"
    using lock_run.continues [OF lock_run.continues [OF lock_run.continues [OF lock_run.continues [OF lock_run.continues
          [OF lock_run.continues [OF lock_run.continues]]]]]]
    by fastforce
  moreover have "data_race [?new, ?made] 0 1"
    by (simp add: data_race_def section_mode_def whole_mode_def)
  ultimately show ?thesis by fastforce
qed

text \<open>
  C17. The threads never wait for one another for ever: in every reachable state in which some thread is
  inside a call or reads without the mutex, some such thread can go on.
\<close>

theorem lock_never_deadlocks:
  assumes "lock_run P n ls (st, mu, T)" and "i < length T" and "T ! i \<noteq> Outside Idle"
  shows "\<exists>l s'. lock_step P (st, mu, T) l s' \<and> (\<forall>k c ex u. l \<noteq> Visible (Called k c) \<and> l \<noteq> Visible (Threw k c ex) \<and> l \<noteq> Peeks k u)"
proof -
  have inv: "mutex_inv mu T" "\<And>j. j < length T \<Longrightarrow> has_read (T ! j)" using lock_run_inv [OF assms(1)] by simp_all
  show ?thesis
  proof (cases "\<exists>j < length T. is_inside (T ! j)")
    case True
    then obtain j where jT: "j < length T" "is_inside (T ! j)" by blast
    then obtain c s ss a seen d where "T ! j = Inside c s ss a seen d" by (cases "T ! j") auto
    note j = jT(1) this
    show ?thesis
    proof (cases "seen = []")
      case True
      with inv(2) [OF j(1)] j have "T ! j = Inside c s ss a seen False" by simp
      from lock_step.l_reads [OF j(1) this, of P st mu] show ?thesis by blast
    next
      case False
      obtain ns b out where "run_section P s (hd seen) = (ns, b, out)" by (cases "run_section P s (hd seen)") auto
      with False have "computes P s seen (ns, b, out)" by (simp add: computes_def)
      from lock_step.l_leaves [OF j this refl, of st mu] show ?thesis by blast
    qed
  next
    case False
    then have "\<not> inside mode (T ! j)" if "j < length T" for j mode using that by (cases "T ! j") auto
    with inv(1) have own: "\<And>j. owner mu \<noteq> Some j" and hold: "\<And>j. j \<notin> set (holders mu)"
      unfolding mutex_inv_def by blast+
    have "owner mu = None" using own by (cases "owner mu") auto
    moreover have "holders mu = []" using hold by (cases "holders mu") auto
    ultimately have free: "\<exists>mu'. acquire mode i mu = Some mu'" for mode
      by (cases mode) (simp_all add: acquire_def lock_shared_def lock_exclusive_def)
    show ?thesis
    proof (cases "\<exists>u. T ! i = Peeking u")
      case True
      then obtain u where "T ! i = Peeking u" by blast
      from lock_step.l_peeked [OF assms(2) this, of P st mu] show ?thesis by blast
    next
      case outside: False
      obtain u where u: "T ! i = Outside u" using False outside assms(2) by (cases "T ! i") auto
      with assms(3) obtain c ss a where "T ! i = Outside (Running c ss a)" by (cases u) auto
      then show ?thesis
      proof (cases ss)
        case Nil
        with \<open>T ! i = Outside (Running c ss a)\<close> have "T ! i = Outside (Running c [] a)" by simp
        from lock_step.l_returned [OF assms(2) this, of P st mu] show ?thesis by blast
      next
        case (Cons s rest)
        with \<open>T ! i = Outside (Running c ss a)\<close> have t: "T ! i = Outside (Running c (s # rest) a)" by simp
        obtain mu' where "acquire (section_mode s) i mu = Some mu'" using free by blast
        from lock_step.l_acquires [OF assms(2) t this, of P st] show ?thesis by blast
      qed
    qed
  qed
qed

theorem lock_never_deadlocks_witness:
  "\<exists>l s'. lock_step demo (undefined, owned, [creating demo, Outside (Running SizeOf [Whole SizeOf] Done)]) l s' \<and>
    (\<forall>k c ex u. l \<noteq> Visible (Called k c) \<and> l \<noteq> Visible (Threw k c ex) \<and> l \<noteq> Peeks k u)"
  by (rule lock_never_deadlocks [OF creating_run, of 1]) simp_all

end
