(* ===== verification/Spec2Isabelle.thy ===== *)
theory Spec2Isabelle
  imports CL_Engine_Spec CL_Multicast_Net CL_Api CL_Roundtrip_Limits CL_Abstract CL_Concurrent_Spec CL_Runtime_Spec
    CL_Lifecycle CL_Server CL_Python_Spec CL_Home_Net CL_Token_Race CL_Lock
begin

text \<open>
  A verification library for CAPIO-CL, the C++ library that holds and distributes the coordination
  rules of a workflow: which application produces and consumes each file, when a file counts as
  committed, when its readers may start, where it is stored.

  The program. \<open>Engine\<close> (\<open>src/Engine.cpp\<close>) is a hash map from paths and glob patterns to entries
  (\<open>CapioCLEntry\<close>), behind one lock, with some forty operations. A path nobody has mentioned is
  created when it is first asked for, as a copy of the entry of its longest matching pattern. The
  engine delegates run-time questions to a \<open>Monitor\<close> (\<open>src/Monitor.cpp\<close>, \<open>src/monitors/\<close>), which
  asks its backends: one over UDP multicast, one over token files. Options come from a TOML file
  (\<open>src/configuration.cpp\<close>, \<open>src/defaults.cpp\<close>). An API server (\<open>src/api.cpp\<close>) adds entries it
  receives as JSON. A parser and a serializer read and write whole engines as JSON files. A Python
  module (\<open>bindings/\<close>) gives access to all of it, with a decorator that sends rules to the server.

  The theories, in the order of their dependencies.

  \<^item> \<open>CL_Prelude\<close>: 64 bit numbers, exceptions as the left side of a sum (\<open>exn\<close>, \<open>rbind\<close>, \<open>rfold\<close> for
    a loop that may throw), vectors with a duplicate check.
  \<^item> \<open>CL_Rules\<close> (\<open>capiocl.hpp\<close>): the names of the rules, \<open>sanitize\<close>. \<open>CL_Path\<close>: the part of
    \<open>std::filesystem::path\<close> the program uses. \<open>CL_Table\<close>: \<open>std::unordered_map\<close> with an arbitrary
    iteration order, behind the locale \<open>unordered_map\<close>. \<open>CL_Decimal\<close>: \<open>to_string\<close> and \<open>stoi\<close>.
  \<^item> \<open>CL_Entry\<close>: the entry, its merge and comparison operators. \<open>CL_Engine\<close>: the state of the engine
    and one definition per operation. An operation that misses its path creates it and calls itself
    again, as the source does; the termination proofs show that the second round finds it.
  \<^item> \<open>CL_Engine_Laws\<close>, \<open>CL_Attributes\<close>, \<open>CL_Creation\<close>: the invariant, what creating a path changes,
    the setter and getter laws (locales \<open>attribute\<close>, \<open>framed_attribute\<close>, \<open>entry_member\<close>,
    \<open>stable_member\<close>, \<open>name_vector\<close>), the longest match, child counting, the loops over the store.
  \<^item> \<open>CL_Session\<close>: all calls as one datatype, \<open>exec\<close>, the engines a sequence of calls reaches, and
    invariants of the entries (locale \<open>entry_invariant\<close>). \<open>CL_Engine_Spec\<close>: the properties of the engine.
  \<^item> \<open>CL_Config\<close>: options and TOML tables, with their properties.
  \<^item> \<open>CL_Monitor\<close>: the backends and the facade, over a disk and the datagrams sent.
    \<open>CL_Monitor_Spec\<close>: the contract both recording backends keep (locale \<open>monitor_backend\<close>) and the
    properties. \<open>CL_Multicast_Net\<close>: any number of processes on a network that may lose, repeat and
    reorder datagrams, as a step relation with its invariant and properties. \<open>CL_Home_Net\<close>: the same for
    home nodes. \<open>CL_Token_Race\<close>: the token files of several processes on one disk, interleaved at each
    operation on the file system.
  \<^item> \<open>CL_Api\<close>: entries as JSON and the API server.
  \<^item> \<open>CL_Runtime\<close>: the engine with its configuration and monitor: construction, \<open>loadConfiguration\<close>,
    and the operations it passes on. \<open>CL_Runtime_Spec\<close>: which backends a configuration leaves, and that
    engines on one disk see each other's commits.
  \<^item> \<open>CL_Socket\<close>: the sockets of the multicast backend and of the API server, over system calls any of
    which may fail. \<open>CL_Lifecycle\<close>: the loops of the two listeners and the destructor that waits for
    them. \<open>CL_Server\<close>: the loop of the API server; its start, a machine of two threads; and the
    destruction of an engine whose server runs.
  \<^item> \<open>CL_Print\<close>: the table \<open>print\<close> writes, and that its lines are as wide as its frame.
  \<^item> \<open>CL_Schema\<close>: the JSON schemas (\<open>schema/\<close>) as predicates. \<open>CL_Parser\<close> (\<open>src/Parser.cpp\<close>,
    \<open>src/parsers/\<close>): version, validation, paths and sections. \<open>CL_Parser_Spec\<close>: which documents are
    accepted and that what is read is well formed. \<open>CL_Parser_Facts\<close>: what of a document is in the
    engine.
  \<^item> \<open>CL_Serializer\<close> (\<open>src/Serializer.cpp\<close>, \<open>src/serializers/\<close>): an engine as a document, and the form
    of that document. \<open>CL_Serializer_Spec\<close>: when the parser accepts it. \<open>CL_Roundtrip\<close>: the engines
    that are read back equal (\<open>plain\<close>). \<open>CL_Roundtrip_Limits\<close>: engines that never are.
  \<^item> \<open>CL_Abstract\<close>: the specification of the engine as a step relation on a partial map, and that the
    engine refines it.
  \<^item> \<open>CL_Concurrent\<close>: each call as its critical sections, and threads that interleave them as a step
    relation (locale \<open>section_invariant\<close> for its invariants). \<open>CL_Concurrent_Spec\<close>: a call alone is the
    call of \<open>CL_Engine\<close>, what every interleaving keeps, how many sections a call takes. \<open>CL_Lock\<close>: the
    shared mutex and the single accesses of a section; it refines \<open>CL_Concurrent\<close>, so what is proved there
    holds with the lock; the calls never deadlock, and but for \<open>getDirectoryFileCount\<close>, which creates
    paths without the lock, they are free of data races.
  \<^item> \<open>CL_Python\<close>: the Python class as a table of methods, its results and exceptions, the attributes of
    an entry, the decorator. \<open>CL_Python_Spec\<close>: a Python session is a sequence of public calls and keeps
    the invariants; which calls it reaches; a rule sent by the decorator arrives.

  What is a parameter. \<open>fnmatch\<close>, the host name, the environment and the hash order (\<open>platform\<close>); the
  TOML parser; the JSON library (\<open>jsoncons\<close>); the disk; which system calls fail (\<open>system\<close>); what a
  listener receives while a query sleeps, and what each round of a listening loop sees; the casters of
  \<open>pybind11\<close> and the JSON module of Python. No property assumes anything of \<open>fnmatch\<close> or of the hash order beyond what its statement
  says. Where the JSON library has to read back what it wrote, that is a hypothesis about the one
  text concerned; where the parser converts a JSON value the hypotheses are \<open>json_conversions\<close> (a
  string is read as itself, a number that fits as itself) and, for version 1.1, that the number 1.1
  reads as the string \<open>1.1\<close>.

  Numbers. A \<open>long\<close> is a 64 bit word and wraps; signed overflow, which C++ leaves undefined, is
  excluded by a hypothesis where it matters (the child count). \<open>stoi\<close> checks the range of an \<open>int\<close>.
  There is no fuel anywhere: the recursions are proved to end. Undefined behaviour (a null pointer,
  a token that is not there) is the outcome \<open>None\<close>.

  Concurrency. The engine is modelled twice: its operations one after another (\<open>CL_Engine\<close>,
  \<open>CL_Session\<close>), and interleaved at the boundaries of their critical sections (\<open>CL_Concurrent\<close>); one
  section is atomic because of the lock (\<open>CL_Lock\<close>). The one creation that takes no lock is only
  possible in \<open>CL_Concurrent\<close> while no other thread is inside a call; otherwise it is a data race. The
  multicast protocols and the token files are modelled with all interleavings of the processes.

  Threads. Beside the calls on the engine, three places run concurrently. The listeners and the
  server loop are functions of the sequence of events their rounds see, so that returning is a
  property of the sequence. The start of the server is a step relation as a function of a schedule;
  its flag, which the code shares without synchronisation, is taken as sequentially consistent.

  Not modelled: the log messages of the components other than \<open>Engine::print\<close>, and the address in
  \<open>__repr__\<close> of the Python module; the order in which threads that wait for the mutex get it, and the
  mutexes inside the monitors, whose sections are single accesses here. The getters that return a reference
  (\<open>getWorkflowName\<close>, \<open>MulticastMonitor::getHomeNode\<close>) give the value it has when the lock is released. In the parser and the serializer the order in which
  the JSON library lists the members of an object is the order they are written in; nothing depends
  on it.
\<close>

end
